(* ===== verification/Prelude.thy ===== *)
theory Prelude
  imports Complex_Main "HOL-Library.AList"
begin

text \<open>
  The shared ground of the development: the exceptions the Python code raises, actions that
  pass a state and may raise (an exception keeps the state changes made before it, as in
  Python), dictionaries that keep insertion order, and the cells and rows of a CSV frame.
  Nothing in this theory models one source file; the component theories map to the code.
\<close>

named_theorems action_simps \<open>evaluation of state-passing actions\<close>
named_theorems keeps_intros \<open>an action keeps an invariant\<close>

section \<open>Exceptions and state-passing actions\<close>

text \<open>The exceptions the modelled code raises or catches.\<close>

datatype exn =
    RpcCliError string
  | RpcError string
  | RuntimeError string
  | ValueError string
  | TypeError
  | KeyError string
  | IndexError
  | OSError string
  | ComputeError
  | RateLimited string
  | FetchError string
  | ZeroDivisionError
  | CsvError string
  | ConfigError string
  | AttributeError
  | CalledProcessError string
  | TimeoutExpired
  | HTTPException
  | HttpRpcError string
  | HttpRpcCallError string

text \<open>\<open>except RpcCliError\<close> also catches its subclass \<open>RpcError\<close> (rpc/client.py).\<close>

fun is_rpc_cli_error :: "exn \<Rightarrow> bool" where
  "is_rpc_cli_error (RpcCliError m) = True"
| "is_rpc_cli_error (RpcError m) = True"
| "is_rpc_cli_error _ = False"

type_synonym ('s, 'a) action = "'s \<Rightarrow> (exn + 'a) \<times> 's"

definition ret :: "'a \<Rightarrow> ('s, 'a) action" where
  "ret x s = (Inr x, s)"

definition raise :: "exn \<Rightarrow> ('s, 'a) action" where
  "raise e s = (Inl e, s)"

definition bindA :: "('s, 'a) action \<Rightarrow> ('a \<Rightarrow> ('s, 'b) action) \<Rightarrow> ('s, 'b) action" where
  "bindA m f s = (case m s of (r, s') \<Rightarrow> (case r of Inl e \<Rightarrow> (Inl e, s') | Inr x \<Rightarrow> f x s'))"

definition thenA :: "('s, 'a) action \<Rightarrow> ('s, 'b) action \<Rightarrow> ('s, 'b) action" where
  "thenA m k = bindA m (\<lambda>_. k)"

definition getA :: "('s \<Rightarrow> 'a) \<Rightarrow> ('s, 'a) action" where
  "getA g s = (Inr (g s), s)"

definition updA :: "('s \<Rightarrow> 's) \<Rightarrow> ('s, unit) action" where
  "updA g s = (Inr (), g s)"

definition liftA :: "exn + 'a \<Rightarrow> ('s, 'a) action" where
  "liftA r s = (r, s)"

text \<open>\<open>for x in xs: body(x)\<close>, stopping at the first exception.\<close>

primrec forA :: "'x list \<Rightarrow> ('x \<Rightarrow> ('s, unit) action) \<Rightarrow> ('s, unit) action" where
  "forA [] body = ret ()"
| "forA (x # xs) body = thenA (body x) (forA xs body)"

text \<open>\<open>try: m  except e if P(e): h(e)\<close>.\<close>

definition catchA :: "('s, 'a) action \<Rightarrow> (exn \<Rightarrow> bool) \<Rightarrow> (exn \<Rightarrow> ('s, 'a) action) \<Rightarrow> ('s, 'a) action" where
  "catchA m P h s = (case m s of (r, s') \<Rightarrow>
     (case r of Inl e \<Rightarrow> (if P e then h e s' else (Inl e, s')) | Inr x \<Rightarrow> (Inr x, s')))"

lemma ret_apply [simp, action_simps]: "ret x s = (Inr x, s)"
  by (simp add: ret_def)

lemma raise_apply [simp, action_simps]: "raise e s = (Inl e, s)"
  by (simp add: raise_def)

lemma getA_apply [simp, action_simps]: "getA g s = (Inr (g s), s)"
  by (simp add: getA_def)

lemma updA_apply [simp, action_simps]: "updA g s = (Inr (), g s)"
  by (simp add: updA_def)

lemma liftA_apply [simp, action_simps]: "liftA r s = (r, s)"
  by (simp add: liftA_def)

lemma bindA_Inr: "m s = (Inr x, s') \<Longrightarrow> bindA m f s = f x s'"
  by (simp add: bindA_def)

lemma bindA_Inl: "m s = (Inl e, s') \<Longrightarrow> bindA m f s = (Inl e, s')"
  by (simp add: bindA_def)

lemma bindA_cases:
  obtains (err) e s' where "m s = (Inl e, s')" "bindA m f s = (Inl e, s')"
  | (ok) x s' where "m s = (Inr x, s')" "bindA m f s = f x s'"
  by (cases "m s"; cases "fst (m s)") (auto simp: bindA_def)

text \<open>An action keeps a state predicate, whether it returns or raises.\<close>

definition keeps :: "('s \<Rightarrow> bool) \<Rightarrow> ('s, 'a) action \<Rightarrow> bool" where
  "keeps I m \<longleftrightarrow> (\<forall>s. I s \<longrightarrow> I (snd (m s)))"

lemma keepsI: "(\<And>s. I s \<Longrightarrow> I (snd (m s))) \<Longrightarrow> keeps I m"
  by (simp add: keeps_def)

lemma keepsD: "keeps I m \<Longrightarrow> I s \<Longrightarrow> I (snd (m s))"
  by (simp add: keeps_def)

lemma keeps_ret [keeps_intros]: "keeps I (ret x)"
  by (simp add: keeps_def)

lemma keeps_raise [keeps_intros]: "keeps I (raise e)"
  by (simp add: keeps_def)

lemma keeps_getA [keeps_intros]: "keeps I (getA g)"
  by (simp add: keeps_def)

lemma keeps_liftA [keeps_intros]: "keeps I (liftA r)"
  by (simp add: keeps_def)

lemma keeps_updA: "(\<And>s. I s \<Longrightarrow> I (g s)) \<Longrightarrow> keeps I (updA g)"
  by (simp add: keeps_def)

lemma keeps_bindA [keeps_intros]:
  "keeps I m \<Longrightarrow> (\<And>x. keeps I (f x)) \<Longrightarrow> keeps I (bindA m f)"
  by (force simp: keeps_def bindA_def split: prod.splits sum.splits)

lemma keeps_thenA [keeps_intros]: "keeps I m \<Longrightarrow> keeps I k \<Longrightarrow> keeps I (thenA m k)"
  by (simp add: thenA_def keeps_bindA)

lemma keeps_forA [keeps_intros]: "(\<And>x. x \<in> set xs \<Longrightarrow> keeps I (body x)) \<Longrightarrow> keeps I (forA xs body)"
  by (induction xs) (auto intro: keeps_intros)

lemma keeps_catchA [keeps_intros]:
  "keeps I m \<Longrightarrow> (\<And>e. keeps I (h e)) \<Longrightarrow> keeps I (catchA m P h)"
  by (force simp: keeps_def catchA_def split: prod.splits sum.splits)

lemma keeps_if [keeps_intros]: "keeps I m \<Longrightarrow> keeps I k \<Longrightarrow> keeps I (if b then m else k)"
  by simp

text \<open>
  A triple: from a state in \<open>P\<close>, a result \<open>x\<close> comes with a state in \<open>Q x\<close>, an exception with one
  in \<open>X\<close>.
\<close>

definition triple :: "('s \<Rightarrow> bool) \<Rightarrow> ('s, 'a) action \<Rightarrow> ('a \<Rightarrow> 's \<Rightarrow> bool) \<Rightarrow> ('s \<Rightarrow> bool) \<Rightarrow> bool" where
  "triple P m Q X \<longleftrightarrow> (\<forall>s. P s \<longrightarrow> (case m s of (Inl e, s') \<Rightarrow> X s' | (Inr x, s') \<Rightarrow> Q x s'))"

lemma tripleI:
  "(\<And>s e s'. P s \<Longrightarrow> m s = (Inl e, s') \<Longrightarrow> X s') \<Longrightarrow> (\<And>s x s'. P s \<Longrightarrow> m s = (Inr x, s') \<Longrightarrow> Q x s') \<Longrightarrow>
   triple P m Q X"
  by (auto simp: triple_def split: prod.split sum.split)

lemma triple_Inr: "triple P m Q X \<Longrightarrow> P s \<Longrightarrow> m s = (Inr x, s') \<Longrightarrow> Q x s'"
  by (auto simp: triple_def dest: spec [of _ s])

lemma triple_Inl: "triple P m Q X \<Longrightarrow> P s \<Longrightarrow> m s = (Inl e, s') \<Longrightarrow> X s'"
  by (auto simp: triple_def dest: spec [of _ s])

lemma triple_bind:
  assumes m: "triple P m R X" and f: "\<And>x. triple (R x) (f x) Q X"
  shows "triple P (bindA m f) Q X"
proof (rule tripleI)
  fix s e s' assume "P s" "bindA m f s = (Inl e, s')"
  then show "X s'" by (cases rule: bindA_cases [of m s f]) (auto dest: triple_Inl [OF m] triple_Inr [OF m] triple_Inl [OF f])
next
  fix s x s' assume "P s" "bindA m f s = (Inr x, s')"
  then show "Q x s'" by (cases rule: bindA_cases [of m s f]) (auto dest: triple_Inr [OF m] triple_Inr [OF f])
qed

lemma triple_then: "triple P m (\<lambda>_. R) X \<Longrightarrow> triple R k Q X \<Longrightarrow> triple P (thenA m k) Q X"
  unfolding thenA_def by (rule triple_bind)

lemma triple_ret: "(\<And>s. P s \<Longrightarrow> Q x s) \<Longrightarrow> triple P (ret x) Q X"
  by (simp add: triple_def)

lemma triple_raise: "(\<And>s. P s \<Longrightarrow> X s) \<Longrightarrow> triple P (raise e) Q X"
  by (simp add: triple_def)

lemma triple_upd: "(\<And>s. P s \<Longrightarrow> Q () (g s)) \<Longrightarrow> triple P (updA g) Q X"
  by (simp add: triple_def)

lemma triple_keeps: "keeps P m \<Longrightarrow> (\<And>s. P s \<Longrightarrow> X s) \<Longrightarrow> triple P m (\<lambda>_. P) X"
  by (rule tripleI) (metis keepsD snd_conv)+

lemma keeps_triple: "triple P m (\<lambda>_. P) P \<Longrightarrow> keeps P m"
proof (rule keepsI)
  fix s assume t: "triple P m (\<lambda>_. P) P" "P s"
  then show "P (snd (m s))"
    by (cases "m s"; cases "fst (m s)") (auto dest: triple_Inl [OF t(1)] triple_Inr [OF t(1)])
qed

lemma triple_weaken:
  "triple P m Q X \<Longrightarrow> (\<And>s. P' s \<Longrightarrow> P s) \<Longrightarrow> (\<And>x s. Q x s \<Longrightarrow> Q' x s) \<Longrightarrow> (\<And>s. X s \<Longrightarrow> X' s) \<Longrightarrow> triple P' m Q' X'"
  by (rule tripleI) (blast dest: triple_Inl triple_Inr)+

lemma triple_cond: "(A \<Longrightarrow> triple P m Q X) \<Longrightarrow> triple (\<lambda>s. P s \<and> A) m Q X"
  by (cases A) (simp_all add: triple_def)

lemma triple_pre: "(\<And>s. P' s \<Longrightarrow> P s) \<Longrightarrow> triple P m Q X \<Longrightarrow> triple P' m Q X"
  by (erule triple_weaken) auto

section \<open>Python dictionaries: association lists in insertion order\<close>

text \<open>
  \<open>AList.update\<close> overwrites a key where it stands and appends a new one at the end, which is
  what a Python dict does; \<open>AList.delete\<close> is \<open>pop\<close>, \<open>map_of\<close> is \<open>get\<close>.
\<close>

type_synonym ('k, 'v) pydict = "('k \<times> 'v) list"

definition dict_update :: "('k, 'v) pydict \<Rightarrow> ('k, 'v) pydict \<Rightarrow> ('k, 'v) pydict" where
  "dict_update d e = fold (\<lambda>(k, v). AList.update k v) e d"

lemma dict_update_Nil [simp]: "dict_update d [] = d"
  by (simp add: dict_update_def)

lemma dict_update_Cons [simp]: "dict_update d ((k, v) # e) = dict_update (AList.update k v d) e"
  by (simp add: dict_update_def)

lemma map_of_update [simp]: "map_of (AList.update k v d) = (map_of d)(k \<mapsto> v)"
  by (rule update_conv')

lemma in_update: "e \<in> set (AList.update k v al) \<Longrightarrow> e \<in> set al \<or> e = (k, v)"
  by (induction al) (auto split: if_splits)

lemma update_not_Nil [simp]: "AList.update k v al \<noteq> []"
  by (cases al) (auto simp: split_paired_all)

lemma map_of_dict_update:
  "distinct (map fst e) \<Longrightarrow> map_of (dict_update d e) = map_of d ++ map_of e"
proof (induction e arbitrary: d)
  case Nil
  then show ?case by simp
next
  case (Cons p e)
  obtain k v where p: "p = (k, v)" by force
  from Cons.prems p have "k \<notin> dom (map_of e)" by (auto simp: dom_map_of_conv_image_fst)
  with Cons p show ?case
    by (auto simp: map_add_def fun_eq_iff domIff split: option.splits)
qed

lemma distinct_dict_update: "distinct (map fst d) \<Longrightarrow> distinct (map fst (dict_update d e))"
  by (induction e arbitrary: d) (auto simp: distinct_update split_paired_all)

lemma keys_dict_update: "fst ` set (dict_update d e) = fst ` set d \<union> fst ` set e"
proof (induction e arbitrary: d)
  case Nil
  then show ?case by simp
next
  case (Cons p e)
  obtain k v where "p = (k, v)" by force
  with Cons show ?case by (simp add: dom_update)
qed

section \<open>Cells and rows\<close>

text \<open>
  A CSV row is a dict from column names to cells. A float cell holds the rational value of
  the double.
\<close>

datatype cell =
    CNull
  | CBool bool
  | CInt int
  | CFloat rat
  | CStr string

type_synonym row = "(string, cell) pydict"

fun opt_cell :: "('a \<Rightarrow> cell) \<Rightarrow> 'a option \<Rightarrow> cell" where
  "opt_cell f None = CNull"
| "opt_cell f (Some x) = f x"

text \<open>What \<open>yaml.safe_load\<close> and \<open>json.loads\<close> return; the keys that are read are texts.\<close>

datatype pyval =
    VNull
  | VBool bool
  | VInt int
  | VFloat rat
  | VStr string
  | VList "pyval list"
  | VMap "(string \<times> pyval) list"

fun truthy :: "pyval \<Rightarrow> bool" where
  "truthy VNull = False"
| "truthy (VBool b) = b"
| "truthy (VInt n) = (n \<noteq> 0)"
| "truthy (VFloat q) = (q \<noteq> 0)"
| "truthy (VStr s) = (s \<noteq> [])"
| "truthy (VList xs) = (xs \<noteq> [])"
| "truthy (VMap m) = (m \<noteq> [])"

section \<open>Decimal numerals\<close>

definition digit_char :: "nat \<Rightarrow> char" where
  "digit_char d = char_of (48 + d)"

definition is_digit :: "char \<Rightarrow> bool" where
  "is_digit c \<longleftrightarrow> 48 \<le> (of_char c :: nat) \<and> (of_char c :: nat) \<le> 57"

definition digit_val :: "char \<Rightarrow> nat" where
  "digit_val c = of_char c - 48"

fun decimal :: "nat \<Rightarrow> string" where
  "decimal n = (if n < 10 then [digit_char n] else decimal (n div 10) @ [digit_char (n mod 10)])"

declare decimal.simps [simp del]

definition decimal_val :: "string \<Rightarrow> nat" where
  "decimal_val s = foldl (\<lambda>acc c. 10 * acc + digit_val c) 0 s"

lemma digit_val_char [simp]: "d < 10 \<Longrightarrow> digit_val (digit_char d) = d"
  by (simp add: digit_val_def digit_char_def of_char_of)

lemma is_digit_char [simp]: "d < 10 \<Longrightarrow> is_digit (digit_char d)"
  by (simp add: is_digit_def digit_char_def of_char_of)

lemma decimal_val_snoc: "decimal_val (s @ [c]) = 10 * decimal_val s + digit_val c"
  by (simp add: decimal_val_def)

lemma decimal_val_decimal [simp]: "decimal_val (decimal n) = n"
proof (induction n rule: decimal.induct)
  case (1 n)
  show ?case
  proof (cases "n < 10")
    case True
    then show ?thesis by (subst decimal.simps) (simp add: decimal_val_def)
  next
    case False
    with 1 show ?thesis by (subst decimal.simps) (simp add: decimal_val_snoc)
  qed
qed

lemma decimal_digits: "c \<in> set (decimal n) \<Longrightarrow> is_digit c"
proof (induction n rule: decimal.induct)
  case (1 n)
  then show ?case by (subst (asm) decimal.simps) (auto split: if_splits)
qed

lemma decimal_val_zeros: "decimal_val (replicate k CHR ''0'' @ s) = decimal_val s"
proof (induction k)
  case 0
  then show ?case by simp
next
  case (Suc k)
  have "decimal_val (CHR ''0'' # t) = decimal_val t" for t
    by (simp add: decimal_val_def digit_val_def)
  with Suc show ?case by simp
qed

lemma length_decimal_le: "n < 10 ^ k \<Longrightarrow> 0 < k \<Longrightarrow> length (decimal n) \<le> k"
proof (induction n arbitrary: k rule: decimal.induct)
  case (1 n)
  show ?case
  proof (cases "n < 10")
    case True
    with 1 show ?thesis by (subst decimal.simps) simp
  next
    case False
    obtain j where k: "k = Suc j" using 1 by (cases k) auto
    with False 1 have "0 < j" by (cases j) auto
    moreover have "n div 10 < 10 ^ j" using 1 k by (simp add: less_mult_imp_div_less)
    ultimately have "length (decimal (n div 10)) \<le> j" using 1 False by simp
    with False k show ?thesis by (subst decimal.simps) simp
  qed
qed

section \<open>Python conversions of cells\<close>

text \<open>\<open>int(s)\<close> of a string: optional blanks and sign, then decimal digits.\<close>

definition is_blank :: "char \<Rightarrow> bool" where
  "is_blank c \<longleftrightarrow> of_char c \<in> {9, 10, 11, 12, 13, 28, 29, 30, 31, 32, 133, 160 :: nat}"

definition strip :: "string \<Rightarrow> string" where
  "strip s = rev (dropWhile is_blank (rev (dropWhile is_blank s)))"

definition parse_int :: "string \<Rightarrow> exn + int" where
  "parse_int s =
     (let t = strip s;
          neg = (t \<noteq> [] \<and> hd t = CHR ''-'');
          ds = (if t \<noteq> [] \<and> (hd t = CHR ''-'' \<or> hd t = CHR ''+'') then tl t else t)
      in if ds = [] \<or> \<not> list_all is_digit ds then Inl (ValueError ''invalid literal for int'')
         else Inr ((if neg then - 1 else 1) * int (decimal_val ds)))"

definition truncate_rat :: "rat \<Rightarrow> int" where
  "truncate_rat q = (if 0 \<le> q then \<lfloor>q\<rfloor> else \<lceil>q\<rceil>)"

fun py_int :: "cell \<Rightarrow> exn + int" where
  "py_int CNull = Inl TypeError"
| "py_int (CBool b) = Inr (if b then 1 else 0)"
| "py_int (CInt n) = Inr n"
| "py_int (CFloat q) = Inr (truncate_rat q)"
| "py_int (CStr s) = parse_int s"

fun py_bool :: "cell \<Rightarrow> bool" where
  "py_bool CNull = False"
| "py_bool (CBool b) = b"
| "py_bool (CInt n) = (n \<noteq> 0)"
| "py_bool (CFloat q) = (q \<noteq> 0)"
| "py_bool (CStr s) = (s \<noteq> '''')"

definition show_int :: "int \<Rightarrow> string" where
  "show_int n = (if n < 0 then CHR ''-'' # decimal (nat (- n)) else decimal (nat n))"

text \<open>\<open>str(x)\<close> of a cell; the text of a float is left to the caller.\<close>

fun py_str :: "(rat \<Rightarrow> string) \<Rightarrow> cell \<Rightarrow> string" where
  "py_str fl CNull = ''None''"
| "py_str fl (CBool b) = (if b then ''True'' else ''False'')"
| "py_str fl (CInt n) = show_int n"
| "py_str fl (CFloat q) = fl q"
| "py_str fl (CStr s) = s"

text \<open>\<open>row[k]\<close> raises KeyError for a missing column.\<close>

definition row_get :: "row \<Rightarrow> string \<Rightarrow> exn + cell" where
  "row_get r k = (case map_of r k of None \<Rightarrow> Inl (KeyError k) | Some c \<Rightarrow> Inr c)"

definition bindE :: "exn + 'a \<Rightarrow> ('a \<Rightarrow> exn + 'b) \<Rightarrow> exn + 'b" where
  "bindE r f = (case r of Inl e \<Rightarrow> Inl e | Inr x \<Rightarrow> f x)"

lemma bindE_simps [simp]: "bindE (Inl e) f = Inl e" "bindE (Inr x) f = f x"
  by (simp_all add: bindE_def)

lemma row_get_Cons [simp]:
  "row_get ((k', c) # r) k = (if k = k' then Inr c else row_get r k)"
  by (simp add: row_get_def)

fun mapE :: "('a \<Rightarrow> exn + 'b) \<Rightarrow> 'a list \<Rightarrow> exn + 'b list" where
  "mapE f [] = Inr []"
| "mapE f (x # xs) = bindE (f x) (\<lambda>y. bindE (mapE f xs) (\<lambda>ys. Inr (y # ys)))"

section \<open>Texts\<close>

fun is_prefix :: "string \<Rightarrow> string \<Rightarrow> bool" where
  "is_prefix [] s = True"
| "is_prefix (c # cs) [] = False"
| "is_prefix (c # cs) (x # xs) = (c = x \<and> is_prefix cs xs)"

text \<open>\<open>t in s\<close> for texts.\<close>

fun text_in :: "string \<Rightarrow> string \<Rightarrow> bool" where
  "text_in t [] = (t = [])"
| "text_in t (x # xs) = (is_prefix t (x # xs) \<or> text_in t xs)"

lemma is_prefix_iff: "is_prefix t s \<longleftrightarrow> (\<exists>u. s = t @ u)"
  by (induction t s rule: is_prefix.induct) auto

lemma text_in_Cons: "text_in t s \<Longrightarrow> text_in t (x # s)"
  by simp

lemma text_in_intro: "text_in t (u @ t @ v)"
proof (induction u)
  case Nil
  have "is_prefix t (t @ v)" by (simp add: is_prefix_iff)
  then show ?case by (cases "t @ v") simp_all
qed (simp add: text_in_Cons)

lemma text_in_elim: "text_in t s \<Longrightarrow> \<exists>u v. s = u @ t @ v"
proof (induction s)
  case (Cons x s)
  then consider v where "x # s = t @ v" | u v where "s = u @ t @ v" by (auto simp: is_prefix_iff)
  then show ?case
  proof cases
    case 1
    then show ?thesis by (intro exI [of _ "[]"] exI [of _ v]) simp
  next
    case 2
    then show ?thesis by (intro exI [of _ "x # u"] exI [of _ v]) simp
  qed
qed simp

lemma text_in_iff: "text_in t s \<longleftrightarrow> (\<exists>u v. s = u @ t @ v)"
  using text_in_intro text_in_elim by metis

section \<open>What a loop accumulates\<close>

text \<open>A field that every iteration adds to is the sum, or the concatenation, of what it adds.\<close>

lemma fold_adds:
  fixes g :: "'s \<Rightarrow> 'n :: comm_monoid_add"
  assumes "\<And>x a. g (step x a) = g a + h x"
  shows "g (fold step xs a) = g a + sum_list (map h xs)"
  by (induction xs arbitrary: a) (simp_all add: assms ac_simps)

lemma fold_appends:
  assumes "\<And>x a. g (step x a) = g a @ h x"
  shows "g (fold step xs a) = g a @ concat (map h xs)"
  by (induction xs arbitrary: a) (simp_all add: assms)

lemma fold_keeps:
  assumes "\<And>x a. g (step x a) = g a"
  shows "g (fold step xs a) = g a"
  by (induction xs arbitrary: a) (simp_all add: assms)

section \<open>Fallible results\<close>

lemma bindE_Inr: "bindE r f = Inr y \<longleftrightarrow> (\<exists>x. r = Inr x \<and> f x = Inr y)"
  by (cases r) simp_all

lemma mapE_Inr: "mapE f xs = Inr ys \<longleftrightarrow> list_all2 (\<lambda>x y. f x = Inr y) xs ys"
proof (induction xs arbitrary: ys)
  case Nil
  then show ?case by auto
next
  case (Cons x xs)
  have "mapE f (x # xs) = Inr ys \<longleftrightarrow> (\<exists>y zs. f x = Inr y \<and> mapE f xs = Inr zs \<and> ys = y # zs)"
    by (auto simp: bindE_Inr)
  with Cons show ?case by (simp add: list_all2_Cons1) blast
qed

end
