(* ===== verification/Csv_Files.thy ===== *)
theory Csv_Files
  imports Prelude "HOL-Library.Countable" "HOL-Library.Multiset"
begin

text \<open>
  The disk and btc_parser_app/common/csv_writer.py. The disk maps paths to their bytes and
  keeps a log of the effects performed on it, so that the state of the disk after a crash
  between two effects is the run of a prefix of the log. A logical CSV is a base path; its
  numbered parts are files beside it. polars is not modelled: its \<open>write_csv\<close> and
  \<open>read_csv\<close> are the parameters \<open>W\<close> (include the header?, rows, to bytes) and \<open>R\<close> (bytes to
  rows, None for the ComputeError it raises).
\<close>

section \<open>Paths, files and effects\<close>

text \<open>A path is its directory and its file name.\<close>

type_synonym path = "string \<times> string"
type_synonym files = "(path, string) pydict"
type_synonym csv_write = "bool \<Rightarrow> row list \<Rightarrow> string"
type_synonym csv_read = "string \<Rightarrow> row list option"

text \<open>
  \<open>EAppend p h rs\<close> is \<open>open(p, "a")\<close> with \<open>write_csv(f, include_header=h)\<close>, \<open>EReplace p rs\<close> an
  \<open>atomic_replace\<close> by a CSV, \<open>EText p s\<close> one by a text, \<open>ERename src dst\<close> an \<open>os.replace\<close>.
\<close>

datatype effect =
    EAppend path bool "row list"
  | EReplace path "row list"
  | EText path string
  | ERename path path

definition contents :: "files \<Rightarrow> path \<Rightarrow> string" where
  "contents fs p = (case map_of fs p of None \<Rightarrow> '''' | Some c \<Rightarrow> c)"

fun apply_effect :: "csv_write \<Rightarrow> effect \<Rightarrow> files \<Rightarrow> files" where
  "apply_effect W (EAppend p h rs) fs = AList.update p (contents fs p @ W h rs) fs"
| "apply_effect W (EReplace p rs) fs = AList.update p (W True rs) fs"
| "apply_effect W (EText p s) fs = AList.update p s fs"
| "apply_effect W (ERename src dst) fs =
     (case map_of fs src of None \<Rightarrow> fs | Some c \<Rightarrow> AList.update dst c (AList.delete src fs))"

definition run_effects :: "csv_write \<Rightarrow> effect list \<Rightarrow> files \<Rightarrow> files" where
  "run_effects W es fs = fold (apply_effect W) es fs"

record disk =
  files :: files
  log :: "effect list"

definition do_effect :: "csv_write \<Rightarrow> effect \<Rightarrow> disk \<Rightarrow> disk" where
  "do_effect W e d = d\<lparr>files := apply_effect W e (files d), log := log d @ [e]\<rparr>"

definition path_exists :: "disk \<Rightarrow> path \<Rightarrow> bool" where
  "path_exists d p \<longleftrightarrow> map_of (files d) p \<noteq> None"

text \<open>\<open>st_size\<close> of a file; the code only reads it where the file exists.\<close>

definition st_size :: "disk \<Rightarrow> path \<Rightarrow> nat" where
  "st_size d p = length (contents (files d) p)"

lemma run_effects_Nil [simp]: "run_effects W [] fs = fs"
  by (simp add: run_effects_def)

lemma run_effects_Cons [simp]: "run_effects W (e # es) fs = run_effects W es (apply_effect W e fs)"
  by (simp add: run_effects_def)

lemma run_effects_append: "run_effects W (es @ es') fs = run_effects W es' (run_effects W es fs)"
  by (simp add: run_effects_def)

lemma log_do_effect [simp]: "log (do_effect W e d) = log d @ [e]"
  by (simp add: do_effect_def)

lemma files_do_effect [simp]: "files (do_effect W e d) = apply_effect W e (files d)"
  by (simp add: do_effect_def)

section \<open>Parts of a logical CSV\<close>

definition MAX_PART_BYTES :: nat where
  "MAX_PART_BYTES = 900000000"

record base =
  b_dir :: string
  b_stem :: string
  b_suffix :: string

definition base_path :: "base \<Rightarrow> path" where
  "base_path b = (b_dir b, b_stem b @ b_suffix b)"

text \<open>The format \<open>:06d\<close>.\<close>

definition pad6 :: "nat \<Rightarrow> string" where
  "pad6 n = (let s = decimal n in replicate (6 - length s) CHR ''0'' @ s)"

definition part_path :: "base \<Rightarrow> int \<Rightarrow> path" where
  "part_path b part =
     (if part \<le> 1 then base_path b
      else (b_dir b, b_stem b @ ''.'' @ pad6 (nat part) @ b_suffix b))"

text \<open>The regular expression \<open>^stem\.(\d{6})suffix$\<close> on a directory entry.\<close>

definition match_part :: "base \<Rightarrow> path \<Rightarrow> int option" where
  "match_part b p =
     (let pre = b_stem b @ ''.''; n = length pre; ds = take 6 (drop n (snd p)) in
      if fst p = b_dir b \<and> take n (snd p) = pre \<and> length ds = 6 \<and> list_all is_digit ds
         \<and> drop (n + 6) (snd p) = b_suffix b
      then Some (int (decimal_val ds)) else None)"

definition existing_part_numbers :: "disk \<Rightarrow> base \<Rightarrow> int list" where
  "existing_part_numbers d b =
     sort ((if path_exists d (base_path b) then [1] else [])
           @ List.map_filter (\<lambda>f. match_part b (fst f)) (files d))"

definition all_parts :: "disk \<Rightarrow> base \<Rightarrow> path list" where
  "all_parts d b = map (part_path b) (existing_part_numbers d b)"

definition csv_parts_exist :: "disk \<Rightarrow> base \<Rightarrow> bool" where
  "csv_parts_exist d b \<longleftrightarrow> (\<exists>p \<in> set (all_parts d b). 0 < st_size d p)"

text \<open>\<open>max(existing_part_numbers(...), default=z)\<close>.\<close>

definition max_default :: "int \<Rightarrow> int list \<Rightarrow> int" where
  "max_default z xs = (if xs = [] then z else fold max xs (hd xs))"

section \<open>Reading\<close>

definition line_break :: "char \<Rightarrow> bool" where
  "line_break c \<longleftrightarrow> of_char c \<in> {10, 11, 12, 13, 28, 29, 30, 133 :: nat}"

text \<open>\<open>str.splitlines()\<close>: a carriage return and a newline after it are one boundary.\<close>

fun split_lines_from :: "string \<Rightarrow> string \<Rightarrow> string list" where
  "split_lines_from cur [] = (if cur = [] then [] else [rev cur])"
| "split_lines_from cur (c # cs) =
     (if line_break c then
        rev cur # split_lines_from []
          (if of_char c = (13 :: nat) \<and> cs \<noteq> [] \<and> of_char (hd cs) = (10 :: nat) then tl cs else cs)
      else split_lines_from (c # cur) cs)"

definition splitlines :: "string \<Rightarrow> string list" where
  "splitlines s = split_lines_from [] s"

fun join_lines :: "string list \<Rightarrow> string" where
  "join_lines [] = ''''"
| "join_lines [l] = l"
| "join_lines (l # ls) = l @ [char_of (10 :: nat)] @ join_lines ls"

definition read_csv :: "csv_read \<Rightarrow> string \<Rightarrow> exn + row list" where
  "read_csv R c = (case R c of None \<Rightarrow> Inl ComputeError | Some f \<Rightarrow> Inr f)"

definition read_csv_lenient :: "csv_read \<Rightarrow> string \<Rightarrow> exn + row list" where
  "read_csv_lenient R c =
     (case R c of
        Some f \<Rightarrow> Inr f
      | None \<Rightarrow>
          (let lines = splitlines c in
           if length lines \<le> 1 then Inl ComputeError
           else read_csv R (join_lines (butlast lines) @ [char_of (10 :: nat)])))"

text \<open>Read every non-empty part in order; the first failure is raised.\<close>

fun read_parts :: "csv_read \<Rightarrow> disk \<Rightarrow> path list \<Rightarrow> exn + row list" where
  "read_parts R d [] = Inr []"
| "read_parts R d (p # ps) =
     (if st_size d p > 0 then
        (case read_csv_lenient R (contents (files d) p) of
           Inl e \<Rightarrow> Inl e
         | Inr f \<Rightarrow> (case read_parts R d ps of Inl e \<Rightarrow> Inl e | Inr g \<Rightarrow> Inr (f @ g)))
      else read_parts R d ps)"

definition read_csv_parts :: "csv_read \<Rightarrow> disk \<Rightarrow> base \<Rightarrow> exn + row list" where
  "read_csv_parts R d b = read_parts R d (all_parts d b)"

definition read_single_row_csv :: "csv_read \<Rightarrow> disk \<Rightarrow> path \<Rightarrow> exn + row option" where
  "read_single_row_csv R d p =
     (if \<not> path_exists d p \<or> st_size d p = 0 then Inr None
      else case read_csv R (contents (files d) p) of
             Inl e \<Rightarrow> Inl e
           | Inr f \<Rightarrow> Inr (case f of [] \<Rightarrow> None | r # _ \<Rightarrow> Some r))"

section \<open>Writing\<close>

definition write_single_row_csv :: "csv_write \<Rightarrow> path \<Rightarrow> row \<Rightarrow> disk \<Rightarrow> disk" where
  "write_single_row_csv W p r d = do_effect W (EReplace p [r]) d"

definition current_part_for_append :: "disk \<Rightarrow> base \<Rightarrow> nat \<Rightarrow> path" where
  "current_part_for_append d b max_part_bytes =
     (let numbers = existing_part_numbers d b in
      if numbers = [] then base_path b
      else let latest = part_path b (last numbers) in
           if st_size d latest \<ge> max_part_bytes then part_path b (last numbers + 1)
           else latest)"

definition file_nonempty :: "disk \<Rightarrow> path \<Rightarrow> bool" where
  "file_nonempty d p \<longleftrightarrow> path_exists d p \<and> st_size d p > 0"

definition append_rows :: "csv_write \<Rightarrow> path \<Rightarrow> row list \<Rightarrow> disk \<Rightarrow> disk" where
  "append_rows W target rows d = do_effect W (EAppend target (\<not> file_nonempty d target) rows) d"

definition write_rows_to_csv :: "csv_write \<Rightarrow> row list \<Rightarrow> base \<Rightarrow> nat \<Rightarrow> disk \<Rightarrow> disk" where
  "write_rows_to_csv W rows b max_part_bytes d =
     (if rows = [] then d
      else append_rows W (current_part_for_append d b max_part_bytes) rows d)"

section \<open>Part numbers and part paths\<close>

lemma digit_val_inj: "is_digit c \<Longrightarrow> is_digit c' \<Longrightarrow> digit_val c = digit_val c' \<Longrightarrow> c = c'"
proof -
  assume a: "is_digit c" "is_digit c'" "digit_val c = digit_val c'"
  then have "(of_char c :: nat) = of_char c'"
    unfolding is_digit_def digit_val_def by linarith
  then show "c = c'" by (simp only: of_char_eq_iff)
qed

lemma digit_val_less: "is_digit c \<Longrightarrow> digit_val c < 10"
  by (auto simp: is_digit_def digit_val_def)

lemma decimal_val_inj:
  "length s = length t \<Longrightarrow> list_all is_digit s \<Longrightarrow> list_all is_digit t \<Longrightarrow>
   decimal_val s = decimal_val t \<Longrightarrow> s = t"
proof (induction s arbitrary: t rule: rev_induct)
  case Nil
  then show ?case by simp
next
  case (snoc c s)
  then obtain t' c' where t: "t = t' @ [c']" by (cases t rule: rev_cases) auto
  with snoc.prems have d: "is_digit c" "is_digit c'" by auto
  from snoc.prems(4) t have e: "10 * decimal_val s + digit_val c = 10 * decimal_val t' + digit_val c'"
    by (simp add: decimal_val_snoc)
  with digit_val_less [OF d(1)] digit_val_less [OF d(2)]
  have "decimal_val s = decimal_val t'" "digit_val c = digit_val c'" by presburger+
  with snoc t d show ?case by (auto intro: digit_val_inj)
qed

lemma decimal_val_bound: "list_all is_digit s \<Longrightarrow> decimal_val s < 10 ^ length s"
proof (induction s rule: rev_induct)
  case Nil
  then show ?case by (simp add: decimal_val_def)
next
  case (snoc c s)
  then have "decimal_val s + 1 \<le> 10 ^ length s" "digit_val c < 10"
    by (auto simp: digit_val_less Suc_le_eq)
  then show ?case by (simp add: decimal_val_snoc)
qed

lemma pad6_digits: "list_all is_digit (pad6 n)"
proof -
  have "is_digit CHR ''0''" by (simp add: is_digit_def)
  then show ?thesis by (auto simp: pad6_def Let_def list_all_iff decimal_digits)
qed

lemma pad6_val [simp]: "decimal_val (pad6 n) = n"
  by (simp add: pad6_def Let_def decimal_val_zeros)

lemma length_pad6: "n < 1000000 \<Longrightarrow> length (pad6 n) = 6"
  using length_decimal_le [of n 6] by (simp add: pad6_def Let_def)

lemma pad6_inverse: "list_all is_digit ds \<Longrightarrow> length ds = 6 \<Longrightarrow> pad6 (decimal_val ds) = ds"
  using decimal_val_bound [of ds]
  by (intro decimal_val_inj) (auto simp: length_pad6 pad6_digits)

lemma match_part_path: "2 \<le> n \<Longrightarrow> n < 1000000 \<Longrightarrow> match_part b (part_path b n) = Some n"
  using length_pad6 [of "nat n"] pad6_digits [of "nat n"]
  by (simp add: match_part_def part_path_def Let_def)

lemma match_part_Some:
  assumes "match_part b p = Some n"
  shows "p = (b_dir b, b_stem b @ ''.'' @ pad6 (nat n) @ b_suffix b) \<and> 0 \<le> n \<and> n < 1000000"
proof -
  let ?pre = "b_stem b @ ''.''"
  let ?k = "length ?pre"
  let ?ds = "take 6 (drop ?k (snd p))"
  from assms have m: "fst p = b_dir b" "take ?k (snd p) = ?pre" "length ?ds = 6"
      "list_all is_digit ?ds" "drop (?k + 6) (snd p) = b_suffix b" "n = int (decimal_val ?ds)"
    by (auto simp: match_part_def Let_def split: if_splits)
  have "snd p = take ?k (snd p) @ ?ds @ drop (?k + 6) (snd p)"
    by (metis append_take_drop_id drop_drop add.commute)
  also have "\<dots> = ?pre @ pad6 (nat n) @ b_suffix b"
    using m pad6_inverse [of ?ds] by simp
  finally have "snd p = b_stem b @ ''.'' @ pad6 (nat n) @ b_suffix b" by simp
  moreover have "decimal_val ?ds < 10 ^ length ?ds"
    using m by (intro decimal_val_bound) simp
  then have "n < 1000000" using m by simp
  ultimately show ?thesis using m by (auto simp: prod_eq_iff)
qed

lemma part_path_of_match: "match_part b p = Some n \<Longrightarrow> 2 \<le> n \<Longrightarrow> p = part_path b n"
  by (auto dest!: match_part_Some simp: part_path_def)

lemma match_part_base: "match_part b (base_path b) = None"
proof (rule ccontr)
  assume "match_part b (base_path b) \<noteq> None"
  then obtain n where "match_part b (base_path b) = Some n" by blast
  then have "base_path b = (b_dir b, b_stem b @ ''.'' @ pad6 (nat n) @ b_suffix b)"
    by (rule match_part_Some [THEN conjunct1])
  then have "length (b_stem b @ b_suffix b) = length (b_stem b @ ''.'' @ pad6 (nat n) @ b_suffix b)"
    by (simp add: base_path_def)
  then show False by simp
qed

lemma path_exists_iff: "path_exists d p \<longleftrightarrow> p \<in> fst ` set (files d)"
  by (simp add: path_exists_def map_of_eq_None_iff)

lemma set_existing:
  "n \<in> set (existing_part_numbers d b) \<longleftrightarrow>
     (n = 1 \<and> path_exists d (base_path b)) \<or> (\<exists>p. path_exists d p \<and> match_part b p = Some n)"
  by (force simp: existing_part_numbers_def path_exists_iff map_filter_def)

lemma existing_ge_2:
  "2 \<le> n \<Longrightarrow> n < 1000000 \<Longrightarrow>
   n \<in> set (existing_part_numbers d b) \<longleftrightarrow> path_exists d (part_path b n)"
  by (auto simp del: split_paired_Ex simp: set_existing dest: part_path_of_match
      intro: match_part_path)

lemma existing_range: "n \<in> set (existing_part_numbers d b) \<Longrightarrow> 0 \<le> n \<and> n < 1000000"
  by (auto simp: set_existing dest: match_part_Some)

lemma sorted_existing: "sorted (existing_part_numbers d b)"
  by (simp add: existing_part_numbers_def)

lemma sorted_le_last: "sorted xs \<Longrightarrow> x \<in> set xs \<Longrightarrow> x \<le> last xs"
  by (induction xs) auto

lemma existing_le_last: "n \<in> set (existing_part_numbers d b) \<Longrightarrow> n \<le> last (existing_part_numbers d b)"
  by (rule sorted_le_last [OF sorted_existing])

lemma part_path_eq_iff:
  assumes r: "1 \<le> m" "m < 1000000" "1 \<le> n" "n < 1000000"
  shows "part_path b m = part_path b n \<longleftrightarrow> m = n"
proof
  assume e: "part_path b m = part_path b n"
  have p: "match_part b (part_path b k) = (if k = 1 then None else Some k)"
    if "1 \<le> k" "k < 1000000" for k
    using that match_part_path [of k b] match_part_base [of b] by (simp add: part_path_def)
  have "(if m = 1 then None else Some m) = match_part b (part_path b m)"
    using p [of m] r by presburger
  also have "\<dots> = (if n = 1 then None else Some n)"
    using p [of n] r e by presburger
  finally show "m = n" by (simp split: if_splits)
next
  assume "m = n"
  then show "part_path b m = part_path b n" by (rule arg_cong)
qed

lemma max_default_Max: "xs \<noteq> [] \<Longrightarrow> max_default z xs = Max (set xs)"
  using Max.set_eq_fold [of "hd xs" xs]
  by (cases xs) (simp_all add: max_default_def)

lemma max_default_in: "xs \<noteq> [] \<Longrightarrow> max_default z xs \<in> set xs"
  by (simp add: max_default_Max)

lemma max_default_ge: "x \<in> set xs \<Longrightarrow> x \<le> max_default z xs"
  by (subst max_default_Max) auto

section \<open>What the code relies on polars for\<close>

text \<open>
  A CSV file this application wrote is one chunk with a header and then chunks without one.
  \<open>csv_law\<close> states the documented behaviour of polars the code relies on: a file of that form
  whose rows have the same columns, of one type per column that survives type inference, is
  read back as the rows written, except that an empty string may come back as null.
\<close>

inductive csv_text :: "csv_write \<Rightarrow> string \<Rightarrow> row list \<Rightarrow> bool" for W where
  first_chunk: "rs \<noteq> [] \<Longrightarrow> csv_text W (W True rs) rs"
| next_chunk: "csv_text W c rs0 \<Longrightarrow> rs \<noteq> [] \<Longrightarrow> csv_text W (c @ W False rs) (rs0 @ rs)"

fun cell_kind :: "cell \<Rightarrow> nat" where
  "cell_kind CNull = 0"
| "cell_kind (CBool b) = 1"
| "cell_kind (CInt n) = 2"
| "cell_kind (CFloat q) = 3"
| "cell_kind (CStr s) = 4"

text \<open>A hexadecimal hash with a digit and a letter is not mistaken for a number.\<close>

fun inferable :: "cell \<Rightarrow> bool" where
  "inferable (CStr s) \<longleftrightarrow>
     s = '''' \<or> (list_all (\<lambda>c. c \<in> set ''0123456789abcdef'') s \<and>
               list_ex (\<lambda>c. c \<in> set ''0123456789'') s \<and> list_ex (\<lambda>c. c \<in> set ''abcdf'') s)"
| "inferable (CInt n) \<longleftrightarrow> \<bar>n\<bar> < 2 ^ 63"
| "inferable (CBool b) \<longleftrightarrow> True"
| "inferable _ \<longleftrightarrow> False"

definition clean_rows :: "row list \<Rightarrow> bool" where
  "clean_rows rs \<longleftrightarrow>
     (\<forall>r \<in> set rs. list_all (inferable \<circ> snd) r) \<and>
     (\<forall>r \<in> set rs. \<forall>r' \<in> set rs. map fst r = map fst r' \<and> map (cell_kind \<circ> snd) r = map (cell_kind \<circ> snd) r')"

definition cell_sim :: "cell \<Rightarrow> cell \<Rightarrow> bool" where
  "cell_sim c c' \<longleftrightarrow> c' = c \<or> c = CStr '''' \<and> c' = CNull"

definition row_sim :: "row \<Rightarrow> row \<Rightarrow> bool" where
  "row_sim r r' \<longleftrightarrow> list_all2 (\<lambda>p q. fst q = fst p \<and> cell_sim (snd p) (snd q)) r r'"

definition nonempty_writes :: "csv_write \<Rightarrow> bool" where
  "nonempty_writes W \<longleftrightarrow> (\<forall>h rs. rs \<noteq> [] \<longrightarrow> W h rs \<noteq> [])"

definition csv_law :: "csv_write \<Rightarrow> csv_read \<Rightarrow> bool" where
  "csv_law W R \<longleftrightarrow>
     (\<forall>c rs. csv_text W c rs \<longrightarrow> clean_rows rs \<longrightarrow> (\<exists>rs'. R c = Some rs' \<and> list_all2 row_sim rs rs')) \<and>
     nonempty_writes W"

lemma csv_lawD:
  "csv_law W R \<Longrightarrow> csv_text W c rs \<Longrightarrow> clean_rows rs \<Longrightarrow>
   \<exists>rs'. R c = Some rs' \<and> list_all2 row_sim rs rs'"
  by (simp add: csv_law_def)

lemma nonempty_writesD: "nonempty_writes W \<Longrightarrow> rs \<noteq> [] \<Longrightarrow> W h rs \<noteq> []"
  by (simp add: nonempty_writes_def)

lemma csv_law_writes: "csv_law W R \<Longrightarrow> nonempty_writes W"
  by (simp add: csv_law_def)

lemma csv_law_nonempty: "csv_law W R \<Longrightarrow> rs \<noteq> [] \<Longrightarrow> W h rs \<noteq> []"
  by (simp add: csv_law_def nonempty_writesD)

lemma csv_text_nonempty: "csv_text W c rs \<Longrightarrow> csv_law W R \<Longrightarrow> c \<noteq> []"
  by (induction rule: csv_text.induct) (simp_all add: csv_law_nonempty)

lemma clean_rows_append: "clean_rows (xs @ ys) \<Longrightarrow> clean_rows xs \<and> clean_rows ys"
  by (auto simp: clean_rows_def)

lemma row_sim_Cons:
  "row_sim ((k, c) # r) r' \<longleftrightarrow> (\<exists>c' r''. r' = (k, c') # r'' \<and> cell_sim c c' \<and> row_sim r r'')"
  by (cases r') (auto simp: row_sim_def)

lemma row_sim_Nil [simp]: "row_sim [] r' \<longleftrightarrow> r' = []"
  by (simp add: row_sim_def)

lemma row_sim_refl: "row_sim r r"
  by (simp add: row_sim_def cell_sim_def list_all2_refl)

lemma cell_sim_Int [simp]: "cell_sim (CInt n) c \<longleftrightarrow> c = CInt n"
  by (auto simp: cell_sim_def)

lemma cell_sim_Bool [simp]: "cell_sim (CBool b) c \<longleftrightarrow> c = CBool b"
  by (auto simp: cell_sim_def)

lemma cell_sim_Str: "s \<noteq> '''' \<Longrightarrow> cell_sim (CStr s) c \<longleftrightarrow> c = CStr s"
  by (auto simp: cell_sim_def)

subsection \<open>A format for which the law holds\<close>

text \<open>
  Used by the witnesses: a header naming the columns, then a row per line, numbered by an
  enumeration of all rows. (Appending to it keeps the header of the first chunk.)
\<close>

instance cell :: countable
  by countable_datatype

definition newline :: char where
  "newline = char_of (10 :: nat)"

definition sample_write :: csv_write where
  "sample_write h rs =
     (if h then CHR ''h'' # filter (\<lambda>c. \<not> line_break c) (concat (map fst (concat (take 1 rs)))) @ [newline] else []) @ concat (map (\<lambda>r. decimal (to_nat r) @ [newline]) rs)"

definition sample_read :: csv_read where
  "sample_read c = Some (map (from_nat \<circ> decimal_val) (tl (splitlines c)))"

lemma digit_not_break: "is_digit c \<Longrightarrow> \<not> line_break c"
  by (auto simp: is_digit_def line_break_def)

lemma split_lines_digits:
  "list_all is_digit s \<Longrightarrow> split_lines_from cur (s @ newline # t) = (rev cur @ s) # split_lines_from [] t"
proof (induction s arbitrary: cur)
  case Nil
  then show ?case by (simp add: line_break_def newline_def of_char_of)
next
  case (Cons c s)
  then show ?case by (simp add: digit_not_break)
qed

lemma split_lines_rows:
  "split_lines_from [] (concat (map (\<lambda>r. decimal (to_nat r) @ [newline]) (rs :: row list))) =
   map (\<lambda>r. decimal (to_nat r)) rs"
proof (induction rs)
  case Nil
  then show ?case by simp
next
  case (Cons r rs)
  have "list_all is_digit (decimal (to_nat r))" by (simp add: list_all_iff decimal_digits)
  with Cons show ?case using split_lines_digits [of "decimal (to_nat r)" "[]"] by simp
qed

lemma sample_text:
  "csv_text sample_write c rs \<Longrightarrow> rs \<noteq> [] \<and> c = sample_write True rs"
proof (induction rule: csv_text.induct)
  case (first_chunk rs)
  then show ?case by simp
next
  case (next_chunk c rs0 rs)
  then have "take 1 (rs0 @ rs) = take 1 rs0" by (cases rs0) auto
  with next_chunk show ?case unfolding sample_write_def by simp
qed

lemma split_lines_header:
  "list_all (\<lambda>c. \<not> line_break c) s \<Longrightarrow> split_lines_from cur (s @ newline # t) = (rev cur @ s) # split_lines_from [] t"
proof (induction s arbitrary: cur)
  case Nil
  then show ?case by (simp add: line_break_def newline_def of_char_of)
next
  case (Cons c s)
  then show ?case by simp
qed

lemma sample_read_write: "sample_read (sample_write True rs) = Some rs"
proof -
  let ?h = "CHR ''h'' # filter (\<lambda>c. \<not> line_break c) (concat (map fst (concat (take 1 rs))))"
  have "list_all (\<lambda>c. \<not> line_break c) ?h" by (simp add: line_break_def list_all_iff)
  from split_lines_header [OF this, of "[]"]
  have "splitlines (sample_write True rs) = ?h # map (\<lambda>r. decimal (to_nat r)) rs"
    by (simp add: splitlines_def sample_write_def split_lines_rows)
  then show ?thesis by (simp add: sample_read_def o_def)
qed

lemma sample_csv_law: "csv_law sample_write sample_read"
  unfolding csv_law_def nonempty_writes_def
proof (intro conjI allI impI)
  fix c rs assume "csv_text sample_write c rs"
  then have "sample_read c = Some rs" using sample_text sample_read_write by blast
  then show "\<exists>rs'. sample_read c = Some rs' \<and> list_all2 row_sim rs rs'"
    by (auto intro: list_all2_refl row_sim_refl)
next
  fix h and rs :: "row list" assume "rs \<noteq> []"
  then show "sample_write h rs \<noteq> []" by (cases rs) (auto simp: sample_write_def)
qed

section \<open>Appending rows\<close>

lemma contents_update [simp]:
  "contents (AList.update p c fs) q = (if q = p then c else contents fs q)"
  by (simp add: contents_def)

lemma contents_missing: "\<not> path_exists d p \<Longrightarrow> contents (files d) p = ''''"
  by (simp add: contents_def path_exists_def)

lemma files_append_rows:
  "files (append_rows W t rows d) =
     AList.update t (contents (files d) t @ W (\<not> file_nonempty d t) rows) (files d)"
  by (simp add: append_rows_def)

lemma path_exists_append_rows: "path_exists (append_rows W t rows d) p \<longleftrightarrow> p = t \<or> path_exists d p"
  by (auto simp: path_exists_def files_append_rows)

lemma existing_keys:
  "existing_part_numbers d b =
     sort ((if base_path b \<in> set (map fst (files d)) then [1] else [])
           @ List.map_filter (match_part b) (map fst (files d)))"
  by (simp add: existing_part_numbers_def path_exists_iff map_filter_def o_def filter_map)

lemma keys_update:
  "map fst (AList.update k v al) = (if k \<in> set (map fst al) then map fst al else map fst al @ [k])"
  by (induction al) (auto simp: split_paired_all)

lemma sort_snoc_max: "\<forall>x \<in> set xs. x \<le> n \<Longrightarrow> sort (xs @ [n]) = sort xs @ [n]"
  by (rule properties_for_sort) (auto simp: sorted_append)

lemma existing_same_keys: "path_exists d t \<Longrightarrow> existing_part_numbers (append_rows W t rows d) b = existing_part_numbers d b"
  by (simp add: existing_keys files_append_rows keys_update path_exists_iff)

lemma existing_new_key:
  assumes "\<not> path_exists d t" "match_part b t = Some n" "\<forall>x \<in> set (existing_part_numbers d b). x \<le> n"
  shows "existing_part_numbers (append_rows W t rows d) b = existing_part_numbers d b @ [n]"
proof -
  let ?xs = "(if base_path b \<in> set (map fst (files d)) then [1] else [])
             @ List.map_filter (match_part b) (map fst (files d))"
  from assms(2) have "t \<noteq> base_path b" using match_part_base [of b] by auto
  with assms have "existing_part_numbers (append_rows W t rows d) b = sort (?xs @ [n])"
    by (simp add: existing_keys files_append_rows keys_update path_exists_iff map_filter_def)
  also have "\<dots> = sort ?xs @ [n]"
    using assms(3) by (intro sort_snoc_max) (simp add: existing_keys)
  finally show ?thesis by (simp add: existing_keys)
qed

lemma existing_new_base:
  assumes "existing_part_numbers d b = []"
  shows "existing_part_numbers (append_rows W (base_path b) rows d) b = [1]"
proof -
  from assms have "base_path b \<notin> set (map fst (files d))"
      "List.map_filter (match_part b) (map fst (files d)) = []"
    by (auto simp: existing_keys split: if_splits dest: arg_cong [where f = length])
  then show ?thesis
    by (simp add: existing_keys files_append_rows keys_update map_filter_def match_part_base)
qed

text \<open>The target of an append: no part yet, the newest part, or the part after it.\<close>

lemma append_target_cases:
  obtains (fresh) "existing_part_numbers d b = []" "current_part_for_append d b m = base_path b"
  | (newest) n where "existing_part_numbers d b \<noteq> []" "n = last (existing_part_numbers d b)"
      "st_size d (part_path b n) < m" "current_part_for_append d b m = part_path b n"
  | (rotated) n where "existing_part_numbers d b \<noteq> []" "n = last (existing_part_numbers d b)"
      "m \<le> st_size d (part_path b n)" "current_part_for_append d b m = part_path b (n + 1)"
  by (cases "existing_part_numbers d b = []";
      cases "m \<le> st_size d (part_path b (last (existing_part_numbers d b)))")
    (auto simp: current_part_for_append_def Let_def)

definition parts_in_range :: "disk \<Rightarrow> base \<Rightarrow> bool" where
  "parts_in_range d b \<longleftrightarrow> (\<forall>n \<in> set (existing_part_numbers d b). 1 \<le> n \<and> n < 999999)"

lemma next_part_fresh:
  assumes "parts_in_range d b" "existing_part_numbers d b \<noteq> []" "n = last (existing_part_numbers d b)"
  shows "\<not> path_exists d (part_path b (n + 1))" and "match_part b (part_path b (n + 1)) = Some (n + 1)"
proof -
  from assms have n: "1 \<le> n" "n < 999999" by (auto simp: parts_in_range_def)
  then show "match_part b (part_path b (n + 1)) = Some (n + 1)" by (intro match_part_path) auto
  have "n + 1 \<notin> set (existing_part_numbers d b)" using existing_le_last [of "n + 1" d b] assms by auto
  with n show "\<not> path_exists d (part_path b (n + 1))" by (simp add: existing_ge_2)
qed

lemma fresh_base: "existing_part_numbers d b = [] \<Longrightarrow> \<not> path_exists d (base_path b)"
  using set_existing [of 1 d b] by auto

text \<open>
  The rows of the parts of a logical CSV: each part is either empty or a text of that form.
\<close>

definition part_rows :: "csv_write \<Rightarrow> disk \<Rightarrow> path \<Rightarrow> row list \<Rightarrow> bool" where
  "part_rows W d p rs \<longleftrightarrow>
     (contents (files d) p = '''' \<and> rs = []) \<or> (contents (files d) p \<noteq> '''' \<and> csv_text W (contents (files d) p) rs)"

definition logical_csv :: "csv_write \<Rightarrow> disk \<Rightarrow> base \<Rightarrow> row list list \<Rightarrow> bool" where
  "logical_csv W d b rss \<longleftrightarrow> list_all2 (part_rows W d) (all_parts d b) rss"

lemma part_rows_append:
  assumes "nonempty_writes W" "part_rows W d t rs" "rows \<noteq> []"
  shows "part_rows W (append_rows W t rows d) t (rs @ rows)"
proof (cases "file_nonempty d t")
  case True
  then have "contents (files d) t \<noteq> ''''" by (simp add: file_nonempty_def st_size_def)
  with assms True show ?thesis
    by (auto simp: part_rows_def files_append_rows intro: csv_text.next_chunk)
next
  case False
  then have "contents (files d) t = ''''"
    by (auto simp: file_nonempty_def st_size_def contents_missing)
  with assms False show ?thesis
    by (auto simp: part_rows_def files_append_rows nonempty_writesD intro: csv_text.first_chunk)
qed

lemma part_rows_other: "p \<noteq> t \<Longrightarrow> part_rows W (append_rows W t rows d) p rs = part_rows W d p rs"
  by (simp add: part_rows_def files_append_rows)

lemma part_rows_frame:
  "t \<notin> set ps \<Longrightarrow> list_all2 (part_rows W (append_rows W t rows d)) ps rss = list_all2 (part_rows W d) ps rss"
proof (induction ps arbitrary: rss)
  case Nil
  then show ?case by simp
next
  case (Cons p ps)
  then show ?case by (cases rss) (auto simp: part_rows_other)
qed

lemma read_parts_rows:
  "csv_law W R \<Longrightarrow> list_all2 (part_rows W d) ps rss \<Longrightarrow> clean_rows (concat rss) \<Longrightarrow>
   \<exists>rs'. read_parts R d ps = Inr rs' \<and> list_all2 row_sim (concat rss) rs'"
proof (induction ps arbitrary: rss)
  case Nil
  then show ?case by simp
next
  case (Cons p ps)
  then obtain rs rss' where rss: "rss = rs # rss'" "part_rows W d p rs" "list_all2 (part_rows W d) ps rss'"
    by (auto simp: list_all2_Cons1)
  with Cons.prems have cl: "clean_rows rs" "clean_rows (concat rss')"
    using clean_rows_append [of rs "concat rss'"] by simp_all
  from Cons.IH [OF Cons.prems(1) rss(3) cl(2)] obtain g
    where g: "read_parts R d ps = Inr g" "list_all2 row_sim (concat rss') g" by blast
  show ?case
  proof (cases "contents (files d) p = ''''")
    case True
    with rss g show ?thesis by (auto simp: part_rows_def st_size_def)
  next
    case False
    with rss csv_lawD [OF Cons.prems(1) _ cl(1)] obtain f
      where f: "R (contents (files d) p) = Some f" "list_all2 row_sim rs f"
      by (auto simp: part_rows_def)
    from f(1) False g(1) have "read_parts R d (p # ps) = Inr (f @ g)"
      by (simp add: st_size_def read_csv_lenient_def)
    moreover have "list_all2 row_sim (concat rss) (f @ g)"
      using f(2) g(2) rss(1) by (simp add: list_all2_appendI)
    ultimately show ?thesis by blast
  qed
qed

lemma part_path_inj_on:
  "parts_in_range d b \<Longrightarrow> inj_on (part_path b) (set (existing_part_numbers d b))"
proof (rule inj_onI)
  fix x y
  assume "parts_in_range d b" "x \<in> set (existing_part_numbers d b)" "y \<in> set (existing_part_numbers d b)"
    and e: "part_path b x = part_path b y"
  then have "1 \<le> x" "x < 999999" "1 \<le> y" "y < 999999" by (auto simp: parts_in_range_def)
  with e part_path_eq_iff [of x y b] show "x = y" by simp
qed

lemma existing_part_exists:
  "parts_in_range d b \<Longrightarrow> distinct (existing_part_numbers d b) \<Longrightarrow>
   n \<in> set (existing_part_numbers d b) \<Longrightarrow> n \<noteq> 1 \<Longrightarrow> path_exists d (part_path b n)"
proof -
  assume "parts_in_range d b" "n \<in> set (existing_part_numbers d b)" "n \<noteq> 1"
  moreover from this have "2 \<le> n" "n < 1000000" by (auto simp: parts_in_range_def)
  ultimately show "path_exists d (part_path b n)" by (simp add: existing_ge_2)
qed

lemma logical_append_new:
  assumes law: "nonempty_writes W" and lg: "logical_csv W d b rss" and rows: "rows \<noteq> []"
    and ex: "existing_part_numbers (append_rows W t rows d) b = existing_part_numbers d b @ [n]"
    and t: "t = part_path b n" "\<not> path_exists d t" "t \<notin> set (all_parts d b)"
  shows "logical_csv W (append_rows W t rows d) b (rss @ [rows])"
proof -
  have "list_all2 (part_rows W (append_rows W t rows d)) (all_parts d b) rss"
    using lg t(3) by (simp add: logical_csv_def part_rows_frame)
  moreover have "part_rows W d t []" using t(2) by (simp add: part_rows_def contents_missing)
  then have "part_rows W (append_rows W t rows d) t rows"
    using part_rows_append [OF law _ rows, of d t "[]"] by simp
  ultimately show ?thesis
    using ex t(1) unfolding logical_csv_def all_parts_def by (simp add: list_all2_appendI)
qed

lemma logical_append_same:
  assumes law: "nonempty_writes W" and lg: "logical_csv W d b rss" and rows: "rows \<noteq> []"
    and ex: "existing_part_numbers (append_rows W t rows d) b = existing_part_numbers d b"
    and t: "all_parts d b = ps @ [t]" "t \<notin> set ps"
  shows "logical_csv W (append_rows W t rows d) b (butlast rss @ [last rss @ rows])"
proof -
  from lg t(1) obtain rss0 rs where rss: "rss = rss0 @ [rs]" "list_all2 (part_rows W d) ps rss0" "part_rows W d t rs"
    by (auto simp: logical_csv_def list_all2_append1 list_all2_Cons1)
  have "list_all2 (part_rows W (append_rows W t rows d)) ps rss0"
    using rss(2) t(2) by (simp add: part_rows_frame)
  moreover have "all_parts (append_rows W t rows d) b = ps @ [t]"
    using t(1) by (simp add: all_parts_def ex)
  ultimately show ?thesis
    using part_rows_append [OF law rss(3) rows] rss(1) by (simp add: logical_csv_def list_all2_appendI)
qed

text \<open>The part numbers of a logical CSV that this application wrote.\<close>

definition sound_parts :: "disk \<Rightarrow> base \<Rightarrow> bool" where
  "sound_parts d b \<longleftrightarrow>
     parts_in_range d b \<and> distinct (existing_part_numbers d b) \<and>
     (1 \<in> set (existing_part_numbers d b) \<longrightarrow> path_exists d (base_path b))"

lemma sound_parts_exist: "sound_parts d b \<Longrightarrow> n \<in> set (existing_part_numbers d b) \<Longrightarrow> path_exists d (part_path b n)"
  using existing_part_exists [of d b n] by (cases "n = 1") (auto simp: sound_parts_def part_path_def)

text \<open>The number of a fresh part: 1, or one above the highest.\<close>

definition next_number :: "disk \<Rightarrow> base \<Rightarrow> int" where
  "next_number d b = (let ns = existing_part_numbers d b in if ns = [] then 1 else last ns + 1)"

lemma append_next:
  assumes law: "nonempty_writes W" and lg: "logical_csv W d b rss" and rows: "rows \<noteq> []" and so: "sound_parts d b"
  shows "\<not> path_exists d (part_path b (next_number d b))"
    and "existing_part_numbers (append_rows W (part_path b (next_number d b)) rows d) b
         = existing_part_numbers d b @ [next_number d b]"
    and "logical_csv W (append_rows W (part_path b (next_number d b)) rows d) b (rss @ [rows])"
proof -
  let ?ns = "existing_part_numbers d b" and ?n = "next_number d b"
  let ?t = "part_path b ?n"
  have "\<not> path_exists d ?t \<and> existing_part_numbers (append_rows W ?t rows d) b = ?ns @ [?n]
    \<and> ?t \<notin> set (all_parts d b)"
  proof (cases "?ns = []")
    case True
    then show ?thesis using existing_new_base [OF True, of W rows] fresh_base [OF True]
      by (simp add: next_number_def part_path_def all_parts_def)
  next
    case False
    then have n: "?n = last ?ns + 1" by (simp add: next_number_def Let_def)
    have rg: "parts_in_range d b" using so by (simp add: sound_parts_def)
    then have r: "1 \<le> last ?ns" "last ?ns < 999999" using False by (auto simp: parts_in_range_def)
    note f = next_part_fresh [OF rg False refl]
    have "\<forall>x \<in> set ?ns. x \<le> ?n" using existing_le_last [of _ d b] n by fastforce
    note ex = existing_new_key [OF f(1) f(2), of W rows]
    have "?t \<notin> set (all_parts d b)"
    proof
      assume "?t \<in> set (all_parts d b)"
      then obtain k where k: "k \<in> set ?ns" "part_path b ?n = part_path b k" by (auto simp: all_parts_def)
      with rg have "1 \<le> k" "k < 999999" by (auto simp: parts_in_range_def)
      with k r n have "k = ?n" using part_path_eq_iff [of ?n k b] by auto
      with k existing_le_last [of k d b] n show False by simp
    qed
    with f ex n \<open>\<forall>x \<in> set ?ns. x \<le> ?n\<close> show ?thesis by simp
  qed
  then have "\<not> path_exists d ?t" "?t \<notin> set (all_parts d b)"
    and e: "existing_part_numbers (append_rows W ?t rows d) b = ?ns @ [?n]" by simp_all
  with logical_append_new [OF law lg rows e refl] show "\<not> path_exists d ?t"
    "existing_part_numbers (append_rows W ?t rows d) b = ?ns @ [?n]"
    "logical_csv W (append_rows W ?t rows d) b (rss @ [rows])" by simp_all
qed

lemma append_last:
  assumes law: "nonempty_writes W" and lg: "logical_csv W d b rss" and rows: "rows \<noteq> []" and so: "sound_parts d b"
    and ne: "existing_part_numbers d b \<noteq> []" and n: "n = last (existing_part_numbers d b)"
  shows "existing_part_numbers (append_rows W (part_path b n) rows d) b = existing_part_numbers d b"
    and "logical_csv W (append_rows W (part_path b n) rows d) b (butlast rss @ [last rss @ rows])"
    and "rss \<noteq> []" and "part_rows W d (part_path b n) (last rss)"
proof -
  let ?ns = "existing_part_numbers d b" and ?t = "part_path b n"
  have sp: "?ns = butlast ?ns @ [n]" using n ne by simp
  have "n \<in> set ?ns" using n ne by simp
  then have e: "path_exists d ?t" using sound_parts_exist [OF so] by simp
  have "inj_on (part_path b) (set ?ns)" "distinct ?ns"
    using so part_path_inj_on by (auto simp: sound_parts_def)
  then have "part_path b n \<notin> part_path b ` set (butlast ?ns)"
    using \<open>n \<in> set ?ns\<close> sp
    by (metis distinct_butlast inj_on_image_mem_iff in_set_butlastD not_distinct_conv_prefix subsetI)
  moreover have ap: "all_parts d b = map (part_path b) (butlast ?ns) @ [?t]"
    using sp by (metis all_parts_def list.map(1) list.map(2) map_append)
  ultimately show "logical_csv W (append_rows W ?t rows d) b (butlast rss @ [last rss @ rows])"
    using logical_append_same [OF law lg rows existing_same_keys [OF e]] by simp
  show "existing_part_numbers (append_rows W ?t rows d) b = ?ns" by (rule existing_same_keys [OF e])
  from lg ap show "rss \<noteq> []" "part_rows W d ?t (last rss)"
    by (auto simp: logical_csv_def list_all2_append1 list_all2_Cons1)
qed

lemma logical_write_rows:
  assumes law: "nonempty_writes W" and lg: "logical_csv W d b rss" and so: "sound_parts d b"
  shows "\<exists>rss'. logical_csv W (write_rows_to_csv W rows b m d) b rss' \<and> concat rss' = concat rss @ rows"
proof (cases "rows = []")
  case True
  with lg show ?thesis by (auto simp: write_rows_to_csv_def)
next
  case rows: False
  let ?t = "current_part_for_append d b m"
  have w: "write_rows_to_csv W rows b m d = append_rows W ?t rows d"
    using rows by (simp add: write_rows_to_csv_def)
  have "?t = part_path b (next_number d b) \<or>
      (existing_part_numbers d b \<noteq> [] \<and> ?t = part_path b (last (existing_part_numbers d b)))"
    by (auto simp: current_part_for_append_def next_number_def part_path_def Let_def)
  then show ?thesis
  proof
    assume "?t = part_path b (next_number d b)"
    with w append_next(3) [OF law lg rows so] show ?thesis by (intro exI [of _ "rss @ [rows]"]) simp
  next
    assume t: "existing_part_numbers d b \<noteq> [] \<and> ?t = part_path b (last (existing_part_numbers d b))"
    note l = append_last [OF law lg rows so t [THEN conjunct1] refl]
    have "concat (butlast rss @ [last rss @ rows]) = concat (butlast rss @ [last rss]) @ rows" by simp
    then have "concat (butlast rss @ [last rss @ rows]) = concat rss @ rows" using l(3) by simp
    with l(2) w t show ?thesis by (intro exI [of _ "butlast rss @ [last rss @ rows]"]) simp
  qed
qed

section \<open>Properties\<close>

text \<open>
  Scanning a directory finds exactly the parts on disk: for a part number from 2 up to the
  six digits of the format, \<open>existing_part_numbers\<close> lists it if and only if \<open>part_path\<close> of that
  number exists, and the list is in ascending order.
\<close>

theorem scan_finds_parts:
  assumes "2 \<le> n" "n \<le> 999999"
  shows "(n \<in> set (existing_part_numbers d b) \<longleftrightarrow> path_exists d (part_path b n))
         \<and> sorted (existing_part_numbers d b)"
  using assms existing_ge_2 [of n d b] by (simp add: sorted_existing)

definition sample_base :: base where
  "sample_base = \<lparr>b_dir = ''out'', b_stem = ''blocks'', b_suffix = ''.csv''\<rparr>"

definition sample_disk :: disk where
  "sample_disk = \<lparr>files = [((''out'', ''blocks.000002.csv''), ''x'')], log = []\<rparr>"

theorem scan_finds_parts_witness:
  "2 \<in> set (existing_part_numbers sample_disk sample_base)
   \<and> path_exists sample_disk (part_path sample_base 2)"
proof -
  have p: "part_path sample_base 2 = (''out'', ''blocks.000002.csv'')"
    by code_simp
  then have "path_exists sample_disk (part_path sample_base 2)"
    by (simp add: path_exists_def sample_disk_def)
  with scan_finds_parts [of 2 sample_disk sample_base] show ?thesis by simp
qed

text \<open>
  Rotation bounds every part: \<open>write_rows_to_csv\<close> only ever appends to a part that is
  still below the cap, whatever is on disk, so a part overshoots the cap by at most one batch.
\<close>

theorem append_below_cap:
  assumes "parts_in_range d b" "0 < m"
  shows "st_size d (current_part_for_append d b m) < m"
proof (cases rule: append_target_cases [of d b m, case_names fresh newest rotated])
  case fresh
  with assms fresh_base show ?thesis by (simp add: st_size_def contents_missing)
next
  case (newest n)
  then show ?thesis by simp
next
  case (rotated n)
  with assms next_part_fresh(1) [OF assms(1) rotated(1,2)] show ?thesis
    by (simp add: st_size_def contents_missing)
qed

theorem append_below_cap_witness:
  "st_size sample_disk (current_part_for_append sample_disk sample_base 1) < 1"
proof (rule append_below_cap)
  have "existing_part_numbers sample_disk sample_base = [2]"
    by (simp add: existing_part_numbers_def sample_disk_def sample_base_def base_path_def
        path_exists_def map_filter_def match_part_def is_digit_def decimal_val_def digit_val_def)
  then show "parts_in_range sample_disk sample_base" by (simp add: parts_in_range_def)
qed simp


definition empty_disk :: disk where
  "empty_disk = \<lparr>files = [], log = []\<rparr>"

lemma existing_empty_disk [simp]: "existing_part_numbers empty_disk b = []"
  by (simp add: existing_part_numbers_def empty_disk_def path_exists_def map_filter_def)


end
