(* ===== verification/Part_Writer.thy ===== *)
theory Part_Writer
  imports Csv_Files
begin

text \<open>
  btc_parser_app/rpc/part_writer.py: the numbered parts of one exported CSV, the counter file
  that survives restarts, and the handoff of a finished part from the state directory to the
  export directory. A method of \<open>PartSequencer\<close> is a function of the object and the disk.
\<close>

section \<open>The sequencer\<close>

record part_seq =
  state_base :: base
  export_base :: base
  seq_path :: path
  max_part_bytes :: nat
  current_part :: int
  part_is_open :: bool

definition state_row :: "int \<Rightarrow> bool \<Rightarrow> row" where
  "state_row part is_open = [(''current_part'', CInt part), (''part_is_open'', CBool is_open)]"

definition read_state :: "csv_read \<Rightarrow> disk \<Rightarrow> path \<Rightarrow> exn + (int \<times> bool) option" where
  "read_state R d p =
     bindE (read_single_row_csv R d p) (\<lambda>r.
       (case r of None \<Rightarrow> Inr None
        | Some r \<Rightarrow>
            bindE (row_get r ''current_part'') (\<lambda>c. bindE (py_int c) (\<lambda>part.
            bindE (row_get r ''part_is_open'') (\<lambda>flag. Inr (Some (part, py_bool flag)))))))"

definition write_state :: "csv_write \<Rightarrow> path \<Rightarrow> int \<Rightarrow> bool \<Rightarrow> disk \<Rightarrow> disk" where
  "write_state W p part is_open d = write_single_row_csv W p (state_row part is_open) d"

text \<open>\<open>__init__\<close>: the counter file, or else what is on disk.\<close>

definition initial_state :: "disk \<Rightarrow> base \<Rightarrow> base \<Rightarrow> int \<times> bool" where
  "initial_state d sb eb =
     (let state_highest = max_default 0 (existing_part_numbers d sb) in
      if state_highest \<noteq> 0 then (state_highest, True)
      else let export_highest = max_default 0 (existing_part_numbers d eb) in
           if export_highest \<noteq> 0 then (export_highest, False) else (0, False))"

definition seq_init :: "csv_read \<Rightarrow> base \<Rightarrow> base \<Rightarrow> path \<Rightarrow> nat \<Rightarrow> disk \<Rightarrow> exn + part_seq" where
  "seq_init R sb eb sp m d =
     bindE (read_state R d sp) (\<lambda>st.
       let (part, is_open) = (case st of Some st \<Rightarrow> st | None \<Rightarrow> initial_state d sb eb) in
       Inr \<lparr>state_base = sb, export_base = eb, seq_path = sp, max_part_bytes = m,
            current_part = part, part_is_open = is_open\<rparr>)"

definition persist :: "csv_write \<Rightarrow> part_seq \<Rightarrow> disk \<Rightarrow> disk" where
  "persist W s d = write_state W (seq_path s) (current_part s) (part_is_open s) d"

definition close_if_open :: "csv_write \<Rightarrow> part_seq \<times> disk \<Rightarrow> part_seq \<times> disk" where
  "close_if_open W sd =
     (case sd of (s, d) \<Rightarrow>
        if \<not> part_is_open s then (s, d)
        else
          let src = part_path (state_base s) (current_part s);
              d1 = (if path_exists d src
                    then do_effect W (ERename src (part_path (export_base s) (current_part s))) d
                    else d);
              s1 = s\<lparr>part_is_open := False\<rparr>
          in (s1, persist W s1 d1))"

definition needs_new_part :: "part_seq \<Rightarrow> disk \<Rightarrow> bool" where
  "needs_new_part s d \<longleftrightarrow>
     (let target = part_path (state_base s) (current_part s) in
      \<not> part_is_open s \<or> (path_exists d target \<and> st_size d target \<ge> max_part_bytes s))"

definition open_next_part :: "csv_write \<Rightarrow> part_seq \<times> disk \<Rightarrow> part_seq \<times> disk" where
  "open_next_part W sd =
     (case close_if_open W sd of (s, d) \<Rightarrow>
        (s\<lparr>current_part := current_part s + 1, part_is_open := True\<rparr>, d))"

definition write_batched :: "csv_write \<Rightarrow> row list \<Rightarrow> part_seq \<times> disk \<Rightarrow> part_seq \<times> disk" where
  "write_batched W rows sd =
     (if rows = [] then sd
      else
        case (if needs_new_part (fst sd) (snd sd) then open_next_part W sd else sd) of (s, d) \<Rightarrow>
          (s, persist W s (append_rows W (part_path (state_base s) (current_part s)) rows d)))"

definition write_atomic :: "csv_write \<Rightarrow> row list \<Rightarrow> part_seq \<times> disk \<Rightarrow> part_seq \<times> disk" where
  "write_atomic W rows sd =
     (if rows = [] then sd
      else
        case close_if_open W sd of (s0, d0) \<Rightarrow>
          let s = s0\<lparr>current_part := current_part s0 + 1, part_is_open := False\<rparr> in
          (s, do_effect W (EReplace (part_path (export_base s) (current_part s)) rows) (persist W s d0)))"

section \<open>Frames and effects\<close>

lemma part_path_dir [simp]: "fst (part_path b n) = b_dir b"
  by (simp add: part_path_def base_path_def)

text \<open>Part paths never collide, whatever the number of digits.\<close>

lemma part_path_inject:
  assumes "1 \<le> m" "1 \<le> n" and e: "part_path b m = part_path b n"
  shows "m = n"
proof -
  have len: "b_stem b @ b_suffix b \<noteq> b_stem b @ CHR ''.'' # pad6 k @ b_suffix b" for k
  proof
    assume "b_stem b @ b_suffix b = b_stem b @ CHR ''.'' # pad6 k @ b_suffix b"
    then have "length (b_suffix b) = length (CHR ''.'' # pad6 k @ b_suffix b)" by (simp only: same_append_eq)
    then show False by simp
  qed
  show ?thesis
  proof (cases "m \<le> 1 \<or> n \<le> 1")
    case True
    with assms len [of "nat m"] len [of "nat n", symmetric] show ?thesis
      by (auto simp: part_path_def base_path_def split: if_splits)
  next
    case False
    with e have "pad6 (nat m) = pad6 (nat n)" by (simp add: part_path_def)
    then have "nat m = nat n" by (metis pad6_val)
    with assms show ?thesis by simp
  qed
qed

lemma map_of_delete [simp]: "map_of (AList.delete k al) = (map_of al)(k := None)"
  by (rule delete_conv')

lemma contents_delete: "contents (AList.delete k fs) p = (if p = k then '''' else contents fs p)"
  by (simp add: contents_def)

lemma path_exists_effect_append [simp]:
  "path_exists (do_effect W (EAppend p h rs) d) q \<longleftrightarrow> q = p \<or> path_exists d q"
  by (auto simp: path_exists_def)

lemma path_exists_effect_replace [simp]:
  "path_exists (do_effect W (EReplace p rs) d) q \<longleftrightarrow> q = p \<or> path_exists d q"
  by (auto simp: path_exists_def)

lemma path_exists_effect_rename:
  "src \<noteq> dst \<Longrightarrow> path_exists d src \<Longrightarrow>
   path_exists (do_effect W (ERename src dst) d) q \<longleftrightarrow> q = dst \<or> (path_exists d q \<and> q \<noteq> src)"
  by (cases "map_of (files d) src") (simp_all add: path_exists_def)

lemma contents_rename:
  "src \<noteq> dst \<Longrightarrow> path_exists d src \<Longrightarrow>
   contents (apply_effect W (ERename src dst) (files d)) q =
     (if q = dst then contents (files d) src else if q = src then '''' else contents (files d) q)"
  by (auto simp: path_exists_def contents_def)

declare apply_effect.simps(4) [simp del]

lemma contents_persist [simp]:
  "p \<noteq> seq_path s \<Longrightarrow> contents (files (persist W s d)) p = contents (files d) p"
  by (simp add: persist_def write_state_def write_single_row_csv_def)

lemma path_exists_persist [simp]:
  "p \<noteq> seq_path s \<Longrightarrow> path_exists (persist W s d) p = path_exists d p"
  by (simp add: persist_def write_state_def write_single_row_csv_def)

lemma log_persist [simp]:
  "log (persist W s d) = log d @ [EReplace (seq_path s) [state_row (current_part s) (part_is_open s)]]"
  by (simp add: persist_def write_state_def write_single_row_csv_def)

lemma file_nonempty_iff: "file_nonempty d p \<longleftrightarrow> contents (files d) p \<noteq> ''''"
  using contents_missing [of d p] by (auto simp: file_nonempty_def st_size_def)

section \<open>The rows of the parts: a refinement\<close>

text \<open>
  What the sequencer promises, seen from the parts on disk: part \<open>k\<close> holds the rows \<open>rss ! (k - 1)\<close>
  as one CSV with one header, the open part under the state base and every closed part under the
  export base, and no part beyond the current one exists. The three locations are different
  directories, as \<open>run_rpc_ingest\<close> lays them out.
\<close>

definition part_file :: "part_seq \<Rightarrow> int \<Rightarrow> path" where
  "part_file s k =
     (if part_is_open s \<and> k = current_part s then part_path (state_base s) k
      else part_path (export_base s) k)"

definition apart :: "part_seq \<Rightarrow> bool" where
  "apart s \<longleftrightarrow>
     b_dir (state_base s) \<noteq> b_dir (export_base s) \<and>
     fst (seq_path s) \<noteq> b_dir (state_base s) \<and> fst (seq_path s) \<noteq> b_dir (export_base s)"

definition seq_repr :: "csv_write \<Rightarrow> part_seq \<times> disk \<Rightarrow> row list list \<Rightarrow> bool" where
  "seq_repr W sd rss \<longleftrightarrow>
     (case sd of (s, d) \<Rightarrow>
        apart s \<and> int (length rss) = current_part s \<and> (part_is_open s \<longrightarrow> rss \<noteq> []) \<and>
        (\<forall>k < length rss. csv_text W (contents (files d) (part_file s (int k + 1))) (rss ! k)) \<and>
        (\<forall>n > current_part s. \<not> path_exists d (part_path (state_base s) n)
                             \<and> \<not> path_exists d (part_path (export_base s) n)))"

lemma close_if_open_fields [simp]:
  "state_base (fst (close_if_open W sd)) = state_base (fst sd)"
  "export_base (fst (close_if_open W sd)) = export_base (fst sd)"
  "seq_path (fst (close_if_open W sd)) = seq_path (fst sd)"
  "max_part_bytes (fst (close_if_open W sd)) = max_part_bytes (fst sd)"
  "current_part (fst (close_if_open W sd)) = current_part (fst sd)"
  "\<not> part_is_open (fst (close_if_open W sd))"
  by (auto simp: close_if_open_def Let_def split: prod.splits)

lemma last_index: "xs \<noteq> [] \<Longrightarrow> int (length xs - Suc 0) + 1 = int (length xs)"
  by (cases xs) auto

lemma dir_neq: "fst p \<noteq> fst q \<Longrightarrow> p \<noteq> q"
  by auto

lemma seq_repr_close:
  assumes law: "csv_law W R" and r: "seq_repr W (s, d) rss"
  shows "seq_repr W (close_if_open W (s, d)) rss"
proof (cases "part_is_open s")
  case False
  with r show ?thesis by (simp add: close_if_open_def)
next
  case True
  let ?c = "current_part s"
  let ?src = "part_path (state_base s) ?c" and ?dst = "part_path (export_base s) ?c"
  from r True have ap: "apart s" and len: "int (length rss) = ?c" and ne: "rss \<noteq> []"
    and parts: "\<And>k. k < length rss \<Longrightarrow> csv_text W (contents (files d) (part_file s (int k + 1))) (rss ! k)"
    and beyond: "\<And>n. n > ?c \<Longrightarrow> \<not> path_exists d (part_path (state_base s) n)
                              \<and> \<not> path_exists d (part_path (export_base s) n)"
    by (auto simp: seq_repr_def)
  have sd: "?src \<noteq> ?dst" "?src \<noteq> seq_path s" "?dst \<noteq> seq_path s"
    using ap by (auto simp: apart_def intro!: dir_neq)
  have "csv_text W (contents (files d) ?src) (rss ! (length rss - 1))"
    using parts [of "length rss - 1"] ne len True last_index [OF ne] by (simp add: part_file_def)
  then have ex: "path_exists d ?src"
    using csv_text_nonempty [OF _ law] contents_missing by blast
  let ?s1 = "s\<lparr>part_is_open := False\<rparr>"
  let ?d1 = "do_effect W (ERename ?src ?dst) d"
  have cl: "close_if_open W (s, d) = (?s1, persist W ?s1 ?d1)"
    using True ex by (simp add: close_if_open_def Let_def)
  have "csv_text W (contents (files (persist W ?s1 ?d1)) (part_file ?s1 (int k + 1))) (rss ! k)"
    if k: "k < length rss" for k
  proof -
    let ?p = "part_path (export_base s) (int k + 1)"
    have p: "?p \<noteq> seq_path s" "?p \<noteq> ?src" using ap by (auto simp: apart_def intro!: dir_neq)
    have "contents (files (persist W ?s1 ?d1)) ?p = contents (files d) (part_file s (int k + 1))"
      using p sd ex True len k part_path_inject [of "int k + 1" ?c "export_base s"]
      by (auto simp: contents_rename part_file_def)
    with parts [OF k] show ?thesis by (simp add: part_file_def)
  qed
  moreover have "\<not> path_exists (persist W ?s1 ?d1) (part_path (state_base s) n)
      \<and> \<not> path_exists (persist W ?s1 ?d1) (part_path (export_base s) n)" if n: "n > ?c" for n
  proof -
    have "part_path (state_base s) n \<noteq> seq_path s" "part_path (export_base s) n \<noteq> seq_path s"
        "part_path (state_base s) n \<noteq> ?dst"
      using ap by (auto simp: apart_def intro!: dir_neq)
    moreover have "part_path (export_base s) n \<noteq> ?dst"
      using part_path_inject [of n ?c "export_base s"] n len ne by (cases rss) auto
    ultimately show ?thesis using beyond [OF n] sd ex by (simp add: path_exists_effect_rename)
  qed
  ultimately show ?thesis using ap len by (simp add: seq_repr_def cl apart_def)
qed

lemma seq_repr_extend:
  assumes r: "seq_repr W (s, d) rss" and cl: "\<not> part_is_open s" and rows: "rows \<noteq> []"
    and s': "s' = s\<lparr>current_part := current_part s + 1, part_is_open := b\<rparr>"
    and new: "contents (files d') (part_file s' (current_part s + 1)) = W True rows"
    and same: "\<And>p. p \<noteq> seq_path s \<Longrightarrow> p \<noteq> part_file s' (current_part s + 1) \<Longrightarrow>
                  contents (files d') p = contents (files d) p \<and> path_exists d' p = path_exists d p"
  shows "seq_repr W (s', d') (rss @ [rows])"
proof -
  let ?c = "current_part s"
  let ?new = "part_file s' (?c + 1)"
  from r have ap: "apart s" and len: "int (length rss) = ?c"
    and parts: "\<And>k. k < length rss \<Longrightarrow> csv_text W (contents (files d) (part_file s (int k + 1))) (rss ! k)"
    and beyond: "\<And>n. n > ?c \<Longrightarrow> \<not> path_exists d (part_path (state_base s) n)
                              \<and> \<not> path_exists d (part_path (export_base s) n)"
    by (auto simp: seq_repr_def)
  have not_new: "part_path bs n \<noteq> ?new" if "n \<noteq> ?c + 1" "1 \<le> n" "bs = state_base s \<or> bs = export_base s" for n bs
    using that ap len part_path_inject [of n "?c + 1" bs] unfolding part_file_def s'
    by (auto simp: apart_def dest: arg_cong [where f = fst])
  have not_seq: "part_path bs n \<noteq> seq_path s" if "bs = state_base s \<or> bs = export_base s" for n bs
    using that ap by (auto simp: apart_def intro!: dir_neq)
  have "csv_text W (contents (files d') (part_file s' (int k + 1))) ((rss @ [rows]) ! k)"
    if k: "k < length (rss @ [rows])" for k
  proof (cases "k < length rss")
    case True
    have f: "part_file s' (int k + 1) = part_path (export_base s) (int k + 1)"
        "part_file s (int k + 1) = part_path (export_base s) (int k + 1)"
      using True len cl by (auto simp: part_file_def s')
    have "contents (files d') (part_path (export_base s) (int k + 1))
          = contents (files d) (part_path (export_base s) (int k + 1))"
      using same not_new [of "int k + 1" "export_base s"] not_seq [of "export_base s"] True len by auto
    with parts [OF True] True f show ?thesis by (simp add: nth_append)
  next
    case False
    with k len have "int k + 1 = ?c + 1" "k = length rss" by auto
    with new rows show ?thesis by (simp add: csv_text.first_chunk)
  qed
  moreover have "\<not> path_exists d' (part_path bs n)"
    if "n > ?c + 1" "bs = state_base s \<or> bs = export_base s" for n bs
    using that beyond [of n] same [of "part_path bs n"] not_new [of n bs] not_seq [of bs n] len by auto
  ultimately show ?thesis using ap len by (simp add: seq_repr_def s' apart_def)
qed

lemma seq_repr_open_append:
  assumes law: "csv_law W R" and r: "seq_repr W (s, d) rss" and op: "part_is_open s" and rows: "rows \<noteq> []"
  shows "seq_repr W (s, persist W s (append_rows W (part_path (state_base s) (current_part s)) rows d))
           (butlast rss @ [last rss @ rows])"
proof -
  let ?c = "current_part s"
  let ?t = "part_path (state_base s) ?c"
  let ?d = "persist W s (append_rows W ?t rows d)"
  from r op have ap: "apart s" and len: "int (length rss) = ?c" and ne: "rss \<noteq> []"
    and parts: "\<And>k. k < length rss \<Longrightarrow> csv_text W (contents (files d) (part_file s (int k + 1))) (rss ! k)"
    and beyond: "\<And>n. n > ?c \<Longrightarrow> \<not> path_exists d (part_path (state_base s) n)
                              \<and> \<not> path_exists d (part_path (export_base s) n)"
    by (auto simp: seq_repr_def)
  have not_seq: "part_path bs n \<noteq> seq_path s" if "bs = state_base s \<or> bs = export_base s" for n bs
    using that ap by (auto simp: apart_def intro!: dir_neq)
  have lst: "csv_text W (contents (files d) ?t) (last rss)"
    using parts [of "length rss - 1"] ne len op last_index [OF ne] by (simp add: part_file_def last_conv_nth)
  then have "contents (files d) ?t \<noteq> ''''" using csv_text_nonempty [OF _ law] by blast
  then have new: "csv_text W (contents (files ?d) ?t) (last rss @ rows)"
    using lst rows not_seq [of "state_base s" ?c]
    by (simp add: files_append_rows file_nonempty_iff csv_text.next_chunk)
  have "csv_text W (contents (files ?d) (part_file s (int k + 1))) ((butlast rss @ [last rss @ rows]) ! k)"
    if k: "k < length (butlast rss @ [last rss @ rows])" for k
  proof (cases "k = length rss - 1")
    case True
    with new ne len op last_index [OF ne] show ?thesis by (simp add: part_file_def nth_append)
  next
    case False
    with k ne have k': "k < length rss - 1" by simp
    then have f: "part_file s (int k + 1) = part_path (export_base s) (int k + 1)"
      using len op by (auto simp: part_file_def)
    have "part_path (export_base s) (int k + 1) \<noteq> ?t" using ap by (auto simp: apart_def intro!: dir_neq)
    with parts [of k] k' f not_seq [of "export_base s"] show ?thesis
      by (simp add: files_append_rows nth_append nth_butlast)
  qed
  moreover have "\<not> path_exists ?d (part_path bs n)"
    if "n > ?c" "bs = state_base s \<or> bs = export_base s" for n bs
  proof -
    have "part_path bs n \<noteq> ?t"
      using that len ne ap part_path_inject [of n ?c "state_base s"]
      by (cases rss) (auto simp: apart_def dest: arg_cong [where f = fst])
    with that beyond [of n] not_seq [of bs n] show ?thesis by (auto simp: path_exists_append_rows)
  qed
  ultimately show ?thesis using ap len ne by (simp add: seq_repr_def)
qed

lemma part_path_not_seq: "apart s \<Longrightarrow> bs = state_base s \<or> bs = export_base s \<Longrightarrow> part_path bs n \<noteq> seq_path s"
  by (auto simp: apart_def dest: arg_cong [where f = fst])

lemma seq_repr_fresh_contents:
  "seq_repr W (s, d) rss \<Longrightarrow> n > current_part s \<Longrightarrow>
   contents (files d) (part_path (state_base s) n) = ''''"
  by (auto simp: seq_repr_def contents_missing)

lemma seq_repr_write_atomic:
  assumes law: "csv_law W R" and r: "seq_repr W sd rss" and rows: "rows \<noteq> []"
  shows "seq_repr W (write_atomic W rows sd) (rss @ [rows])"
proof -
  obtain s d where sd: "sd = (s, d)" by force
  obtain s0 d0 where cl: "close_if_open W (s, d) = (s0, d0)" by force
  have r0: "seq_repr W (s0, d0) rss" using seq_repr_close [OF law] r cl sd by metis
  have no: "\<not> part_is_open s0" using cl close_if_open_fields(6) [of W "(s, d)"] by simp
  have ap: "apart s0" using r0 by (simp add: seq_repr_def)
  let ?s = "s0\<lparr>current_part := current_part s0 + 1, part_is_open := False\<rparr>"
  let ?p = "part_path (export_base s0) (current_part s0 + 1)"
  have p: "?p \<noteq> seq_path s0" using ap by (simp add: part_path_not_seq)
  have "seq_repr W (?s, do_effect W (EReplace ?p rows) (persist W ?s d0)) (rss @ [rows])"
    by (rule seq_repr_extend [OF r0 no rows refl]) (use p in \<open>auto simp: part_file_def\<close>)
  then show ?thesis using rows by (simp add: write_atomic_def sd cl Let_def)
qed

lemma seq_repr_write_batched:
  assumes law: "csv_law W R" and r: "seq_repr W sd rss" and rows: "rows \<noteq> []"
  shows "\<exists>rss'. seq_repr W (write_batched W rows sd) rss' \<and> concat rss' = concat rss @ rows"
proof -
  obtain s d where sd: "sd = (s, d)" by force
  show ?thesis
  proof (cases "needs_new_part s d")
    case False
    then have op: "part_is_open s" by (simp add: needs_new_part_def Let_def)
    then have ne: "rss \<noteq> []" using r sd by (simp add: seq_repr_def)
    have "concat (butlast rss @ [last rss @ rows]) = concat (butlast rss @ [last rss]) @ rows" by simp
    also have "\<dots> = concat rss @ rows" using ne by simp
    finally show ?thesis
      using seq_repr_open_append [OF law r [unfolded sd] op rows] False rows
      by (intro exI [of _ "butlast rss @ [last rss @ rows]"]) (simp add: write_batched_def sd)
  next
    case True
    obtain s0 d0 where cl: "close_if_open W (s, d) = (s0, d0)" by force
    have r0: "seq_repr W (s0, d0) rss" using seq_repr_close [OF law] r cl sd by metis
    have no: "\<not> part_is_open s0" using cl close_if_open_fields(6) [of W "(s, d)"] by simp
    have ap: "apart s0" using r0 by (simp add: seq_repr_def)
    let ?s = "s0\<lparr>current_part := current_part s0 + 1, part_is_open := True\<rparr>"
    let ?p = "part_path (state_base s0) (current_part s0 + 1)"
    have p: "?p \<noteq> seq_path s0" using ap by (simp add: part_path_not_seq)
    have e: "contents (files d0) ?p = ''''" using seq_repr_fresh_contents [OF r0] by simp
    have "seq_repr W (?s, persist W ?s (append_rows W ?p rows d0)) (rss @ [rows])"
      by (rule seq_repr_extend [OF r0 no rows refl])
        (use p e in \<open>auto simp: part_file_def files_append_rows file_nonempty_iff path_exists_append_rows\<close>)
    then show ?thesis using True rows
      by (intro exI [of _ "rss @ [rows]"]) (simp add: write_batched_def open_next_part_def sd cl)
  qed
qed

section \<open>Sinks\<close>

text \<open>
  What \<open>ingest._drain\<close> relies on, whichever mode it writes in: \<open>put\<close> adds its rows at the end
  of the stream and keeps the representation.
\<close>

locale row_sink =
  fixes put :: "'r list \<Rightarrow> 's \<Rightarrow> 's"
    and holds :: "'s \<Rightarrow> 'r list \<Rightarrow> bool"
  assumes put_holds: "holds s xs \<Longrightarrow> holds (put rs s) (xs @ rs)"
begin

lemma fold_put: "holds s xs \<Longrightarrow> holds (fold put bs s) (xs @ concat bs)"
proof (induction bs arbitrary: s xs)
  case Nil
  then show ?case by simp
next
  case (Cons b bs)
  from Cons.IH [OF put_holds [OF Cons.prems, of b]] show ?case by simp
qed

lemma batching_irrelevant:
  "holds s xs \<Longrightarrow> concat bs = concat bs' \<Longrightarrow>
   holds (fold put bs s) (xs @ concat bs) \<and> holds (fold put bs' s) (xs @ concat bs)"
  using fold_put [of s xs bs] fold_put [of s xs bs'] by simp

end

text \<open>A sequencer offers both modes over one stream.\<close>

locale two_mode_sink = batched: row_sink put_batched holds + at_once: row_sink put_atomic holds
  for put_batched :: "'r list \<Rightarrow> 's \<Rightarrow> 's" and put_atomic :: "'r list \<Rightarrow> 's \<Rightarrow> 's"
    and holds :: "'s \<Rightarrow> 'r list \<Rightarrow> bool"
begin

primrec run_modes :: "(bool \<times> 'r list) list \<Rightarrow> 's \<Rightarrow> 's" where
  "run_modes [] s = s"
| "run_modes (w # ws) s = run_modes ws (if fst w then put_atomic (snd w) s else put_batched (snd w) s)"

lemma run_modes_holds: "holds s xs \<Longrightarrow> holds (run_modes ws s) (xs @ concat (map snd ws))"
proof (induction ws arbitrary: s xs)
  case Nil
  then show ?case by simp
next
  case (Cons w ws)
  have "holds (if fst w then put_atomic (snd w) s else put_batched (snd w) s) (xs @ snd w)"
    using Cons.prems batched.put_holds at_once.put_holds by simp
  from Cons.IH [OF this] show ?case by simp
qed

end

text \<open>
  The model's sink: the sequencer with a disk whose writer \<open>W\<close> and reader \<open>R\<close> satisfy the law
  (\<open>polars\<close> pairs that do not satisfy it are left alone, so that the interpretation needs none).
\<close>

definition holds_rows :: "csv_write \<Rightarrow> csv_read \<Rightarrow> part_seq \<times> disk \<Rightarrow> row list \<Rightarrow> bool" where
  "holds_rows W R sd xs \<longleftrightarrow> csv_law W R \<and> (\<exists>rss. seq_repr W sd rss \<and> concat rss = xs)"

interpretation seqs: two_mode_sink "write_batched W" "write_atomic W" "holds_rows W R" for W R
proof unfold_locales
  fix sd xs rs
  assume "holds_rows W R sd xs"
  then obtain rss where h: "csv_law W R" "seq_repr W sd rss" "concat rss = xs"
    by (auto simp: holds_rows_def)
  show "holds_rows W R (write_batched W rs sd) (xs @ rs)"
  proof (cases "rs = []")
    case True
    with h show ?thesis by (auto simp: holds_rows_def write_batched_def)
  next
    case False
    from seq_repr_write_batched [OF h(1,2) False] h show ?thesis by (auto simp: holds_rows_def)
  qed
  show "holds_rows W R (write_atomic W rs sd) (xs @ rs)"
  proof (cases "rs = []")
    case True
    with h show ?thesis by (auto simp: holds_rows_def write_atomic_def)
  next
    case False
    from seq_repr_write_atomic [OF h(1,2) False] h show ?thesis
      by (auto simp: holds_rows_def intro!: exI [of _ "rss @ [rs]"])
  qed
qed

section \<open>Restart\<close>

lemma read_single_row_written:
  assumes law: "csv_law W R" and cl: "clean_rows [r]" and c: "contents (files d) p = W True [r]"
  shows "\<exists>r'. read_single_row_csv R d p = Inr (Some r') \<and> row_sim r r'"
proof -
  have "csv_text W (W True [r]) [r]" by (simp add: csv_text.first_chunk)
  from csv_lawD [OF law this cl] obtain r' where r': "R (W True [r]) = Some [r']" "row_sim r r'"
    by (auto simp: list_all2_Cons1)
  have "W True [r] \<noteq> ''''" using csv_law_nonempty [OF law] by blast
  moreover from this c have "path_exists d p" using contents_missing [of d p] by auto
  ultimately show ?thesis using c r' by (simp add: read_single_row_csv_def st_size_def read_csv_def)
qed

lemma clean_state_row: "\<bar>part\<bar> < 2 ^ 63 \<Longrightarrow> clean_rows [state_row part is_open]"
  by (simp add: clean_rows_def state_row_def)

lemma read_state_written:
  assumes law: "csv_law W R" and b: "\<bar>part\<bar> < 2 ^ 63"
    and c: "contents (files d) p = W True [state_row part is_open]"
  shows "read_state R d p = Inr (Some (part, is_open))"
proof -
  obtain r' where "read_single_row_csv R d p = Inr (Some r')" "row_sim (state_row part is_open) r'"
    using read_single_row_written [OF law clean_state_row [OF b] c] by blast
  then show ?thesis by (auto simp: read_state_def state_row_def row_sim_Cons)
qed

lemma contents_persist_same:
  "contents (files (persist W s d)) (seq_path s) = W True [state_row (current_part s) (part_is_open s)]"
  by (simp add: persist_def write_state_def write_single_row_csv_def)

lemma seq_init_written:
  assumes law: "csv_law W R" and b: "\<bar>current_part s\<bar> < 2 ^ 63"
    and c: "contents (files d) (seq_path s) = W True [state_row (current_part s) (part_is_open s)]"
  shows "seq_init R (state_base s) (export_base s) (seq_path s) (max_part_bytes s) d = Inr s"
  by (simp add: seq_init_def read_state_written [OF law b c])

lemma write_batched_counter:
  "rows \<noteq> [] \<Longrightarrow> write_batched W rows sd = (s', d') \<Longrightarrow>
   contents (files d') (seq_path s') = W True [state_row (current_part s') (part_is_open s')]"
  by (auto simp: write_batched_def contents_persist_same split: prod.splits)

lemma write_atomic_counter:
  assumes "rows \<noteq> []" "write_atomic W rows sd = (s', d')" "apart (fst sd)"
  shows "contents (files d') (seq_path s') = W True [state_row (current_part s') (part_is_open s')]"
proof -
  obtain s0 d0 where cl: "close_if_open W sd = (s0, d0)" by force
  have "apart s0" using assms(3) cl close_if_open_fields(1-3) [of W sd] by (simp add: apart_def)
  then have "part_path (export_base s0) n \<noteq> seq_path s0" for n by (simp add: part_path_not_seq)
  then have "seq_path s0 \<noteq> part_path (export_base s0) n" for n by metis
  moreover have "persist W (s0\<lparr>current_part := p, part_is_open := b\<rparr>) d0
      = write_state W (seq_path s0) p b d0" for p b by (simp add: persist_def)
  ultimately show ?thesis using assms(1,2)
    by (auto simp: write_atomic_def cl Let_def write_state_def write_single_row_csv_def)
qed

section \<open>Properties\<close>

definition write_all :: "csv_write \<Rightarrow> (bool \<times> row list) list \<Rightarrow> part_seq \<times> disk \<Rightarrow> part_seq \<times> disk" where
  "write_all W ws sd = fold (\<lambda>w. if fst w then write_atomic W (snd w) else write_batched W (snd w)) ws sd"

lemma run_modes_write_all: "seqs.run_modes W ws sd = write_all W ws sd"
  by (induction ws arbitrary: sd) (auto simp: write_all_def)

text \<open>
  C6. The parts on disk hold exactly the rows written, in order: after any sequence of batched
  and atomic writes (a pair of the mode, True for atomic, and the rows), with every rotation and
  mode switch they cause, reading part 1, part 2, ... up to the current part gives the rows that
  were there and then all rows written, each part is one CSV with one header, the open part is
  under the state base and all others under the export base.
\<close>

theorem parts_hold_the_stream:
  assumes "csv_law W R" "seq_repr W sd rss"
  shows "\<exists>rss'. seq_repr W (write_all W ws sd) rss' \<and> concat rss' = concat rss @ concat (map snd ws)"
proof -
  have "holds_rows W R sd (concat rss)" using assms by (auto simp: holds_rows_def)
  from seqs.run_modes_holds [OF this, of ws] show ?thesis
    by (auto simp: run_modes_write_all holds_rows_def)
qed

definition sample_seq :: part_seq where
  "sample_seq = \<lparr>state_base = \<lparr>b_dir = ''state/blocks'', b_stem = ''blocks'', b_suffix = ''.csv''\<rparr>,
     export_base = \<lparr>b_dir = ''out/blocks'', b_stem = ''blocks'', b_suffix = ''.csv''\<rparr>,
     seq_path = (''state'', ''blocks_part_seq.csv''), max_part_bytes = 1,
     current_part = 0, part_is_open = False\<rparr>"

lemma sample_seq_repr: "seq_repr W (sample_seq, empty_disk) []"
  by (simp add: seq_repr_def sample_seq_def apart_def empty_disk_def path_exists_def)

theorem parts_hold_the_stream_witness:
  "\<exists>rss. seq_repr sample_write
           (write_all sample_write [(False, [[(''n'', CInt 1)]]), (True, [[(''n'', CInt 2)]])]
              (sample_seq, empty_disk)) rss
         \<and> concat rss = [[(''n'', CInt 1)], [(''n'', CInt 2)]]"
  using parts_hold_the_stream [OF sample_csv_law sample_seq_repr,
      of "[(False, [[(''n'', CInt 1)]]), (True, [[(''n'', CInt 2)]])]"]
  by simp

text \<open>
  A restart resumes exactly where the process stopped: after a write in either mode, a
  sequencer constructed on the same disk has the same current part and the same open flag.
\<close>

theorem restart_resumes:
  assumes "csv_law W R" "rows \<noteq> []" "apart (fst sd)"
    and "\<bar>current_part (fst (write_batched W rows sd))\<bar> < 2 ^ 63"
    and "\<bar>current_part (fst (write_atomic W rows sd))\<bar> < 2 ^ 63"
  shows "(case write_batched W rows sd of (s, d) \<Rightarrow>
            seq_init R (state_base s) (export_base s) (seq_path s) (max_part_bytes s) d = Inr s)
       \<and> (case write_atomic W rows sd of (s, d) \<Rightarrow>
            seq_init R (state_base s) (export_base s) (seq_path s) (max_part_bytes s) d = Inr s)"
  using assms seq_init_written [OF assms(1)]
    write_batched_counter [OF assms(2), of W sd] write_atomic_counter [OF assms(2) _ assms(3), of W]
  by (auto split: prod.splits)

theorem restart_resumes_witness:
  "(case write_batched sample_write [[(''n'', CInt 1)]] (sample_seq, empty_disk) of (s, d) \<Rightarrow>
      seq_init sample_read (state_base s) (export_base s) (seq_path s) (max_part_bytes s) d = Inr s)
   \<and> (case write_atomic sample_write [[(''n'', CInt 1)]] (sample_seq, empty_disk) of (s, d) \<Rightarrow>
      seq_init sample_read (state_base s) (export_base s) (seq_path s) (max_part_bytes s) d = Inr s)"
  by (rule restart_resumes [OF sample_csv_law])
    (simp_all add: write_batched_def write_atomic_def needs_new_part_def open_next_part_def
      close_if_open_def sample_seq_def apart_def Let_def)

end
