(* ===== verification/Part_Crash.thy ===== *)
theory Part_Crash
  imports Part_Writer
begin

text \<open>
  Crashes of the part sequencer. An operation performs a list of effects, recorded in the disk's
  log; a crash after the first \<open>k\<close> of them leaves the disk those effects produce, and the next
  process constructs a sequencer on it. A consumer may delete exported parts at any time. The
  theory states when a part number that was handed off is never used again, and the one window
  in which it is.
\<close>

section \<open>Events\<close>

datatype seq_op = Batched "row list" | Atomic "row list"

fun run_op :: "csv_write \<Rightarrow> seq_op \<Rightarrow> part_seq \<times> disk \<Rightarrow> part_seq \<times> disk" where
  "run_op W (Batched rows) sd = write_batched W rows sd"
| "run_op W (Atomic rows) sd = write_atomic W rows sd"

text \<open>The effects an operation performs, read off the log.\<close>

definition op_effects :: "csv_write \<Rightarrow> seq_op \<Rightarrow> part_seq \<times> disk \<Rightarrow> effect list" where
  "op_effects W a sd = drop (length (log (snd sd))) (log (snd (run_op W a sd)))"

definition do_effects :: "csv_write \<Rightarrow> effect list \<Rightarrow> disk \<Rightarrow> disk" where
  "do_effects W es d = fold (do_effect W) es d"

definition crash_disk :: "csv_write \<Rightarrow> seq_op \<Rightarrow> nat \<Rightarrow> part_seq \<times> disk \<Rightarrow> disk" where
  "crash_disk W a k sd = do_effects W (take k (op_effects W a sd)) (snd sd)"

definition restart :: "csv_read \<Rightarrow> part_seq \<Rightarrow> disk \<Rightarrow> exn + part_seq \<times> disk" where
  "restart R s d =
     bindE (seq_init R (state_base s) (export_base s) (seq_path s) (max_part_bytes s) d) (\<lambda>s'. Inr (s', d))"

datatype seq_event = Done seq_op | Crash seq_op nat | Consume int

fun run_event :: "csv_write \<Rightarrow> csv_read \<Rightarrow> seq_event \<Rightarrow> part_seq \<times> disk \<Rightarrow> exn + part_seq \<times> disk" where
  "run_event W R (Done a) sd = Inr (run_op W a sd)"
| "run_event W R (Crash a k) sd = restart R (fst sd) (crash_disk W a k sd)"
| "run_event W R (Consume n) sd =
     Inr (fst sd, (snd sd)\<lparr>files := AList.delete (part_path (export_base (fst sd)) n) (files (snd sd))\<rparr>)"

fun run_events :: "csv_write \<Rightarrow> csv_read \<Rightarrow> seq_event list \<Rightarrow> part_seq \<times> disk \<Rightarrow> exn + part_seq \<times> disk" where
  "run_events W R [] sd = Inr sd"
| "run_events W R (e # es) sd = bindE (run_event W R e sd) (run_events W R es)"

text \<open>
  The window: the crash falls right after the handoff's rename, before the counter file says that
  the part is closed.
\<close>

definition in_handoff_window :: "csv_write \<Rightarrow> seq_op \<Rightarrow> nat \<Rightarrow> part_seq \<times> disk \<Rightarrow> bool" where
  "in_handoff_window W a k sd \<longleftrightarrow>
     k = 1 \<and> (case op_effects W a sd of ERename src dst # _ \<Rightarrow> True | _ \<Rightarrow> False)"

fun outside_window :: "csv_write \<Rightarrow> csv_read \<Rightarrow> seq_event list \<Rightarrow> part_seq \<times> disk \<Rightarrow> bool" where
  "outside_window W R [] sd = True"
| "outside_window W R (e # es) sd =
     ((case e of Crash a k \<Rightarrow> \<not> in_handoff_window W a k sd | _ \<Rightarrow> True) \<and>
      (case run_event W R e sd of Inl _ \<Rightarrow> True | Inr sd' \<Rightarrow> outside_window W R es sd'))"

text \<open>The paths under the export directory that effects wrote, in order.\<close>

fun export_of :: "base \<Rightarrow> effect \<Rightarrow> path list" where
  "export_of b (EAppend p h rs) = (if fst p = b_dir b then [p] else [])"
| "export_of b (EReplace p rs) = (if fst p = b_dir b then [p] else [])"
| "export_of b (EText p s) = (if fst p = b_dir b then [p] else [])"
| "export_of b (ERename src dst) = (if fst dst = b_dir b then [dst] else [])"

definition exports :: "base \<Rightarrow> disk \<Rightarrow> path list" where
  "exports b d = concat (map (export_of b) (log d))"

lemma run_events_append:
  "run_events W R (es @ es') sd = bindE (run_events W R es sd) (run_events W R es')"
  by (induction es arbitrary: sd) (auto simp: bindE_def split: sum.splits)

section \<open>The effects of each operation\<close>

lemma do_effects_simps [simp]:
  "do_effects W [] d = d" "do_effects W (e # es) d = do_effects W es (do_effect W e d)"
  by (simp_all add: do_effects_def)

lemma do_effects_append: "do_effects W (es @ es') d = do_effects W es' (do_effects W es d)"
  by (simp add: do_effects_def)

lemma log_do_effects: "log (do_effects W es d) = log d @ es"
  by (induction es arbitrary: d) auto

definition counter_effect :: "part_seq \<Rightarrow> int \<Rightarrow> bool \<Rightarrow> effect" where
  "counter_effect s c b = EReplace (seq_path s) [state_row c b]"

definition rename_effects :: "part_seq \<Rightarrow> disk \<Rightarrow> effect list" where
  "rename_effects s d =
     (if path_exists d (part_path (state_base s) (current_part s))
      then [ERename (part_path (state_base s) (current_part s)) (part_path (export_base s) (current_part s))]
      else [])"

definition close_effects :: "part_seq \<Rightarrow> disk \<Rightarrow> effect list" where
  "close_effects s d =
     (if part_is_open s then rename_effects s d @ [counter_effect s (current_part s) False] else [])"

lemma persist_effect: "persist W s d = do_effect W (counter_effect s (current_part s) (part_is_open s)) d"
  by (simp add: persist_def write_state_def write_single_row_csv_def counter_effect_def)

lemma close_if_open_effects:
  "close_if_open W (s, d) = (s\<lparr>part_is_open := False\<rparr>, do_effects W (close_effects s d) d)"
  by (simp add: close_if_open_def close_effects_def rename_effects_def Let_def persist_effect counter_effect_def)

lemma run_op_effects:
  obtains (none) "run_op W a (s, d) = (s, d)"
  | (extend) h rows where "part_is_open s"
      "run_op W a (s, d) = (s, do_effects W [EAppend (part_path (state_base s) (current_part s)) h rows,
         counter_effect s (current_part s) True] d)"
  | (fresh) h rows where
      "run_op W a (s, d) = (s\<lparr>current_part := current_part s + 1, part_is_open := True\<rparr>,
         do_effects W (close_effects s d @
           [EAppend (part_path (state_base s) (current_part s + 1)) h rows,
            counter_effect s (current_part s + 1) True]) d)"
  | (at_once) rows where
      "run_op W a (s, d) = (s\<lparr>current_part := current_part s + 1, part_is_open := False\<rparr>,
         do_effects W (close_effects s d @
           [counter_effect s (current_part s + 1) False,
            EReplace (part_path (export_base s) (current_part s + 1)) rows]) d)"
proof (cases a)
  case (Batched rows)
  show thesis
  proof (cases "rows = []")
    case True
    with Batched none show thesis by (simp add: write_batched_def)
  next
    case False
    show thesis
    proof (cases "needs_new_part s d")
      case True
      then show thesis using fresh [of _ rows] False Batched
        by (simp add: write_batched_def open_next_part_def close_if_open_effects append_rows_def
            persist_effect do_effects_append counter_effect_def)
    next
      case no: False
      then have "part_is_open s" by (simp add: needs_new_part_def Let_def)
      then show thesis using extend [of _ rows] no False Batched
        by (simp add: write_batched_def append_rows_def persist_effect counter_effect_def)
    qed
  qed
next
  case (Atomic rows)
  then show thesis using none at_once [of rows]
    by (cases "rows = []")
      (simp_all add: write_atomic_def close_if_open_effects Let_def persist_effect do_effects_append
        counter_effect_def)
qed

section \<open>What a part number on disk means\<close>

text \<open>
  The invariant, for a counter value \<open>(c, o)\<close> a restart would read: every export path written so
  far belongs to a part up to \<open>c\<close>, below \<open>c\<close> while part \<open>c\<close> is open, and no path was written twice.
  Before the counter file exists nothing was exported.
\<close>

definition durable :: "csv_write \<Rightarrow> part_seq \<Rightarrow> int \<Rightarrow> bool \<Rightarrow> disk \<Rightarrow> bool" where
  "durable W s c o' d \<longleftrightarrow>
     0 \<le> c \<and> (o' \<longrightarrow> 1 \<le> c) \<and> distinct (exports (export_base s) d)
     \<and> (\<forall>p \<in> set (exports (export_base s) d).
          \<exists>n. 1 \<le> n \<and> n \<le> c \<and> (o' \<longrightarrow> n < c) \<and> p = part_path (export_base s) n)
     \<and> (if path_exists d (seq_path s) then contents (files d) (seq_path s) = W True [state_row c o']
        else exports (export_base s) d = [])"

lemma exports_do_effect [simp]: "exports b (do_effect W e d) = exports b d @ export_of b e"
  by (simp add: exports_def)

lemma durable_append:
  assumes "durable W s c b d" "apart s"
  shows "durable W s c b (do_effect W (EAppend (part_path (state_base s) n) h rows) d)"
  using assms by (auto simp: durable_def apart_def part_path_not_seq contents_def dest: dir_neq)

lemma durable_counter:
  assumes "durable W s c b d" "apart s" "c \<le> c'" "b' \<Longrightarrow> c < c' \<or> (c = c' \<and> b)"
  shows "durable W s c' b' (do_effect W (counter_effect s c' b') d)"
proof -
  have e: "exports (export_base s) (do_effect W (counter_effect s c' b') d) = exports (export_base s) d"
    using assms(2) by (simp add: counter_effect_def apart_def)
  have "\<exists>n. 1 \<le> n \<and> n \<le> c' \<and> (b' \<longrightarrow> n < c') \<and> p = part_path (export_base s) n"
    if "p \<in> set (exports (export_base s) d)" for p
  proof -
    from that assms(1) obtain n where "1 \<le> n" "n \<le> c" "b \<longrightarrow> n < c" "p = part_path (export_base s) n"
      by (auto simp: durable_def)
    with assms(3,4) show ?thesis by (intro exI [of _ n]) auto
  qed
  with assms e show ?thesis
    by (auto simp: durable_def counter_effect_def contents_def)
qed

lemma durable_export:
  assumes d: "durable W s c b d"
    and e: "exports (export_base s) d' = exports (export_base s) d @ [part_path (export_base s) n]"
    and n: "c < n \<or> (c = n \<and> b)" and c: "path_exists d' (seq_path s)"
      "contents (files d') (seq_path s) = W True [state_row n False]"
  shows "durable W s n False d'"
proof -
  have "part_path (export_base s) n \<notin> set (exports (export_base s) d)"
  proof
    assume "part_path (export_base s) n \<in> set (exports (export_base s) d)"
    with d obtain k where k: "1 \<le> k" "k \<le> c" "b \<longrightarrow> k < c" "part_path (export_base s) n = part_path (export_base s) k"
      by (auto simp: durable_def)
    with n d have "1 \<le> n" by (auto simp: durable_def)
    with k part_path_inject [of n k "export_base s"] n show False by auto
  qed
  moreover have "1 \<le> n" using d n by (auto simp: durable_def)
  moreover have "\<exists>k. 1 \<le> k \<and> k \<le> n \<and> p = part_path (export_base s) k"
    if "p \<in> set (exports (export_base s) d)" for p
    using that d n by (force simp: durable_def)
  ultimately show ?thesis using d c e by (auto simp: durable_def)
qed

text \<open>The two ways a part gets to the export directory.\<close>

lemma durable_rename:
  assumes d: "durable W s c True d" and ap: "apart s"
  shows "durable W s c False (do_effect W (counter_effect s c False)
           (do_effect W (ERename (part_path (state_base s) c) (part_path (export_base s) c)) d))"
  by (rule durable_export [OF d]) (use ap in \<open>auto simp: counter_effect_def apart_def contents_def\<close>)

lemma durable_whole:
  assumes d: "durable W s c b d" and ap: "apart s" and n: "c < n"
  shows "durable W s n False (do_effect W (EReplace (part_path (export_base s) n) rows)
           (do_effect W (counter_effect s n False) d))"
  by (rule durable_export [OF d])
    (use ap n part_path_not_seq [OF ap, of "export_base s" n] in \<open>auto simp: counter_effect_def apart_def contents_def\<close>)

text \<open>Handing off the open part, up to any effect but the rename.\<close>

lemma durable_close:
  assumes d: "durable W s (current_part s) (part_is_open s) d" and ap: "apart s"
    and k: "k \<le> length (close_effects s d)" "\<not> (k = 1 \<and> close_effects s d \<noteq> [] \<and> rename_effects s d \<noteq> [])"
  shows "durable W s (current_part s) (if k = length (close_effects s d) then False else part_is_open s)
           (do_effects W (take k (close_effects s d)) d)"
proof (cases "part_is_open s")
  case False
  with d k show ?thesis by (simp add: close_effects_def)
next
  case True
  show ?thesis
  proof (cases "rename_effects s d = []")
    case e: True
    with True k(1) have "k = 0 \<or> k = 1" by (auto simp: close_effects_def)
    with e True d durable_counter [OF d ap, of "current_part s" False] show ?thesis
      by (auto simp: close_effects_def)
  next
    case e: False
    then have r: "rename_effects s d = [ERename (part_path (state_base s) (current_part s))
        (part_path (export_base s) (current_part s))]"
      by (auto simp: rename_effects_def split: if_splits)
    with True k have "k = 0 \<or> k = 2" by (auto simp: close_effects_def)
    with r True d durable_rename [of W s "current_part s" d] ap show ?thesis
      by (auto simp: close_effects_def numeral_2_eq_2)
  qed
qed

section \<open>Every event keeps the invariant\<close>

definition safe_seq :: "csv_write \<Rightarrow> part_seq \<times> disk \<Rightarrow> bool" where
  "safe_seq W sd \<longleftrightarrow> apart (fst sd) \<and> durable W (fst sd) (current_part (fst sd)) (part_is_open (fst sd)) (snd sd)"

lemma durable_static:
  "durable W (s\<lparr>current_part := x, part_is_open := y\<rparr>) c b d = durable W s c b d"
  by (simp add: durable_def)

lemma durable_close_all:
  "durable W s (current_part s) (part_is_open s) d \<Longrightarrow> apart s \<Longrightarrow>
   durable W s (current_part s) False (do_effects W (close_effects s d) d)"
  using durable_close [of W s d "length (close_effects s d)"]
  by (auto simp: close_effects_def split: if_splits)

text \<open>
  Some counter value is on disk after a crash outside the window; it is at most one ahead.
\<close>

lemma crash_durable:
  assumes "safe_seq W (s, d)" "\<not> in_handoff_window W a k (s, d)"
  shows "\<exists>c b. c \<le> current_part s + 1 \<and> durable W s c b (crash_disk W a k (s, d))"
proof -
  let ?c = "current_part s" and ?b = "part_is_open s"
  from assms have ap: "apart s" and du: "durable W s ?c ?b d" by (simp_all add: safe_seq_def)
  have cl: "\<exists>c b. c \<le> ?c + 1 \<and> durable W s c b (do_effects W (take k (close_effects s d)) d)"
    if "k \<le> length (close_effects s d)" "op_effects W a (s, d) = close_effects s d @ es" for es
  proof -
    have "\<not> (k = 1 \<and> close_effects s d \<noteq> [] \<and> rename_effects s d \<noteq> [])"
    proof
      assume k: "k = 1 \<and> close_effects s d \<noteq> [] \<and> rename_effects s d \<noteq> []"
      then have "part_is_open s" by (auto simp: close_effects_def split: if_splits)
      with k that(2) assms(2) show False
        by (auto simp: in_handoff_window_def close_effects_def rename_effects_def split: if_splits)
    qed
    then show ?thesis using durable_close [OF du ap that(1)]
      by (intro exI [of _ ?c] exI conjI) auto
  qed
  let ?d0 = "do_effects W (close_effects s d) d"
  have d0: "durable W s ?c False ?d0" using durable_close_all [OF du ap] .
  have tk: "crash_disk W a k (s, d)
      = (if k \<le> length (close_effects s d) then do_effects W (take k (close_effects s d)) d
         else do_effects W (take (k - length (close_effects s d)) es) ?d0)"
    if "op_effects W a (s, d) = close_effects s d @ es" for es
    using that by (simp add: crash_disk_def do_effects_append)
  show ?thesis
  proof (cases rule: run_op_effects [of W a s d, case_names none extend fresh at_once])
    case none
    with du show ?thesis by (auto simp: crash_disk_def op_effects_def intro!: exI [of _ ?c])
  next
    case (extend h rows)
    let ?es = "[EAppend (part_path (state_base s) ?c) h rows, counter_effect s ?c True]"
    have o: "op_effects W a (s, d) = ?es" using extend by (simp add: op_effects_def)
    consider "take k ?es = []" | "take k ?es = [EAppend (part_path (state_base s) ?c) h rows]" | "take k ?es = ?es"
      by (cases k; cases "k - 1") auto
    then show ?thesis
      using du durable_append [OF du ap] durable_counter [OF durable_append [OF du ap] ap, of ?c True] extend(1)
      by cases (auto simp: crash_disk_def o intro!: exI [of _ ?c] intro: exI [of _ True])
  next
    case (fresh h rows)
    let ?e = "EAppend (part_path (state_base s) (?c + 1)) h rows"
    let ?es = "[?e, counter_effect s (?c + 1) True]"
    have o: "op_effects W a (s, d) = close_effects s d @ ?es" using fresh by (simp add: op_effects_def log_do_effects)
    let ?k = "k - length (close_effects s d)"
    consider "k \<le> length (close_effects s d)" | "take ?k ?es = [?e]" "\<not> k \<le> length (close_effects s d)"
      | "take ?k ?es = ?es" "\<not> k \<le> length (close_effects s d)"
      by (cases "?k"; cases "?k - 1") auto
    then show ?thesis
    proof cases
      case 1
      with cl [OF _ o] tk [OF o] show ?thesis by simp
    next
      case 2
      with tk [OF o] durable_append [OF d0 ap] show ?thesis by (intro exI [of _ ?c] exI [of _ False]) auto
    next
      case 3
      with tk [OF o] durable_counter [OF durable_append [OF d0 ap] ap, of "?c + 1" True]
      show ?thesis by (intro exI [of _ "?c + 1"] exI [of _ True]) auto
    qed
  next
    case (at_once rows)
    let ?x = "counter_effect s (?c + 1) False"
    let ?es = "[?x, EReplace (part_path (export_base s) (?c + 1)) rows]"
    have o: "op_effects W a (s, d) = close_effects s d @ ?es" using at_once by (simp add: op_effects_def log_do_effects)
    let ?k = "k - length (close_effects s d)"
    consider "k \<le> length (close_effects s d)" | "take ?k ?es = [?x]" "\<not> k \<le> length (close_effects s d)"
      | "take ?k ?es = ?es" "\<not> k \<le> length (close_effects s d)"
      by (cases "?k"; cases "?k - 1") auto
    then show ?thesis
    proof cases
      case 1
      with cl [OF _ o] tk [OF o] show ?thesis by simp
    next
      case 2
      with tk [OF o] durable_counter [OF d0 ap, of "?c + 1" False] show ?thesis
        by (intro exI [of _ "?c + 1"] exI [of _ False]) auto
    next
      case 3
      with tk [OF o] durable_whole [OF d0 ap, of "?c + 1" rows] show ?thesis
        by (intro exI [of _ "?c + 1"] exI [of _ False]) auto
    qed
  qed
qed

lemma fold_max_in: "fold max xs x \<in> insert x (set xs)" for x :: int
  by (induction xs arbitrary: x) (force simp: max_def)+

lemma max_default_range:
  "\<forall>n \<in> set xs. 0 \<le> n \<and> n < m \<Longrightarrow> 0 < m \<Longrightarrow> 0 \<le> max_default 0 xs \<and> max_default 0 xs < m"
  using fold_max_in [of xs "hd xs"] by (cases xs) (auto simp: max_default_def)

lemma initial_state_range:
  assumes "initial_state d sb eb = (c, b)"
  shows "0 \<le> c \<and> c < 1000000 \<and> (b \<longrightarrow> 1 \<le> c)"
  using max_default_range [of "existing_part_numbers d sb" 1000000]
    max_default_range [of "existing_part_numbers d eb" 1000000] existing_range assms
  by (auto simp: initial_state_def Let_def split: if_splits)

lemma restart_safe:
  assumes law: "csv_law W R" and du: "durable W s c b d" and ap: "apart s" and c: "c < 2 ^ 63"
  obtains s' where "restart R s d = Inr (s', d)" "safe_seq W (s', d)" "current_part s' \<le> max c 999999"
    "export_base s' = export_base s"
proof (cases "path_exists d (seq_path s)")
  case True
  let ?s = "s\<lparr>current_part := c, part_is_open := b\<rparr>"
  from True du c have "seq_init R (state_base s) (export_base s) (seq_path s) (max_part_bytes s) d = Inr ?s"
    using seq_init_written [OF law, of ?s d] by (simp add: durable_def)
  moreover have "safe_seq W (?s, d)" using du ap by (simp add: safe_seq_def durable_static apart_def)
  ultimately show ?thesis using that [of ?s] by (simp add: restart_def)
next
  case False
  obtain c' b' where i: "initial_state d (state_base s) (export_base s) = (c', b')" by force
  let ?s = "s\<lparr>current_part := c', part_is_open := b'\<rparr>"
  from False have "read_state R d (seq_path s) = Inr None"
    by (simp add: read_state_def read_single_row_csv_def)
  with i have "seq_init R (state_base s) (export_base s) (seq_path s) (max_part_bytes s) d = Inr ?s"
    by (simp add: seq_init_def)
  moreover have "safe_seq W (?s, d)"
    using du ap False initial_state_range [OF i] by (simp add: safe_seq_def durable_static apart_def) (simp add: durable_def)
  moreover have "c' \<le> max c 999999" using initial_state_range [OF i] by auto
  ultimately show ?thesis using that [of ?s] by (simp add: restart_def)
qed

lemma done_safe:
  assumes "safe_seq W (s, d)"
  shows "safe_seq W (run_op W a (s, d))" and "current_part (fst (run_op W a (s, d))) \<le> current_part s + 1"
    and "export_base (fst (run_op W a (s, d))) = export_base s"
proof -
  let ?c = "current_part s" and ?b = "part_is_open s"
  from assms have ap: "apart s" and du: "durable W s ?c ?b d" by (simp_all add: safe_seq_def)
  note d0 = durable_close_all [OF du ap]
  have "safe_seq W (run_op W a (s, d)) \<and> current_part (fst (run_op W a (s, d))) \<le> ?c + 1
    \<and> export_base (fst (run_op W a (s, d))) = export_base s"
  proof (cases rule: run_op_effects [of W a s d, case_names none extend fresh at_once])
    case none
    with assms show ?thesis by simp
  next
    case (extend h rows)
    with durable_counter [OF durable_append [OF du ap] ap, of ?c True] ap show ?thesis
      by (simp add: safe_seq_def)
  next
    case (fresh h rows)
    with durable_counter [OF durable_append [OF d0 ap] ap, of "?c + 1" True] ap show ?thesis
      by (simp add: safe_seq_def durable_static do_effects_append apart_def)
  next
    case (at_once rows)
    with durable_whole [OF d0 ap, of "?c + 1" rows] ap show ?thesis
      by (simp add: safe_seq_def durable_static do_effects_append apart_def)
  qed
  then show "safe_seq W (run_op W a (s, d))" "current_part (fst (run_op W a (s, d))) \<le> ?c + 1"
    "export_base (fst (run_op W a (s, d))) = export_base s" by simp_all
qed

lemma consume_safe:
  assumes "safe_seq W (s, d)"
  shows "safe_seq W (s, d\<lparr>files := AList.delete (part_path (export_base s) n) (files d)\<rparr>)"
proof -
  from assms have "part_path (export_base s) n \<noteq> seq_path s" by (simp add: safe_seq_def part_path_not_seq)
  then show ?thesis using assms
    by (simp add: safe_seq_def durable_def exports_def path_exists_def contents_delete cong: if_cong)
qed

lemma event_safe:
  assumes law: "csv_law W R" and sf: "safe_seq W sd" and c: "current_part (fst sd) \<le> m" "999999 \<le> m" "m + 1 < 2 ^ 63"
    and w: "case e of Crash a k \<Rightarrow> \<not> in_handoff_window W a k sd | _ \<Rightarrow> True"
  obtains sd' where "run_event W R e sd = Inr sd'" "safe_seq W sd'" "current_part (fst sd') \<le> m + 1"
    "export_base (fst sd') = export_base (fst sd)"
proof -
  obtain s d where sd: "sd = (s, d)" by force
  show ?thesis
  proof (cases e)
    case (Done a)
    with that [of "run_op W a sd"] done_safe [OF sf [unfolded sd], of a] c sd show ?thesis by simp
  next
    case (Consume n)
    with that [of "(s, d\<lparr>files := AList.delete (part_path (export_base s) n) (files d)\<rparr>)"]
      consume_safe [OF sf [unfolded sd], of n] c sd show ?thesis by simp
  next
    case (Crash a k)
    with w sd obtain x b where x: "x \<le> current_part s + 1" "durable W s x b (crash_disk W a k (s, d))"
      using crash_durable [OF sf [unfolded sd], of a k] by auto
    moreover have "apart s" using sf sd by (simp add: safe_seq_def)
    ultimately obtain s' where "restart R s (crash_disk W a k (s, d)) = Inr (s', crash_disk W a k (s, d))"
      "safe_seq W (s', crash_disk W a k (s, d))" "current_part s' \<le> max x 999999"
      "export_base s' = export_base s"
      using restart_safe [OF law x(2)] c sd by force
    with that [of "(s', crash_disk W a k (s, d))"] Crash sd x c show ?thesis by simp
  qed
qed

lemma events_safe:
  assumes law: "csv_law W R"
  shows "safe_seq W sd \<Longrightarrow> current_part (fst sd) \<le> m \<Longrightarrow> 999999 \<le> m \<Longrightarrow> m + int (length es) < 2 ^ 63 \<Longrightarrow>
    outside_window W R es sd \<Longrightarrow>
    \<exists>sd'. run_events W R es sd = Inr sd' \<and> safe_seq W sd' \<and> export_base (fst sd') = export_base (fst sd)"
proof (induction es arbitrary: sd m)
  case Nil
  then show ?case by simp
next
  case (Cons e es)
  from Cons.prems(5) have w: "case e of Crash a k \<Rightarrow> \<not> in_handoff_window W a k sd | _ \<Rightarrow> True" by simp
  have m: "m + 1 < 2 ^ 63" using Cons.prems(4) by simp
  obtain sd' where e: "run_event W R e sd = Inr sd'" "safe_seq W sd'" "current_part (fst sd') \<le> m + 1"
    "export_base (fst sd') = export_base (fst sd)"
    using event_safe [OF law Cons.prems(1-3) m w] .
  with Cons.prems(3,4,5) Cons.IH [OF e(2,3)] show ?case by auto
qed

section \<open>Properties\<close>

text \<open>
  C7. A part number handed to the consumer is never used again: from a sequencer that starts with
  no counter file (or with a consistent one), through any run of batched and atomic writes,
  crashes after any number of effects of such a write with the restart that follows, and
  deletions of exported parts by the consumer, no path under the export directory is written
  twice, and every restart succeeds; the crashes must avoid the single window between the rename
  of a handoff and the counter update after it.
\<close>

theorem exported_parts_never_reused:
  assumes "csv_law W R" "safe_seq W (s, d)" "current_part s \<le> 999999" "length es < 2 ^ 62"
    and "outside_window W R es (s, d)"
  shows "\<exists>s' d'. run_events W R es (s, d) = Inr (s', d') \<and> distinct (exports (export_base s) d')"
proof -
  have "\<exists>sd'. run_events W R es (s, d) = Inr sd' \<and> safe_seq W sd' \<and> export_base (fst sd') = export_base s"
    using events_safe [OF assms(1,2), of 999999 es] assms(3-5) by auto
  then show ?thesis by (auto simp: safe_seq_def durable_def)
qed

definition num_row :: "int \<Rightarrow> row" where
  "num_row n = [(''n'', CInt n)]"

lemma sample_safe: "safe_seq W (sample_seq, empty_disk)"
  by (simp add: safe_seq_def durable_def sample_seq_def apart_def exports_def empty_disk_def path_exists_def)

theorem exported_parts_never_reused_witness:
  "\<exists>s d. run_events sample_write sample_read
            [Done (Batched [num_row 1]), Crash (Atomic [num_row 2]) 2, Done (Atomic [num_row 3]), Consume 1]
            (sample_seq, empty_disk) = Inr (s, d)
         \<and> distinct (exports (export_base sample_seq) d)"
  by (rule exported_parts_never_reused [OF sample_csv_law sample_safe])
    (simp_all add: sample_seq_def in_handoff_window_def split: sum.splits)

text \<open>
  The window itself: the first batch opens part 1, the second rotates it out and the process dies
  right after the rename, the next process appends the third batch and then rotates again.
\<close>

definition window_run :: "seq_event list" where
  "window_run = [Done (Batched [num_row 1]), Crash (Batched [num_row 2]) 1,
                 Done (Batched [num_row 3]), Done (Batched [num_row 4])]"

definition sample_part :: "int \<Rightarrow> path" where
  "sample_part n = part_path (export_base sample_seq) n"

lemma sample_law_size: "csv_law W R \<Longrightarrow> rows \<noteq> [] \<Longrightarrow> Suc 0 \<le> length (W True rows)"
  using csv_law_nonempty [of W R rows] by (cases "W True rows") auto

lemma sample_paths:
  "part_path (state_base sample_seq) 1 = (''state/blocks'', ''blocks.csv'')"
  "part_path (export_base sample_seq) 1 = (''out/blocks'', ''blocks.csv'')"
  "seq_path sample_seq = (''state'', ''blocks_part_seq.csv'')"
  by (simp_all add: sample_seq_def part_path_def base_path_def)

text \<open>The state after the first batch, and after the third.\<close>

definition opened :: part_seq where
  "opened = sample_seq\<lparr>current_part := 1, part_is_open := True\<rparr>"

lemma opened_fields [simp]:
  "current_part opened = 1" "part_is_open opened" "state_base opened = state_base sample_seq"
  "export_base opened = export_base sample_seq" "seq_path opened = seq_path sample_seq"
  "max_part_bytes opened = 1"
  by (simp_all add: opened_def sample_seq_def)

lemma window_first:
  "\<exists>d. run_op W (Batched [num_row 1]) (sample_seq, empty_disk) = (opened, d) \<and>
       contents (files d) (part_path (state_base sample_seq) 1) = W True [num_row 1] \<and>
       contents (files d) (seq_path sample_seq) = W True [state_row 1 True] \<and>
       \<not> path_exists d (sample_part 1) \<and> exports (export_base sample_seq) d = []"
  by (simp add: write_batched_def needs_new_part_def open_next_part_def close_if_open_def
      sample_seq_def opened_def persist_effect counter_effect_def exports_def part_path_def
      base_path_def append_rows_def file_nonempty_iff empty_disk_def contents_def Let_def
      sample_part_def path_exists_def)

lemma run_op_disk: "snd (run_op W a (s, d)) = do_effects W (op_effects W a (s, d)) d"
  by (cases rule: run_op_effects [of W a s d]) (simp_all add: op_effects_def log_do_effects)

lemma window_rotation:
  assumes law: "csv_law W R" and c: "contents (files d) (part_path (state_base sample_seq) 1) = W True r"
    and ne: "rows \<noteq> []" "r \<noteq> []"
  shows "path_exists d (part_path (state_base sample_seq) 1)"
    and "\<exists>es. op_effects W (Batched rows) (opened, d)
        = ERename (part_path (state_base sample_seq) 1) (sample_part 1) # es
      \<and> (\<forall>d'. exports (export_base sample_seq) (do_effects W es d') = exports (export_base sample_seq) d'
            \<and> contents (files (do_effects W es d')) (sample_part 1) = contents (files d') (sample_part 1))"
proof -
  let ?src = "part_path (state_base sample_seq) 1"
  have sz: "Suc 0 \<le> st_size d ?src"
    using c sample_law_size [OF law ne(2)] by (simp add: st_size_def)
  then have "contents (files d) ?src \<noteq> []" by (auto simp: st_size_def)
  then show ex: "path_exists d ?src" using contents_missing by blast
  from sz ex have "needs_new_part opened d" by (simp add: needs_new_part_def Let_def)
  with ex ne show "\<exists>es. op_effects W (Batched rows) (opened, d) = ERename ?src (sample_part 1) # es
      \<and> (\<forall>d'. exports (export_base sample_seq) (do_effects W es d') = exports (export_base sample_seq) d'
            \<and> contents (files (do_effects W es d')) (sample_part 1) = contents (files d') (sample_part 1))"
    by (simp add: op_effects_def write_batched_def open_next_part_def close_if_open_effects
        close_effects_def rename_effects_def append_rows_def persist_effect log_do_effects
        counter_effect_def sample_part_def)
      (simp add: sample_seq_def part_path_def base_path_def contents_def)
qed

lemma window_distinct:
  "part_path (state_base sample_seq) 1 \<noteq> sample_part 1" "part_path (state_base sample_seq) 1 \<noteq> seq_path sample_seq"
  "sample_part 1 \<noteq> seq_path sample_seq" "b_dir (export_base sample_seq) = ''out/blocks''"
  "fst (sample_part 1) = ''out/blocks''" "b_dir (state_base sample_seq) = ''state/blocks''"
  by (simp_all add: sample_part_def sample_paths) (simp_all add: sample_seq_def)

lemma window_crash:
  assumes law: "csv_law W R"
  obtains d where "run_events W R (take 2 window_run) (sample_seq, empty_disk) = Inr (opened, d)"
    "contents (files d) (sample_part 1) = W True [num_row 1]"
    "\<not> path_exists d (part_path (state_base sample_seq) 1)" "exports (export_base sample_seq) d = [sample_part 1]"
proof -
  let ?src = "part_path (state_base sample_seq) 1" and ?q = "seq_path sample_seq"
  obtain d1 where one: "run_op W (Batched [num_row 1]) (sample_seq, empty_disk) = (opened, d1)"
    "contents (files d1) ?src = W True [num_row 1]" "contents (files d1) ?q = W True [state_row 1 True]"
    "exports (export_base sample_seq) d1 = []"
    using window_first [of W] by blast
  let ?d2 = "do_effect W (ERename ?src (sample_part 1)) d1"
  have crash: "crash_disk W (Batched [num_row 2]) 1 (opened, d1) = ?d2"
    using window_rotation(2) [OF law one(2), of "[num_row 2]"] by (auto simp: crash_disk_def)
  have d2: "contents (files ?d2) (sample_part 1) = W True [num_row 1]"
      "contents (files ?d2) ?q = W True [state_row 1 True]"
      "\<not> path_exists ?d2 ?src" "exports (export_base sample_seq) ?d2 = [sample_part 1]"
    using one window_rotation(1) [OF law one(2), of "[num_row 2]"] window_distinct
    by (simp_all add: contents_rename path_exists_effect_rename)
  have "restart R opened ?d2 = Inr (opened, ?d2)"
    using seq_init_written [OF law, of opened ?d2] d2(2) by (simp add: restart_def)
  then have "run_events W R (take 2 window_run) (sample_seq, empty_disk) = Inr (opened, ?d2)"
    using one(1) crash by (simp add: window_run_def numeral_2_eq_2)
  with d2 that show thesis by blast
qed

lemma window_third:
  assumes law: "csv_law W R" and e: "\<not> path_exists d (part_path (state_base sample_seq) 1)"
    and x: "exports (export_base sample_seq) d = [sample_part 1]"
  obtains d' where "run_op W (Batched [num_row 3]) (opened, d) = (opened, d')"
    "contents (files d') (part_path (state_base sample_seq) 1) = W True [num_row 3]"
    "exports (export_base sample_seq) d' = [sample_part 1]"
proof -
  let ?src = "part_path (state_base sample_seq) 1"
  let ?d3 = "do_effect W (counter_effect opened 1 True) (do_effect W (EAppend ?src True [num_row 3]) d)"
  have "\<not> needs_new_part opened d" "\<not> file_nonempty d ?src"
    using e by (simp_all add: needs_new_part_def Let_def file_nonempty_def)
  then have "run_op W (Batched [num_row 3]) (opened, d) = (opened, ?d3)"
    by (simp add: write_batched_def append_rows_def persist_effect)
  moreover have "contents (files ?d3) ?src = W True [num_row 3]" "exports (export_base sample_seq) ?d3 = [sample_part 1]"
    using x window_distinct contents_missing [OF e]
    by (simp_all add: counter_effect_def contents_def sample_paths)
  ultimately show thesis using that by blast
qed

text \<open>
  A crash in that window does reuse a part number, against the docstring of
  \<open>_close_if_open\<close>: for every \<open>polars\<close> pair with the law and a cap of one byte, the run of
  \<open>window_run\<close> hands part 1 with the first row to the export directory, dies before the counter
  update, restarts with part 1 still open, and later renames another file over the exported part,
  which then holds the third row; the export directory's part 1 was written twice.
\<close>

theorem handoff_window_overwrites:
  assumes law: "csv_law W R"
  shows "(\<exists>sd. run_events W R (take 2 window_run) (sample_seq, empty_disk) = Inr sd
            \<and> contents (files (snd sd)) (sample_part 1) = W True [num_row 1])
       \<and> (\<exists>sd. run_events W R window_run (sample_seq, empty_disk) = Inr sd
            \<and> exports (export_base sample_seq) (snd sd) = [sample_part 1, sample_part 1]
            \<and> contents (files (snd sd)) (sample_part 1) = W True [num_row 3])"
proof -
  obtain d where d: "run_events W R (take 2 window_run) (sample_seq, empty_disk) = Inr (opened, d)"
    "contents (files d) (sample_part 1) = W True [num_row 1]"
    "\<not> path_exists d (part_path (state_base sample_seq) 1)" "exports (export_base sample_seq) d = [sample_part 1]"
    using window_crash [OF law] .
  obtain d3 where d3: "run_op W (Batched [num_row 3]) (opened, d) = (opened, d3)"
    "contents (files d3) (part_path (state_base sample_seq) 1) = W True [num_row 3]"
    "exports (export_base sample_seq) d3 = [sample_part 1]"
    using window_third [OF law d(3,4)] .
  let ?d4 = "snd (run_op W (Batched [num_row 4]) (opened, d3))"
  have "run_events W R window_run (sample_seq, empty_disk) = Inr (run_op W (Batched [num_row 4]) (opened, d3))"
    using run_events_append [of W R "take 2 window_run" "drop 2 window_run"] d(1) d3(1)
    by (simp add: window_run_def numeral_2_eq_2)
  moreover obtain es where "op_effects W (Batched [num_row 4]) (opened, d3)
      = ERename (part_path (state_base sample_seq) 1) (sample_part 1) # es"
    "\<forall>d'. exports (export_base sample_seq) (do_effects W es d') = exports (export_base sample_seq) d'
        \<and> contents (files (do_effects W es d')) (sample_part 1) = contents (files d') (sample_part 1)"
    using window_rotation(2) [OF law d3(2), of "[num_row 4]"] by auto
  then have "exports (export_base sample_seq) ?d4 = [sample_part 1, sample_part 1]"
    "contents (files ?d4) (sample_part 1) = W True [num_row 3]"
    using window_rotation(1) [OF law d3(2), of "[num_row 4]"] d3 window_distinct
    unfolding run_op_disk by (simp_all add: contents_rename)
  ultimately show ?thesis using d by simp
qed

theorem handoff_window_overwrites_witness:
  "\<exists>sd. run_events sample_write sample_read window_run (sample_seq, empty_disk) = Inr sd
        \<and> contents (files (snd sd)) (sample_part 1) = sample_write True [num_row 3]"
  using handoff_window_overwrites [OF sample_csv_law] by blast

end
