(* ===== verification/Reorg_State.thy ===== *)
theory Reorg_State
  imports Csv_Files "HOL-Library.Product_Lexorder" "HOL-Library.List_Lexorder" "HOL-Library.Char_ord"
begin

text \<open>
  btc_parser_app/rpc/reorg_state.py: the pointer files, the index of exported blocks with its
  staged rows, the bootstrap of the index from exported blocks, the canonical-flag table and the
  reorg audit logs. Readers that pass a schema to polars are parameters of their own
  (\<open>RI\<close> for the index, \<open>RB\<close> for the three columns of blocks.csv), since a schema changes what
  comes back; \<open>fl\<close> is Python's text of a float.
\<close>

section \<open>Pointer files\<close>

definition read_pointer :: "csv_read \<Rightarrow> (rat \<Rightarrow> string) \<Rightarrow> disk \<Rightarrow> path \<Rightarrow> exn + (int \<times> string) option" where
  "read_pointer R fl d p =
     bindE (read_single_row_csv R d p) (\<lambda>r.
       (case r of None \<Rightarrow> Inr None
        | Some r \<Rightarrow>
            bindE (row_get r ''height'') (\<lambda>h. bindE (py_int h) (\<lambda>height.
            bindE (row_get r ''blockhash'') (\<lambda>b. Inr (Some (height, py_str fl b)))))))"

definition pointer_row :: "int \<Rightarrow> string \<Rightarrow> row" where
  "pointer_row height blockhash = [(''height'', CInt height), (''blockhash'', CStr blockhash)]"

definition write_pointer :: "csv_write \<Rightarrow> path \<Rightarrow> int \<Rightarrow> string \<Rightarrow> disk \<Rightarrow> disk" where
  "write_pointer W p height blockhash d = write_single_row_csv W p (pointer_row height blockhash) d"

section \<open>The index of exported blocks\<close>

definition CURRENT_INDEX_SCHEMA_VERSION :: int where
  "CURRENT_INDEX_SCHEMA_VERSION = 2"

record index_row =
  ix_height :: int
  ix_hash :: string
  ix_prev :: string
  ix_version :: int

record index_store =
  ix_path :: base
  by_hash :: "(string, index_row) pydict"
  pending :: "(string, index_row) pydict"
  ix_part :: int
  all_current :: bool

text \<open>
  A text column read with a text schema holds texts and nulls; \<open>x or ""\<close> makes both empty ones
  the empty text. A null hash is not told apart from an empty one.
\<close>

fun cell_text :: "cell \<Rightarrow> string" where
  "cell_text (CStr s) = s"
| "cell_text _ = ''''"

definition make_index_row :: "int \<Rightarrow> string \<Rightarrow> string \<Rightarrow> int \<Rightarrow> index_row" where
  "make_index_row h b p v = \<lparr>ix_height = h, ix_hash = b, ix_prev = p, ix_version = v\<rparr>"

definition register :: "index_row \<Rightarrow> index_store \<Rightarrow> index_store" where
  "register r ix = ix\<lparr>by_hash := AList.update (ix_hash r) r (by_hash ix)\<rparr>"

text \<open>One row of a part: a part without the version column is at version 1.\<close>

definition parse_index_row :: "row \<Rightarrow> exn + index_row" where
  "parse_index_row r =
     bindE (row_get r ''height'') (\<lambda>hc. bindE (py_int hc) (\<lambda>h.
     bindE (row_get r ''blockhash'') (\<lambda>b.
     bindE (row_get r ''previousblockhash'') (\<lambda>p.
     bindE (case map_of r ''schema_version'' of None \<Rightarrow> Inr 1 | Some c \<Rightarrow> py_int c) (\<lambda>v.
       Inr (make_index_row h (cell_text b) (cell_text p) v))))))"

fun load_rows :: "row list \<Rightarrow> index_store \<Rightarrow> exn + index_store" where
  "load_rows [] ix = Inr ix"
| "load_rows (r # rs) ix = bindE (parse_index_row r) (\<lambda>ir. load_rows rs (register ir ix))"

fun load_parts :: "csv_read \<Rightarrow> disk \<Rightarrow> path list \<Rightarrow> index_store \<Rightarrow> exn + index_store" where
  "load_parts RI d [] ix = Inr ix"
| "load_parts RI d (p # ps) ix =
     (if st_size d p = 0 then load_parts RI d ps ix
      else bindE (read_csv_lenient RI (contents (files d) p)) (\<lambda>f.
           bindE (load_rows f ix) (load_parts RI d ps)))"

definition index_load :: "csv_read \<Rightarrow> disk \<Rightarrow> index_store \<Rightarrow> exn + index_store" where
  "index_load RI d ix =
     (if \<not> csv_parts_exist d (ix_path ix) then Inr ix
      else load_parts RI d (all_parts d (ix_path ix)) ix)"

definition index_init :: "csv_read \<Rightarrow> disk \<Rightarrow> base \<Rightarrow> exn + index_store" where
  "index_init RI d b =
     index_load RI d \<lparr>ix_path = b, by_hash = [], pending = [],
       ix_part = max_default 1 (existing_part_numbers d b), all_current = False\<rparr>"

definition index_contains :: "index_store \<Rightarrow> string \<Rightarrow> bool" where
  "index_contains ix h \<longleftrightarrow> map_of (by_hash ix) h \<noteq> None"

text \<open>\<open>self._by_hash.get(h) or self._pending.get(h)\<close>.\<close>

definition index_known :: "index_store \<Rightarrow> string \<Rightarrow> index_row option" where
  "index_known ix h = (case map_of (by_hash ix) h of Some r \<Rightarrow> Some r | None \<Rightarrow> map_of (pending ix) h)"

definition needs_export :: "index_store \<Rightarrow> string \<Rightarrow> bool" where
  "needs_export ix h \<longleftrightarrow>
     (case index_known ix h of None \<Rightarrow> True | Some r \<Rightarrow> ix_version r < CURRENT_INDEX_SCHEMA_VERSION)"

definition index_get :: "index_store \<Rightarrow> string \<Rightarrow> index_row option" where
  "index_get ix h = map_of (by_hash ix) h"

definition stale_rows :: "index_store \<Rightarrow> index_row list" where
  "stale_rows ix = filter (\<lambda>r. ix_version r < CURRENT_INDEX_SCHEMA_VERSION) (map snd (by_hash ix))"

text \<open>\<open>min(rows, key=height)\<close>: the first of the lowest ones.\<close>

fun min_height :: "index_row \<Rightarrow> index_row list \<Rightarrow> index_row" where
  "min_height m [] = m"
| "min_height m (r # rs) = min_height (if ix_height r < ix_height m then r else m) rs"

definition earliest_stale :: "index_store \<Rightarrow> index_row option \<times> index_store" where
  "earliest_stale ix =
     (if all_current ix then (None, ix)
      else case stale_rows ix of
             [] \<Rightarrow> (None, ix\<lparr>all_current := True\<rparr>)
           | r # rs \<Rightarrow> (Some (min_height r rs), ix))"

definition index_add :: "int \<Rightarrow> string \<Rightarrow> string \<Rightarrow> int \<Rightarrow> index_store \<Rightarrow> index_store" where
  "index_add height blockhash prev version ix =
     (case index_known ix blockhash of
        Some r \<Rightarrow>
          (if ix_version r \<ge> version then ix
           else ix\<lparr>pending := AList.update blockhash (make_index_row height blockhash prev version) (pending ix)\<rparr>)
      | None \<Rightarrow>
          ix\<lparr>pending := AList.update blockhash (make_index_row height blockhash prev version) (pending ix)\<rparr>)"

definition discard_pending :: "index_store \<Rightarrow> index_store" where
  "discard_pending ix = ix\<lparr>pending := []\<rparr>"

definition index_cells :: "index_row \<Rightarrow> row" where
  "index_cells r = [(''height'', CInt (ix_height r)), (''blockhash'', CStr (ix_hash r)),
     (''previousblockhash'', CStr (ix_prev r)), (''schema_version'', CInt (ix_version r))]"

text \<open>\<open>f.readline()\<close> of a text file, without its end.\<close>

definition first_line :: "string \<Rightarrow> string" where
  "first_line s = takeWhile (\<lambda>c. of_char c \<noteq> (10 :: nat) \<and> of_char c \<noteq> (13 :: nat)) s"

text \<open>The part a flush appends to, and whether it already has a header.\<close>

definition flush_target :: "disk \<Rightarrow> base \<Rightarrow> int \<Rightarrow> int \<times> bool" where
  "flush_target d b part =
     (let target = part_path b part; file_exists = file_nonempty d target in
      if file_exists \<and> st_size d target \<ge> MAX_PART_BYTES then (part + 1, False)
      else if file_exists \<and> \<not> text_in ''schema_version'' (first_line (contents (files d) target))
        then (part + 1, False)
      else (part, file_exists))"

definition index_flush :: "csv_write \<Rightarrow> index_store \<times> disk \<Rightarrow> index_store \<times> disk" where
  "index_flush W sd =
     (case sd of (ix, d) \<Rightarrow>
        if pending ix = [] then (ix, d)
        else
          let rows = map (index_cells \<circ> snd) (pending ix);
              (part, file_exists) = flush_target d (ix_path ix) (ix_part ix)
          in (ix\<lparr>ix_part := part, by_hash := dict_update (by_hash ix) (pending ix), pending := []\<rparr>,
              do_effect W (EAppend (part_path (ix_path ix) part) (\<not> file_exists) rows) d))"

section \<open>Bootstrap from exported blocks\<close>

text \<open>The dict of parts: an exported part replaces an open one of the same number.\<close>

definition seed_parts :: "disk \<Rightarrow> base \<Rightarrow> base \<Rightarrow> (int, path) pydict" where
  "seed_parts d sb eb =
     sort_key fst
       (fold (\<lambda>b ps. fold (\<lambda>n. AList.update n (part_path b n)) (existing_part_numbers d b) ps) [sb, eb] [])"

definition seed_row :: "row \<Rightarrow> (index_store \<times> disk, unit) action" where
  "seed_row r =
     bindA (liftA (bindE (row_get r ''height'') py_int)) (\<lambda>h.
     bindA (liftA (row_get r ''hash'')) (\<lambda>b.
     bindA (liftA (row_get r ''previousblockhash'')) (\<lambda>p.
       updA (\<lambda>(ix, d). (index_add h (cell_text b) (cell_text p) 1 ix, d)))))"

text \<open>
  The order of \<open>frame.sort("height")\<close>, nulls first; the last of the rows of the greatest height
  is taken where polars leaves the order of equal heights open.
\<close>

fun height_key :: "row \<Rightarrow> int option" where
  "height_key r = (case bindE (row_get r ''height'') py_int of Inl _ \<Rightarrow> None | Inr h \<Rightarrow> Some h)"

fun opt_le :: "int option \<Rightarrow> int option \<Rightarrow> bool" where
  "opt_le None _ = True"
| "opt_le (Some a) None = False"
| "opt_le (Some a) (Some b) = (a \<le> b)"

definition top_row :: "row list \<Rightarrow> row" where
  "top_row rs = fold (\<lambda>r m. if opt_le (height_key m) (height_key r) then r else m) (tl rs) (hd rs)"

definition seed_index_from_blocks_csv ::
    "csv_write \<Rightarrow> csv_read \<Rightarrow> (rat \<Rightarrow> string) \<Rightarrow> base \<Rightarrow> base \<Rightarrow> (index_store \<times> disk, (int \<times> string) option) action" where
  "seed_index_from_blocks_csv W RB fl sb eb =
     bindA (getA (\<lambda>(ix, d). (d, map snd (seed_parts d sb eb)))) (\<lambda>(d, ps).
     bindA (liftA (read_parts RB d ps)) (\<lambda>f.
       if f = [] then ret None
       else thenA (forA f seed_row) (
            thenA (updA (index_flush W)) (
            bindA (liftA (bindE (row_get (top_row f) ''height'') py_int)) (\<lambda>h.
            bindA (liftA (row_get (top_row f) ''hash'')) (\<lambda>b. ret (Some (h, py_str fl b))))))))"

section \<open>The canonical-flag table\<close>

record status_store =
  bs_path :: path
  entries :: "(int \<times> string, bool) pydict"
  dirty :: bool

definition parse_status_row :: "(rat \<Rightarrow> string) \<Rightarrow> row \<Rightarrow> exn + (int \<times> string) \<times> bool" where
  "parse_status_row fl r =
     bindE (row_get r ''height'') (\<lambda>h. bindE (py_int h) (\<lambda>height.
     bindE (row_get r ''blockhash'') (\<lambda>b.
     bindE (row_get r ''canonical'') (\<lambda>c. Inr ((height, py_str fl b), py_bool c)))))"

definition status_load :: "csv_read \<Rightarrow> (rat \<Rightarrow> string) \<Rightarrow> disk \<Rightarrow> path \<Rightarrow> exn + status_store" where
  "status_load R fl d p =
     (let empty = \<lparr>bs_path = p, entries = [], dirty = False\<rparr> in
      if \<not> path_exists d p \<or> st_size d p = 0 then Inr empty
      else bindE (read_csv_lenient R (contents (files d) p)) (\<lambda>f.
           bindE (mapE (parse_status_row fl) f) (\<lambda>es.
             Inr (empty\<lparr>entries := dict_update [] es\<rparr>))))"

definition set_canonical :: "int \<Rightarrow> string \<Rightarrow> bool \<Rightarrow> status_store \<Rightarrow> status_store" where
  "set_canonical height blockhash canonical s =
     (if map_of (entries s) (height, blockhash) \<noteq> Some canonical
      then s\<lparr>entries := AList.update (height, blockhash) canonical (entries s), dirty := True\<rparr>
      else s)"

definition set_canonical_if_present :: "int \<Rightarrow> string \<Rightarrow> bool \<Rightarrow> status_store \<Rightarrow> status_store" where
  "set_canonical_if_present height blockhash canonical s =
     (case map_of (entries s) (height, blockhash) of
        None \<Rightarrow> s
      | Some c \<Rightarrow>
          (if c \<noteq> canonical
           then s\<lparr>entries := AList.update (height, blockhash) canonical (entries s), dirty := True\<rparr>
           else s))"

definition status_cells :: "(int \<times> string) \<times> bool \<Rightarrow> row" where
  "status_cells e = [(''height'', CInt (fst (fst e))), (''blockhash'', CStr (snd (fst e))), (''canonical'', CBool (snd e))]"

definition status_flush :: "csv_write \<Rightarrow> status_store \<times> disk \<Rightarrow> status_store \<times> disk" where
  "status_flush W sd =
     (case sd of (s, d) \<Rightarrow>
        if \<not> dirty s then (s, d)
        else (s\<lparr>dirty := False\<rparr>,
              do_effect W (EReplace (bs_path s) (map status_cells (sort_key fst (entries s)))) d))"

section \<open>Reorg audit logs\<close>

text \<open>\<open>timestamp\<close> is the formatted time of the call; the file is written whole.\<close>

definition write_reorg_log :: "csv_write \<Rightarrow> string \<Rightarrow> string \<Rightarrow> int \<Rightarrow> int \<Rightarrow> row list \<Rightarrow> disk \<Rightarrow> path \<times> disk" where
  "write_reorg_log W reorg_dir timestamp lowest highest rows d =
     (let p = (reorg_dir, ''reorg_'' @ timestamp @ ''_'' @ show_int lowest @ ''_'' @ show_int highest @ ''.csv'')
      in (p, do_effect W (EReplace p rows) d))"

section \<open>What the index relies on polars for\<close>

text \<open>
  The rows of a part written before the version column existed have three columns and are at
  version 1. \<open>index_law\<close>: reading such a part, or one of the current form, with the index schema
  gives its rows back, and its first line names the version column exactly when the rows have it.
\<close>

definition old_index_cells :: "index_row \<Rightarrow> row" where
  "old_index_cells r = butlast (index_cells r)"

definition index_row_ok :: "index_row \<Rightarrow> bool" where
  "index_row_ok r \<longleftrightarrow> \<bar>ix_height r\<bar> < 2 ^ 63 \<and> \<bar>ix_version r\<bar> < 2 ^ 63 \<and> ix_hash r \<noteq> ''''"

text \<open>A part: whether it has the version column, and its rows.\<close>

type_synonym index_part = "bool \<times> index_row list"

definition part_cells :: "index_part \<Rightarrow> row list" where
  "part_cells p = map (if fst p then index_cells else old_index_cells) (snd p)"

definition index_part_ok :: "index_part \<Rightarrow> bool" where
  "index_part_ok p \<longleftrightarrow> (\<forall>r \<in> set (snd p). index_row_ok r \<and> (\<not> fst p \<longrightarrow> ix_version r = 1))"

definition index_law :: "csv_write \<Rightarrow> csv_read \<Rightarrow> bool" where
  "index_law W RI \<longleftrightarrow> nonempty_writes W \<and>
     (\<forall>c p. index_part_ok p \<longrightarrow> csv_text W c (part_cells p) \<longrightarrow>
        (\<exists>f. RI c = Some f \<and> list_all2 row_sim (part_cells p) f) \<and>
        (text_in ''schema_version'' (first_line c) \<longleftrightarrow> fst p))"

lemma index_law_writes: "index_law W RI \<Longrightarrow> nonempty_writes W"
  by (simp add: index_law_def)

lemma index_lawD:
  assumes "index_law W RI" "index_part_ok p" "csv_text W c (part_cells p)"
  shows "\<exists>f. RI c = Some f \<and> list_all2 row_sim (part_cells p) f"
    and "text_in ''schema_version'' (first_line c) \<longleftrightarrow> fst p"
  using assms unfolding index_law_def by blast+

section \<open>The index on disk\<close>

definition index_view :: "index_row list \<Rightarrow> (string \<rightharpoonup> index_row)" where
  "index_view rs = map_of (rev (map (\<lambda>r. (ix_hash r, r)) rs))"

text \<open>
  The index in memory agrees with the parts on disk: the last row of a hash is the one known in
  memory, and the cached part number is the highest part.
\<close>

definition index_repr :: "csv_write \<Rightarrow> index_store \<times> disk \<Rightarrow> index_part list \<Rightarrow> bool" where
  "index_repr W sd ps \<longleftrightarrow>
     (case sd of (ix, d) \<Rightarrow>
        logical_csv W d (ix_path ix) (map part_cells ps) \<and> sound_parts d (ix_path ix) \<and>
        list_all index_part_ok ps \<and>
        map_of (by_hash ix) = index_view (concat (map snd ps)) \<and>
        ix_part ix = max_default 1 (existing_part_numbers d (ix_path ix)))"

text \<open>What is staged is keyed by its hash.\<close>

definition pending_ok :: "index_store \<Rightarrow> bool" where
  "pending_ok ix \<longleftrightarrow> distinct (map fst (pending ix)) \<and> (\<forall>(k, r) \<in> set (pending ix). ix_hash r = k \<and> index_row_ok r)"

lemma index_view_append: "index_view (xs @ ys) = index_view xs ++ index_view ys"
  by (simp add: index_view_def)

lemma index_view_snoc: "index_view (rs @ [r]) = (index_view rs)(ix_hash r \<mapsto> r)"
  by (simp add: index_view_append) (simp add: index_view_def)

lemma map_of_rev: "distinct (map fst xs) \<Longrightarrow> map_of (rev xs) = map_of xs"
  by (rule map_of_inject_set [THEN iffD2]) (auto simp: rev_map [symmetric])

lemma index_view_pending: "pending_ok ix \<Longrightarrow> index_view (map snd (pending ix)) = map_of (pending ix)"
proof -
  assume p: "pending_ok ix"
  then have "map (\<lambda>r. (ix_hash r, r)) (map snd (pending ix)) = pending ix"
    by (auto simp: pending_ok_def map_idI split_beta)
  with p show ?thesis by (simp add: index_view_def map_of_rev pending_ok_def)
qed

lemma parse_written_row:
  assumes "index_row_ok r" "row_sim (if b then index_cells r else old_index_cells r) r'" "\<not> b \<longrightarrow> ix_version r = 1"
  shows "parse_index_row r' = Inr r"
  using assms
  by (auto simp: old_index_cells_def index_cells_def row_sim_Cons parse_index_row_def index_row_ok_def
      make_index_row_def cell_sim_def split: if_splits)

lemma load_rows_written:
  "list_all2 row_sim (part_cells p) f \<Longrightarrow> index_part_ok p \<Longrightarrow>
   \<exists>ix'. load_rows f ix = Inr ix' \<and> map_of (by_hash ix') = map_of (by_hash ix) ++ index_view (snd p) \<and>
         pending ix' = pending ix \<and> ix_path ix' = ix_path ix \<and> ix_part ix' = ix_part ix"
proof (induction "snd p" arbitrary: p f ix)
  case Nil
  then show ?case by (simp add: part_cells_def index_view_def)
next
  case (Cons r rs)
  from Cons.hyps(2) [symmetric] Cons.prems obtain c f' where f: "f = c # f'"
    "row_sim (if fst p then index_cells r else old_index_cells r) c"
    "list_all2 row_sim (part_cells (fst p, rs)) f'"
    by (auto simp: part_cells_def list_all2_Cons1 split: if_splits)
  have ok: "index_part_ok (fst p, rs)" "index_row_ok r" "\<not> fst p \<longrightarrow> ix_version r = 1"
    using Cons.prems(2) Cons.hyps(2) [symmetric] by (auto simp: index_part_ok_def)
  from Cons.hyps(1) [of "(fst p, rs)" f' "register r ix"] f(3) ok(1) obtain ix'
    where "load_rows f' (register r ix) = Inr ix'"
      "map_of (by_hash ix') = map_of (by_hash (register r ix)) ++ index_view rs"
      "pending ix' = pending ix" "ix_path ix' = ix_path ix" "ix_part ix' = ix_part ix"
    by (auto simp: register_def)
  moreover have "index_view (snd p) = index_view [r] ++ index_view rs"
    using Cons.hyps(2) [symmetric] index_view_append [of "[r]" rs] by simp
  ultimately show ?case using f parse_written_row [OF ok(2) f(2) ok(3)]
    by (auto simp: register_def index_view_def map_add_def fun_eq_iff split: option.splits)
qed

lemma load_parts_written:
  assumes law: "index_law W RI"
  shows "list_all2 (part_rows W d) paths (map part_cells ps) \<Longrightarrow> list_all index_part_ok ps \<Longrightarrow>
   \<exists>ix'. load_parts RI d paths ix = Inr ix' \<and>
         map_of (by_hash ix') = map_of (by_hash ix) ++ index_view (concat (map snd ps)) \<and>
         pending ix' = pending ix \<and> ix_path ix' = ix_path ix \<and> ix_part ix' = ix_part ix"
proof (induction ps arbitrary: paths ix)
  case Nil
  then show ?case by (simp add: index_view_def)
next
  case (Cons p ps)
  then obtain q qs where q: "paths = q # qs" "part_rows W d q (part_cells p)"
    "list_all2 (part_rows W d) qs (map part_cells ps)"
    by (auto simp: list_all2_Cons2)
  have ok: "index_part_ok p" "list_all index_part_ok ps" using Cons.prems(2) by simp_all
  show ?case
  proof (cases "contents (files d) q = ''''")
    case True
    with q(2) have "snd p = []" by (auto simp: part_rows_def part_cells_def)
    with Cons.IH [OF q(3) ok(2), of ix] True q(1) show ?thesis by (simp add: st_size_def)
  next
    case False
    with q(2) have "csv_text W (contents (files d) q) (part_cells p)" by (simp add: part_rows_def)
    with index_lawD(1) [OF law ok(1)] obtain f
      where f: "RI (contents (files d) q) = Some f" "list_all2 row_sim (part_cells p) f" by blast
    obtain i1 where i1: "load_rows f ix = Inr i1"
      "map_of (by_hash i1) = map_of (by_hash ix) ++ index_view (snd p)"
      "pending i1 = pending ix" "ix_path i1 = ix_path ix" "ix_part i1 = ix_part ix"
      using load_rows_written [OF f(2) ok(1), of ix] by auto
    have "load_parts RI d paths ix = load_parts RI d qs i1"
      using False f(1) i1(1) q(1) by (simp add: st_size_def read_csv_lenient_def)
    with Cons.IH [OF q(3) ok(2), of i1] i1 show ?thesis by (auto simp: index_view_append)
  qed
qed

lemma index_init_repr:
  assumes law: "index_law W RI" and r: "index_repr W (ix, d) ps"
  shows "\<exists>ix'. index_init RI d (ix_path ix) = Inr ix' \<and> map_of (by_hash ix') = map_of (by_hash ix) \<and>
           pending ix' = [] \<and> ix_path ix' = ix_path ix \<and> ix_part ix' = ix_part ix"
proof -
  let ?i0 = "\<lparr>ix_path = ix_path ix, by_hash = [], pending = [],
       ix_part = max_default 1 (existing_part_numbers d (ix_path ix)), all_current = False\<rparr>"
  have lp: "\<exists>ix'. load_parts RI d (all_parts d (ix_path ix)) ?i0 = Inr ix' \<and>
         map_of (by_hash ix') = map_of (by_hash ?i0) ++ index_view (concat (map snd ps)) \<and>
         pending ix' = pending ?i0 \<and> ix_path ix' = ix_path ?i0 \<and> ix_part ix' = ix_part ?i0"
    by (rule load_parts_written [OF law]) (use r in \<open>auto simp: index_repr_def logical_csv_def\<close>)
  show ?thesis
  proof (cases "csv_parts_exist d (ix_path ix)")
    case True
    with lp r show ?thesis by (auto simp: index_init_def index_load_def index_repr_def)
  next
    case False
    have "load_parts RI d qs i = Inr i" if "\<forall>p \<in> set qs. st_size d p = 0" for qs i
      using that by (induction qs) auto
    with False have "load_parts RI d (all_parts d (ix_path ix)) ?i0 = Inr ?i0"
      by (simp add: csv_parts_exist_def)
    with lp False r show ?thesis by (auto simp: index_init_def index_load_def index_repr_def)
  qed
qed

section \<open>Flushing the index\<close>

lemma max_default_existing:
  "max_default 1 (existing_part_numbers d b) = (let ns = existing_part_numbers d b in if ns = [] then 1 else last ns)"
proof (cases "existing_part_numbers d b = []")
  case False
  have "max_default 1 (existing_part_numbers d b) = last (existing_part_numbers d b)"
    using max_default_in [OF False, of 1] max_default_ge [OF last_in_set [OF False], of 1]
      existing_le_last [of "max_default 1 (existing_part_numbers d b)" d b] by simp
  with False show ?thesis by simp
qed (simp add: max_default_def)

text \<open>Where a flush goes: a fresh part, or the highest part, whose rows have the version column.\<close>

lemma flush_target_cases:
  assumes law: "index_law W RI" and r: "index_repr W (ix, d) ps"
  obtains (fresh) "flush_target d (ix_path ix) (ix_part ix) = (next_number d (ix_path ix), False)"
  | (highest) n where "existing_part_numbers d (ix_path ix) \<noteq> []" "n = last (existing_part_numbers d (ix_path ix))"
      "flush_target d (ix_path ix) (ix_part ix) = (n, file_nonempty d (part_path (ix_path ix) n))"
      "snd (last ps) = [] \<or> fst (last ps)"
proof -
  let ?b = "ix_path ix" and ?ns = "existing_part_numbers d (ix_path ix)"
  let ?t = "part_path ?b (ix_part ix)"
  from r have lg: "logical_csv W d ?b (map part_cells ps)" and so: "sound_parts d ?b"
    and ok: "list_all index_part_ok ps" and pt: "ix_part ix = (if ?ns = [] then 1 else last ?ns)"
    by (auto simp: index_repr_def max_default_existing Let_def)
  show thesis
  proof (cases "?ns = []")
    case True
    then have "\<not> file_nonempty d ?t"
      using fresh_base [OF True] pt by (simp add: file_nonempty_def part_path_def)
    with True pt fresh show thesis by (simp add: flush_target_def next_number_def)
  next
    case ne: False
    note l = append_last [OF index_law_writes [OF law] lg _ so ne refl, of "[[]]"]
    have pne: "ps \<noteq> []" using l(3) by simp
    then have last: "part_rows W d ?t (part_cells (last ps))" "index_part_ok (last ps)"
      using l(4) pt ne ok by (simp_all add: last_map list_all_iff)
    show thesis
    proof (cases "flush_target d ?b (ix_part ix) = (ix_part ix, file_nonempty d ?t)")
      case False
      then show thesis using fresh pt ne
        by (auto simp: flush_target_def next_number_def Let_def split: if_splits)
    next
      case True
      have "snd (last ps) = [] \<or> fst (last ps)"
      proof (rule disjCI)
        assume nf: "\<not> fst (last ps)"
        show "snd (last ps) = []"
        proof (rule ccontr)
          assume "snd (last ps) \<noteq> []"
          then have c: "contents (files d) ?t \<noteq> ''''" "csv_text W (contents (files d) ?t) (part_cells (last ps))"
            using last(1) by (auto simp: part_rows_def part_cells_def)
          then have "file_nonempty d ?t" using contents_missing [of d ?t] by (auto simp: file_nonempty_def st_size_def)
          moreover have "\<not> text_in ''schema_version'' (first_line (contents (files d) ?t))"
            using index_lawD(2) [OF law last(2) c(2)] nf by simp
          ultimately show False using True by (auto simp: flush_target_def Let_def split: if_splits)
        qed
      qed
      with True pt ne highest [of "ix_part ix"] show thesis by simp
    qed
  qed
qed

lemma part_cells_append: "part_cells (True, xs @ ys) = part_cells (True, xs) @ part_cells (True, ys)"
  by (simp add: part_cells_def)

lemma flush_view:
  "pending_ok ix \<Longrightarrow> map_of (dict_update (by_hash ix) (pending ix)) = map_of (by_hash ix) ++ index_view (map snd (pending ix))"
  using index_view_pending [of ix] by (simp add: map_of_dict_update pending_ok_def)

lemma part_of_last:
  assumes "snd p = [] \<or> fst p"
  shows "part_cells p = part_cells (True, snd p)"
  using assms by (auto simp: part_cells_def)

lemma index_repr_flush:
  assumes law: "index_law W RI" and r: "index_repr W (ix, d) ps" and p: "pending_ok ix"
    and room: "ix_part ix < 999998"
  shows "\<exists>ps'. index_repr W (index_flush W (ix, d)) ps'"
proof (cases "pending ix = []")
  case True
  with r show ?thesis by (auto simp: index_flush_def)
next
  case ne: False
  let ?b = "ix_path ix" and ?rows = "map snd (pending ix)"
  let ?new = "part_cells (True, ?rows)"
  from r have lg: "logical_csv W d ?b (map part_cells ps)" and so: "sound_parts d ?b"
    and ok: "list_all index_part_ok ps" and pt: "ix_part ix = max_default 1 (existing_part_numbers d ?b)"
    and v: "map_of (by_hash ix) = index_view (concat (map snd ps))"
    by (auto simp: index_repr_def)
  have nw: "nonempty_writes W" using law by (rule index_law_writes)
  have new: "?new \<noteq> []" "map (index_cells \<circ> snd) (pending ix) = ?new" "index_part_ok (True, ?rows)"
    using ne p by (auto simp: part_cells_def index_part_ok_def pending_ok_def)
  have main: "index_repr W (index_flush W (ix, d)) ps'"
    if t: "flush_target d ?b (ix_part ix) = (n, file_nonempty d (part_path ?b n))"
    and l: "logical_csv W (append_rows W (part_path ?b n) ?new d) ?b (map part_cells ps')"
    and s: "sound_parts (append_rows W (part_path ?b n) ?new d) ?b" and o: "list_all index_part_ok ps'"
    and w: "concat (map snd ps') = concat (map snd ps) @ ?rows"
    and m: "n = max_default 1 (existing_part_numbers (append_rows W (part_path ?b n) ?new d) ?b)" for n ps'
    using l s o w m ne v flush_view [OF p] new(2)
    by (simp add: index_flush_def t index_repr_def append_rows_def index_view_append)
  show ?thesis
  proof (cases rule: flush_target_cases [OF law r, case_names fresh highest])
    case fresh
    let ?n = "next_number d ?b"
    note a = append_next [OF nw lg new(1) so]
    have f: "file_nonempty d (part_path ?b ?n) = False" using a(1) by (simp add: file_nonempty_def)
    have rg: "1 \<le> ?n \<and> ?n < 999999"
    proof (cases "existing_part_numbers d ?b = []")
      case False
      then have "1 \<le> last (existing_part_numbers d ?b)"
        using so last_in_set by (auto simp: sound_parts_def parts_in_range_def)
      with False room pt max_default_existing [of d ?b] show ?thesis by (simp add: next_number_def)
    qed (simp add: next_number_def)
    have all: "\<forall>x \<in> set (existing_part_numbers d ?b). x < ?n"
      using existing_le_last [of _ d ?b] by (fastforce simp: next_number_def Let_def)
    have "sound_parts (append_rows W (part_path ?b ?n) ?new d) ?b"
      using so rg all a(2) unfolding sound_parts_def parts_in_range_def
      by (auto simp: path_exists_append_rows part_path_def)
    moreover have "?n = max_default 1 (existing_part_numbers (append_rows W (part_path ?b ?n) ?new d) ?b)"
      by (subst max_default_existing) (simp add: a(2))
    ultimately have "index_repr W (index_flush W (ix, d)) (ps @ [(True, ?rows)])"
      using fresh f a(3) ok new(3) by (intro main [of ?n]) simp_all
    then show ?thesis by blast
  next
    case (highest n)
    note a = append_last [OF nw lg new(1) so highest(1,2)]
    let ?ps = "butlast ps @ [(True, snd (last ps) @ ?rows)]"
    have pne: "ps \<noteq> []" using a(3) by simp
    have "map part_cells ?ps = butlast (map part_cells ps) @ [last (map part_cells ps) @ ?new]"
      using pne part_of_last [OF highest(4)] by (simp add: part_cells_append map_butlast last_map)
    then have l: "logical_csv W (append_rows W (part_path ?b n) ?new d) ?b (map part_cells ?ps)"
      using a(2) by simp
    have "concat (map snd (butlast ps @ [last ps])) = concat (map snd ps)" using pne by simp
    then have w: "concat (map snd ?ps) = concat (map snd ps) @ ?rows" by simp
    have s: "sound_parts (append_rows W (part_path ?b n) ?new d) ?b"
      using so a(1) by (auto simp: sound_parts_def parts_in_range_def path_exists_append_rows)
    have o: "list_all index_part_ok ?ps"
      using ok pne new(3) by (auto simp: list_all_iff index_part_ok_def dest: in_set_butlastD)
    have "n = max_default 1 (existing_part_numbers (append_rows W (part_path ?b n) ?new d) ?b)"
      using highest(1,2) by (subst max_default_existing, subst a(1)) simp
    from main [OF highest(3) l s o w this] show ?thesis by blast
  qed
qed

section \<open>Stores with a checkpoint\<close>

text \<open>
  The contract \<open>ingest\<close> uses both stores under: mutations are held in memory, \<open>flush\<close> makes them
  the visible value and writes them, and a process that starts on the disk afterwards loads the
  same value. \<open>view\<close> is what the store answers now, \<open>staged\<close> what it will answer after a flush.
\<close>

locale checkpoint_store =
  fixes flush :: "'s \<Rightarrow> 's" and reload :: "'s \<Rightarrow> 'v option"
    and view :: "'s \<Rightarrow> 'v" and staged :: "'s \<Rightarrow> 'v" and good :: "'s \<Rightarrow> bool"
  assumes view_flush: "good s \<Longrightarrow> view (flush s) = staged s"
    and reload_flush: "good s \<Longrightarrow> reload (flush s) = Some (view (flush s))"
    and flush_flush: "flush (flush s) = flush s"
begin

lemma reload_staged: "good s \<Longrightarrow> reload (flush s) = Some (staged s)"
  by (simp add: reload_flush view_flush)

lemma checkpoint_after:
  assumes "good s" "\<And>f s. f \<in> set fs \<Longrightarrow> good s \<Longrightarrow> good (f s)"
  shows "reload (flush (fold (\<lambda>f s. f s) fs s)) = Some (staged (fold (\<lambda>f s. f s) fs s))"
proof -
  have "good (fold (\<lambda>f s. f s) fs s)" using assms by (induction fs arbitrary: s) auto
  then show ?thesis by (rule reload_staged)
qed

lemma second_flush_idle: "good s \<Longrightarrow> view (flush (flush s)) = staged s"
  by (simp add: flush_flush view_flush)

end

subsection \<open>The index\<close>

definition index_reload :: "csv_read \<Rightarrow> index_store \<times> disk \<Rightarrow> (string \<rightharpoonup> index_row) option" where
  "index_reload RI sd =
     (case index_init RI (snd sd) (ix_path (fst sd)) of Inl _ \<Rightarrow> None | Inr ix \<Rightarrow> Some (map_of (by_hash ix)))"

definition index_visible :: "index_store \<times> disk \<Rightarrow> (string \<rightharpoonup> index_row)" where
  "index_visible sd = map_of (by_hash (fst sd))"

definition index_staged :: "index_store \<times> disk \<Rightarrow> (string \<rightharpoonup> index_row)" where
  "index_staged sd = map_of (by_hash (fst sd)) ++ map_of (pending (fst sd))"

definition good_index :: "csv_write \<Rightarrow> csv_read \<Rightarrow> index_store \<times> disk \<Rightarrow> bool" where
  "good_index W RI sd \<longleftrightarrow>
     index_law W RI \<and> (\<exists>ps. index_repr W sd ps) \<and> pending_ok (fst sd) \<and> ix_part (fst sd) < 999998"

lemma index_path_flush [simp]: "ix_path (fst (index_flush W sd)) = ix_path (fst sd)"
  by (simp add: index_flush_def Let_def split: prod.splits)

lemma index_pending_flush [simp]: "pending (fst (index_flush W sd)) = []"
  by (simp add: index_flush_def Let_def split: prod.splits)

lemma index_visible_flush:
  "pending_ok (fst sd) \<Longrightarrow> index_visible (index_flush W sd) = index_staged sd"
  by (auto simp: index_visible_def index_staged_def index_flush_def Let_def map_of_dict_update pending_ok_def
      split: prod.splits)

interpretation index: checkpoint_store "index_flush W" "index_reload RI" index_visible index_staged "good_index W RI"
  for W RI
proof unfold_locales
  fix sd assume g: "good_index W RI sd"
  then show "index_visible (index_flush W sd) = index_staged sd"
    by (simp add: good_index_def index_visible_flush)
  obtain ix d where sd: "sd = (ix, d)" by force
  with g obtain ps where ps: "index_law W RI" "index_repr W (ix, d) ps" "pending_ok ix" "ix_part ix < 999998"
    by (auto simp: good_index_def)
  obtain ps' where "index_repr W (index_flush W (ix, d)) ps'" using index_repr_flush [OF ps] by blast
  moreover obtain ix' d' where f: "index_flush W (ix, d) = (ix', d')" by force
  ultimately show "index_reload RI (index_flush W sd) = Some (index_visible (index_flush W sd))"
    using g index_init_repr [of W RI ix' d' ps'] sd
    by (auto simp: good_index_def index_reload_def index_visible_def)
next
  fix sd
  show "index_flush W (index_flush W sd) = index_flush W sd"
    using index_pending_flush [of W sd] by (cases "index_flush W sd") (simp add: index_flush_def)
qed

subsection \<open>The canonical-flag table\<close>

definition status_reload :: "csv_read \<Rightarrow> (rat \<Rightarrow> string) \<Rightarrow> status_store \<times> disk \<Rightarrow> (int \<times> string \<rightharpoonup> bool) option" where
  "status_reload R fl sd =
     (case status_load R fl (snd sd) (bs_path (fst sd)) of Inl _ \<Rightarrow> None | Inr s \<Rightarrow> Some (map_of (entries s)))"

definition status_view :: "status_store \<times> disk \<Rightarrow> (int \<times> string \<rightharpoonup> bool)" where
  "status_view sd = map_of (entries (fst sd))"

definition status_key_ok :: "int \<times> string \<Rightarrow> bool" where
  "status_key_ok k \<longleftrightarrow> \<bar>fst k\<bar> < 2 ^ 63 \<and> snd k \<noteq> '''' \<and> inferable (CStr (snd k))"

definition status_file :: "status_store \<Rightarrow> row list" where
  "status_file s = map status_cells (sort_key fst (entries s))"

definition good_status :: "csv_write \<Rightarrow> csv_read \<Rightarrow> status_store \<times> disk \<Rightarrow> bool" where
  "good_status W R sd \<longleftrightarrow>
     (case sd of (s, d) \<Rightarrow>
        csv_law W R \<and> distinct (map fst (entries s)) \<and> (\<forall>e \<in> set (entries s). status_key_ok (fst e)) \<and>
        (dirty s \<longrightarrow> entries s \<noteq> []) \<and>
        (\<not> dirty s \<longrightarrow>
           (if entries s = [] then \<not> path_exists d (bs_path s)
            else contents (files d) (bs_path s) = W True (status_file s))))"

lemma distinct_map_fst_sort:
  fixes xs :: "('k::linorder \<times> 'v) list"
  assumes "distinct (map fst xs)"
  shows "distinct (map fst (sort_key fst xs))"
proof -
  have "mset (map fst (sort_key fst xs)) = mset (map fst xs)" by (simp add: mset_map)
  then show ?thesis using assms mset_eq_imp_distinct_iff by blast
qed

lemma map_of_sort_key:
  fixes xs :: "('k::linorder \<times> 'v) list"
  assumes "distinct (map fst xs)"
  shows "map_of (sort_key fst xs) = map_of xs"
  using assms distinct_map_fst_sort [OF assms] by (intro map_of_inject_set [THEN iffD2]) simp_all

lemma parse_status_written:
  "status_key_ok (fst e) \<Longrightarrow> row_sim (status_cells e) r \<Longrightarrow> parse_status_row fl r = Inr e"
  by (cases e) (auto simp: status_cells_def row_sim_Cons parse_status_row_def status_key_ok_def cell_sim_Str
      simp del: inferable.simps)

lemma status_rows_back:
  "\<forall>e \<in> set es. status_key_ok (fst e) \<Longrightarrow> list_all2 row_sim (map status_cells es) f \<Longrightarrow>
   mapE (parse_status_row fl) f = Inr es"
proof (induction es arbitrary: f)
  case Nil
  then show ?case by simp
next
  case (Cons e es)
  then obtain r f' where "f = r # f'" "row_sim (status_cells e) r" "list_all2 row_sim (map status_cells es) f'"
    by (auto simp: list_all2_Cons1)
  with Cons parse_status_written [of e r fl] show ?case by simp
qed

lemma status_file_clean: "\<forall>e \<in> set (entries s). status_key_ok (fst e) \<Longrightarrow> clean_rows (status_file s)"
  by (auto simp: clean_rows_def status_file_def status_cells_def status_key_ok_def)

lemma status_load_written:
  assumes law: "csv_law W R" and k: "\<forall>e \<in> set (entries s). status_key_ok (fst e)" and ne: "entries s \<noteq> []"
    and di: "distinct (map fst (entries s))" and c: "contents (files d) (bs_path s) = W True (status_file s)"
  shows "status_reload R fl (s, d) = Some (map_of (entries s))"
proof -
  have fne: "status_file s \<noteq> []" using ne by (auto simp: status_file_def dest: arg_cong [where f = length])
  with csv_lawD [OF law csv_text.first_chunk status_file_clean [OF k]]
  obtain f where f: "R (W True (status_file s)) = Some f" "list_all2 row_sim (status_file s) f" by blast
  from f(2) k have "mapE (parse_status_row fl) f = Inr (sort_key fst (entries s))"
    by (intro status_rows_back) (auto simp: status_file_def)
  moreover have "W True (status_file s) \<noteq> ''''" using csv_law_nonempty [OF law fne] by simp
  then have "path_exists d (bs_path s)" "st_size d (bs_path s) \<noteq> 0"
    using c contents_missing [of d "bs_path s"] by (auto simp: st_size_def)
  moreover have "map_of (dict_update [] (sort_key fst (entries s))) = map_of (entries s)"
    using map_of_sort_key [OF di] distinct_map_fst_sort [OF di] by (simp add: map_of_dict_update)
  ultimately show ?thesis using c f(1)
    by (simp add: status_reload_def status_load_def read_csv_lenient_def Let_def)
qed

lemma status_flush_fields [simp]:
  "bs_path (fst (status_flush W sd)) = bs_path (fst sd)"
  "entries (fst (status_flush W sd)) = entries (fst sd)"
  "\<not> dirty (fst (status_flush W sd))"
  by (simp_all add: status_flush_def split: prod.splits)

interpretation status: checkpoint_store "status_flush W" "status_reload R fl" status_view status_view "good_status W R"
  for W R fl
proof unfold_locales
  fix sd assume g: "good_status W R sd"
  show "status_view (status_flush W sd) = status_view sd" by (simp add: status_view_def)
  obtain s d where sd: "sd = (s, d)" by force
  have c: "contents (files (snd (status_flush W sd))) (bs_path s) = W True (status_file s)" if "entries s \<noteq> []"
    using g that by (auto simp: sd good_status_def status_flush_def status_file_def)
  obtain s' d' where f: "status_flush W sd = (s', d')" by force
  then have s': "entries s' = entries s" "bs_path s' = bs_path s"
    using status_flush_fields(1,2) [of W sd] sd by simp_all
  show "status_reload R fl (status_flush W sd) = Some (status_view (status_flush W sd))"
  proof (cases "entries s = []")
    case True
    then have "\<not> path_exists d' (bs_path s)" using g f sd by (auto simp: good_status_def status_flush_def)
    with True s' f show ?thesis by (simp add: status_reload_def status_load_def status_view_def Let_def)
  next
    case False
    with c f s' have "contents (files d') (bs_path s') = W True (status_file s')" by (simp add: status_file_def)
    with status_load_written [of W R s' d' fl] g False s' sd f show ?thesis
      by (simp add: good_status_def status_view_def)
  qed
next
  fix sd
  show "status_flush W (status_flush W sd) = status_flush W sd"
    using status_flush_fields(3) [of W sd] by (cases "status_flush W sd") (simp add: status_flush_def)
qed

lemma good_status_update:
  assumes "good_status W R (s, d)" "status_key_ok (h, b)"
  shows "good_status W R (s\<lparr>entries := AList.update (h, b) c (entries s), dirty := True\<rparr>, d)"
proof -
  have "distinct (map fst (AList.update (h, b) c (entries s)))"
    using assms(1) by (simp add: good_status_def distinct_update)
  moreover have "\<forall>e \<in> set (AList.update (h, b) c (entries s)). status_key_ok (fst e)"
    using assms by (fastforce simp: good_status_def dest: in_update)
  ultimately show ?thesis using assms(1) by (simp add: good_status_def)
qed

lemma good_status_set:
  assumes "good_status W R (s, d)" "status_key_ok (h, b)"
  shows "good_status W R (set_canonical h b c s, d)" "good_status W R (set_canonical_if_present h b c s, d)"
  using assms good_status_update [OF assms, of c]
  by (simp_all add: set_canonical_def set_canonical_if_present_def split: option.splits)

section \<open>Staging\<close>

text \<open>What \<open>index_add\<close> keeps: a staged row is newer than the row it would replace.\<close>

definition staged_newer :: "index_store \<Rightarrow> bool" where
  "staged_newer ix \<longleftrightarrow>
     (\<forall>k r r'. map_of (pending ix) k = Some r \<longrightarrow> map_of (by_hash ix) k = Some r' \<longrightarrow> ix_version r' < ix_version r)"

lemma index_add_cases:
  obtains (known) r where "index_known ix b = Some r" "v \<le> ix_version r" "index_add h b p v ix = ix"
  | (staged) "index_add h b p v ix = ix\<lparr>pending := AList.update b (make_index_row h b p v) (pending ix)\<rparr>"
      "\<And>r. index_known ix b = Some r \<Longrightarrow> ix_version r < v"
  by (cases "index_known ix b") (force simp: index_add_def split: if_splits)+

lemma index_add_fields [simp]:
  "by_hash (index_add h b p v ix) = by_hash ix" "ix_path (index_add h b p v ix) = ix_path ix"
  "ix_part (index_add h b p v ix) = ix_part ix" "all_current (index_add h b p v ix) = all_current ix"
  by (cases rule: index_add_cases [of ix b v h p]; simp)+

lemma staged_newer_add: "staged_newer ix \<Longrightarrow> staged_newer (index_add h b p v ix)"
  by (cases rule: index_add_cases [of ix b v h p])
    (auto simp: staged_newer_def index_known_def make_index_row_def split: if_splits)

lemma pending_ok_add:
  assumes "pending_ok ix" "index_row_ok (make_index_row h b p v)"
  shows "pending_ok (index_add h b p v ix)"
proof (cases rule: index_add_cases [of ix b v h p, case_names known staged])
  case known
  with assms show ?thesis by simp
next
  case staged
  let ?r = "make_index_row h b p v"
  have "distinct (map fst (AList.update b ?r (pending ix)))"
    using assms(1) by (simp add: pending_ok_def distinct_update)
  moreover note in_update [of _ b ?r "pending ix"]
  moreover have "ix_hash ?r = b" by (simp add: make_index_row_def)
  ultimately show ?thesis using staged assms by (fastforce simp: pending_ok_def)
qed

lemma good_index_add:
  "good_index W RI (ix, d) \<Longrightarrow> index_row_ok (make_index_row h b p v) \<Longrightarrow> good_index W RI (index_add h b p v ix, d)"
  by (auto simp: good_index_def index_repr_def pending_ok_add)

lemma by_hash_flush: "pending_ok ix \<Longrightarrow> map_of (by_hash (fst (index_flush W (ix, d)))) = map_of (by_hash ix) ++ map_of (pending ix)"
  using index_visible_flush [of "(ix, d)" W] by (simp add: index_visible_def index_staged_def)

text \<open>The minimum by height.\<close>

lemma min_height_in: "min_height m rs \<in> set (m # rs)"
  by (induction rs arbitrary: m) (auto split: if_splits)

lemma min_height_le: "ix_height (min_height m rs) \<le> ix_height m \<and> (\<forall>r \<in> set rs. ix_height (min_height m rs) \<le> ix_height r)"
proof (induction rs arbitrary: m)
  case Nil
  then show ?case by simp
next
  case (Cons a rs)
  from Cons.IH [of "if ix_height a < ix_height m then a else m"] show ?case by (auto split: if_splits)
qed

section \<open>Properties\<close>

subsection \<open>A sample for the witnesses\<close>

lemma takeWhile_stop: "(\<And>x. x \<in> set xs \<Longrightarrow> P x) \<Longrightarrow> \<not> P y \<Longrightarrow> takeWhile P (xs @ y # ys) = xs"
  by (simp add: takeWhile_append2)

lemma sample_index_law: "index_law sample_write sample_read"
  unfolding index_law_def
proof (intro conjI allI impI)
  show "nonempty_writes sample_write" using sample_csv_law by (rule csv_law_writes)
  fix c and p :: index_part assume c: "csv_text sample_write c (part_cells p)"
  then have e: "part_cells p \<noteq> []" "c = sample_write True (part_cells p)" using sample_text by blast+
  then have "list_all2 row_sim (part_cells p) (part_cells p)" by (intro list_all2_refl) (rule row_sim_refl)
  with e show "\<exists>f. sample_read c = Some f \<and> list_all2 row_sim (part_cells p) f"
    by (auto simp: sample_read_write)
  let ?names = "CHR ''h'' # concat ([''height'', ''blockhash'', ''previousblockhash''] @ (if fst p then [''schema_version''] else []))"
  from e obtain r rs where p: "snd p = r # rs" by (cases "snd p") (auto simp: part_cells_def)
  then have "concat (map fst (concat (take 1 (part_cells p)))) = tl ?names"
    by (simp add: part_cells_def old_index_cells_def index_cells_def)
  moreover have "filter (\<lambda>c. \<not> line_break c) (tl ?names) = tl ?names" by (simp add: line_break_def)
  ultimately have "\<exists>t. c = ?names @ newline # t" using e(2) by (auto simp: sample_write_def)
  then obtain t where "c = ?names @ newline # t" by blast
  moreover have "of_char x \<noteq> (10 :: nat) \<and> of_char x \<noteq> (13 :: nat)" if "x \<in> set ?names" for x
    using that by (auto split: if_splits)
  ultimately have "first_line c = ?names"
    unfolding first_line_def by (simp only: takeWhile_stop) (simp add: newline_def of_char_of takeWhile_append2)
  then show "text_in ''schema_version'' (first_line c) \<longleftrightarrow> fst p" by simp
qed

definition sample_index :: index_store where
  "sample_index = \<lparr>ix_path = \<lparr>b_dir = ''state/index'', b_stem = ''index'', b_suffix = ''.csv''\<rparr>,
     by_hash = [], pending = [], ix_part = 1, all_current = False\<rparr>"

lemma sample_good_index: "good_index sample_write sample_read (sample_index, empty_disk)"
  by (auto simp: good_index_def sample_index_law index_repr_def sample_index_def logical_csv_def all_parts_def
      sound_parts_def parts_in_range_def index_view_def max_default_def pending_ok_def intro!: exI [of _ "[]"])

definition sample_hash :: string where
  "sample_hash = ''00a1''"

lemma sample_row_ok: "index_row_ok (make_index_row 5 sample_hash ''00a0'' 2)"
  by (simp add: index_row_ok_def make_index_row_def sample_hash_def)

subsection \<open>The index\<close>

text \<open>
  C8. A flushed index survives a restart: on every branch of \<open>flush\<close> (first part, append, size
  rotation, rotation away from a part without the version column) an index loaded from the disk
  afterwards knows exactly the rows that were visible or staged before the flush, the staged row
  winning.
\<close>

theorem index_survives_restart:
  assumes "good_index W RI (ix, d)" "index_flush W (ix, d) = (ix', d')"
  shows "\<exists>fresh. index_init RI d' (ix_path ix) = Inr fresh
           \<and> (\<forall>h. index_get fresh h = (case map_of (pending ix) h of Some r \<Rightarrow> Some r | None \<Rightarrow> index_get ix h))
           \<and> (\<forall>h. index_get fresh h = index_get ix' h)"
proof -
  have p: "ix_path ix' = ix_path ix" using index_path_flush [of W "(ix, d)"] assms(2) by simp
  have "index_reload RI (ix', d') = Some (index_staged (ix, d))"
    using index.reload_staged [OF assms(1)] assms(2) by simp
  moreover have "index_visible (ix', d') = index_staged (ix, d)"
    using index.view_flush [OF assms(1)] assms(2) by simp
  ultimately show ?thesis using p
    by (auto simp: index_reload_def index_visible_def index_staged_def index_get_def map_add_def
        split: sum.splits option.splits)
qed

theorem index_survives_restart_witness:
  "\<exists>fresh. index_init sample_read (snd (index_flush sample_write (index_add 5 sample_hash ''00a0'' 2 sample_index, empty_disk)))
             (ix_path sample_index) = Inr fresh
           \<and> index_get fresh sample_hash = Some (make_index_row 5 sample_hash ''00a0'' 2)"
proof -
  let ?ix = "index_add 5 sample_hash ''00a0'' 2 sample_index"
  have "map_of (pending ?ix) sample_hash = Some (make_index_row 5 sample_hash ''00a0'' 2)"
    by (simp add: sample_index_def index_add_def index_known_def)
  with index_survives_restart [OF good_index_add [OF sample_good_index sample_row_ok] surjective_pairing]
  show ?thesis by auto
qed



text \<open>
  \<open>earliest_stale\<close> finds the lowest indexed block that misses event types: as long as its
  cached flag was only set when nothing was stale, it returns a stale row none of whose stale
  companions lies lower, returns None exactly when no indexed row is stale, and what it caches
  is again true.
\<close>

theorem earliest_stale_lowest:
  assumes "all_current ix \<longrightarrow> stale_rows ix = []" "earliest_stale ix = (res, ix')"
  shows "(case res of
            None \<Rightarrow> \<forall>r \<in> set (map snd (by_hash ix)). CURRENT_INDEX_SCHEMA_VERSION \<le> ix_version r
          | Some r \<Rightarrow> r \<in> set (map snd (by_hash ix)) \<and> ix_version r < CURRENT_INDEX_SCHEMA_VERSION \<and>
              (\<forall>r' \<in> set (map snd (by_hash ix)). ix_version r' < CURRENT_INDEX_SCHEMA_VERSION \<longrightarrow> ix_height r \<le> ix_height r'))
         \<and> (all_current ix' \<longrightarrow> stale_rows ix' = []) \<and> by_hash ix' = by_hash ix \<and> pending ix' = pending ix"
proof (cases "stale_rows ix")
  case Nil
  then have "\<forall>r \<in> set (map snd (by_hash ix)). CURRENT_INDEX_SCHEMA_VERSION \<le> ix_version r"
    unfolding stale_rows_def filter_empty_conv by auto
  with Nil assms show ?thesis
    by (auto simp: earliest_stale_def stale_rows_def split: if_splits)
next
  case (Cons r rs)
  then have "\<not> all_current ix" using assms(1) by auto
  with Cons assms(2) have res: "res = Some (min_height r rs)" "ix' = ix" by (auto simp: earliest_stale_def)
  have "min_height r rs \<in> set (stale_rows ix)" "\<forall>r' \<in> set (stale_rows ix). ix_height (min_height r rs) \<le> ix_height r'"
    using Cons min_height_in [of r rs] min_height_le [of r rs] by auto
  with res assms(1) show ?thesis by (auto simp: stale_rows_def)
qed

theorem earliest_stale_lowest_witness:
  "fst (earliest_stale (sample_index\<lparr>by_hash := [(''b'', make_index_row 9 ''b'' ''a'' 1), (''a'', make_index_row 8 ''a'' '''' 1)]\<rparr>))
   = Some (make_index_row 8 ''a'' '''' 1)"
proof -
  let ?ix = "sample_index\<lparr>by_hash := [(''b'', make_index_row 9 ''b'' ''a'' 1), (''a'', make_index_row 8 ''a'' '''' 1)]\<rparr>"
  have "all_current ?ix \<longrightarrow> stale_rows ?ix = []" by (simp add: sample_index_def)
  from earliest_stale_lowest [OF this surjective_pairing [of "earliest_stale ?ix"]] show ?thesis
    by (auto simp: make_index_row_def CURRENT_INDEX_SCHEMA_VERSION_def split: option.splits)
qed

text \<open>
  A stale block that is staged again is not recognised as staged: when a block is indexed at an
  older version, staging it at the current one leaves \<open>needs_export\<close> true, and a second \<open>add\<close>
  replaces the staged row, although the comment of \<open>add\<close> says a block staged at the version is
  left alone (the lookup takes the indexed row and never reaches the staged one).
\<close>

theorem stale_block_staged_again:
  assumes "index_get ix b = Some r" "ix_version r < CURRENT_INDEX_SCHEMA_VERSION"
    and "ix1 = index_add h b p CURRENT_INDEX_SCHEMA_VERSION ix"
  shows "map_of (pending ix1) b = Some (make_index_row h b p CURRENT_INDEX_SCHEMA_VERSION)
       \<and> needs_export ix1 b
       \<and> map_of (pending (index_add h' b p' CURRENT_INDEX_SCHEMA_VERSION ix1)) b
          = Some (make_index_row h' b p' CURRENT_INDEX_SCHEMA_VERSION)"
  using assms by (simp add: index_get_def index_add_def index_known_def needs_export_def)

theorem stale_block_staged_again_witness:
  "needs_export (index_add 5 ''b'' ''a'' CURRENT_INDEX_SCHEMA_VERSION
      (sample_index\<lparr>by_hash := [(''b'', make_index_row 5 ''b'' ''a'' 1)]\<rparr>)) ''b''"
proof -
  let ?ix = "sample_index\<lparr>by_hash := [(''b'', make_index_row 5 ''b'' ''a'' 1)]\<rparr>"
  have "index_get ?ix ''b'' = Some (make_index_row 5 ''b'' ''a'' 1)" by (simp add: index_get_def)
  moreover have "ix_version (make_index_row 5 ''b'' ''a'' 1) < CURRENT_INDEX_SCHEMA_VERSION"
    by (simp add: make_index_row_def CURRENT_INDEX_SCHEMA_VERSION_def)
  ultimately show ?thesis using stale_block_staged_again [OF _ _ refl] by blast
qed

subsection \<open>The canonical flags and the pointers\<close>

datatype status_op = Mark int string bool | Mark_if_present int string bool

fun run_status_op :: "status_op \<Rightarrow> status_store \<Rightarrow> status_store" where
  "run_status_op (Mark h b c) s = set_canonical h b c s"
| "run_status_op (Mark_if_present h b c) s = set_canonical_if_present h b c s"

fun status_op_key :: "status_op \<Rightarrow> int \<times> string" where
  "status_op_key (Mark h b c) = (h, b)"
| "status_op_key (Mark_if_present h b c) = (h, b)"

text \<open>What the flags should say: an update of a map, or of a map where it is defined.\<close>

fun status_spec :: "status_op \<Rightarrow> (int \<times> string \<rightharpoonup> bool) \<Rightarrow> (int \<times> string \<rightharpoonup> bool)" where
  "status_spec (Mark h b c) m = m((h, b) \<mapsto> c)"
| "status_spec (Mark_if_present h b c) m = (if m (h, b) = None then m else m((h, b) \<mapsto> c))"

lemma run_status_op_view: "map_of (entries (run_status_op a s)) = status_spec a (map_of (entries s))"
  by (cases a) (auto simp: set_canonical_def set_canonical_if_present_def split: option.splits)

lemma run_status_ops_view: "map_of (entries (fold run_status_op as s)) = fold status_spec as (map_of (entries s))"
  by (induction as arbitrary: s) (simp_all add: run_status_op_view)

lemma run_status_ops_path: "bs_path (fold run_status_op as s) = bs_path s"
proof (induction as arbitrary: s)
  case (Cons a as)
  have "bs_path (run_status_op a s) = bs_path s"
    by (cases a) (simp_all add: set_canonical_def set_canonical_if_present_def split: option.splits)
  with Cons show ?case by simp
qed simp

lemma good_status_ops:
  "good_status W R (s, d) \<Longrightarrow> \<forall>a \<in> set as. status_key_ok (status_op_key a) \<Longrightarrow>
   good_status W R (fold run_status_op as s, d)"
proof (induction as arbitrary: s)
  case (Cons a as)
  then have "good_status W R (run_status_op a s, d)" by (cases a) (auto intro: good_status_set)
  with Cons show ?case by simp
qed simp

text \<open>
  C28. The canonical-flag table behaves as a map across restarts: after any sequence of marks and a
  flush, the table loaded by the next process is the map those marks give, where an update-only
  mark never creates an entry; a block no reorg touched has no row.
\<close>

theorem flags_survive_restart:
  assumes "good_status W R (s, d)" "\<forall>a \<in> set as. status_key_ok (status_op_key a)"
    and "status_flush W (fold run_status_op as s, d) = (s', d')"
  shows "\<exists>fresh. status_load R fl d' (bs_path s) = Inr fresh
           \<and> map_of (entries fresh) = fold status_spec as (map_of (entries s))
           \<and> map_of (entries s') = fold status_spec as (map_of (entries s))"
proof -
  have "status_reload R fl (s', d') = Some (status_view (fold run_status_op as s, d))"
    using status.reload_staged [OF good_status_ops [OF assms(1,2)], of fl] assms(3) by simp
  moreover have "bs_path s' = bs_path s" "entries s' = entries (fold run_status_op as s)"
    using status_flush_fields(1,2) [of W "(fold run_status_op as s, d)"] assms(3)
    by (simp_all add: run_status_ops_path)
  ultimately show ?thesis
    by (auto simp: status_reload_def status_view_def run_status_ops_view split: sum.splits)
qed

definition sample_status :: status_store where
  "sample_status = \<lparr>bs_path = (''state'', ''block_status.csv''), entries = [], dirty = False\<rparr>"

theorem flags_survive_restart_witness:
  "\<exists>fresh. status_load sample_read (\<lambda>_. '''')
             (snd (status_flush sample_write (fold run_status_op [Mark 5 sample_hash False, Mark_if_present 6 ''00b2'' True] sample_status, empty_disk)))
             (bs_path sample_status) = Inr fresh
           \<and> map_of (entries fresh) = [(5, sample_hash) \<mapsto> False]"
proof -
  let ?as = "[Mark 5 sample_hash False, Mark_if_present 6 ''00b2'' True]"
  have "good_status sample_write sample_read (sample_status, empty_disk)"
    by (simp add: good_status_def sample_csv_law sample_status_def path_exists_def empty_disk_def)
  moreover have "\<forall>a \<in> set ?as. status_key_ok (status_op_key a)"
    by (simp add: status_key_ok_def sample_hash_def)
  moreover have "fold status_spec ?as (map_of (entries sample_status)) = [(5, sample_hash) \<mapsto> False]"
    by (simp add: sample_status_def)
  ultimately show ?thesis
    using flags_survive_restart [OF _ _ surjective_pairing, of sample_write sample_read sample_status empty_disk ?as "\<lambda>_. ''''"]
    by metis
qed

text \<open>
  A pointer reads back as written: after \<open>write_pointer\<close>, on any disk, \<open>read_pointer\<close> gives the
  same height and block hash, for a 64-bit height and a hash that is not all digits.
\<close>

theorem pointer_round_trip:
  assumes "csv_law W R" "status_key_ok (height, blockhash)"
  shows "read_pointer R fl (write_pointer W p height blockhash d) p = Inr (Some (height, blockhash))"
proof -
  have "clean_rows [pointer_row height blockhash]"
    using assms(2) by (simp add: clean_rows_def pointer_row_def status_key_ok_def del: inferable.simps(1))
  moreover have "csv_text W (W True [pointer_row height blockhash]) [pointer_row height blockhash]"
    by (simp add: csv_text.first_chunk)
  ultimately obtain r where r: "R (W True [pointer_row height blockhash]) = Some [r]"
    "row_sim (pointer_row height blockhash) r"
    using csv_lawD [OF assms(1)] by (force simp: list_all2_Cons1)
  have "W True [pointer_row height blockhash] \<noteq> ''''" using csv_law_nonempty [OF assms(1)] by simp
  with r show ?thesis using assms(2)
    by (auto simp: read_pointer_def write_pointer_def write_single_row_csv_def read_single_row_csv_def
        path_exists_def st_size_def read_csv_def pointer_row_def row_sim_Cons status_key_ok_def cell_sim_Str
        simp del: inferable.simps)
qed

theorem pointer_round_trip_witness:
  "read_pointer sample_read (\<lambda>_. '''') (write_pointer sample_write (''state'', ''current.csv'') 840000 sample_hash empty_disk)
     (''state'', ''current.csv'') = Inr (Some (840000, sample_hash))"
  by (rule pointer_round_trip [OF sample_csv_law]) (simp add: status_key_ok_def sample_hash_def)

end
