(* ===== verification/Numbers.thy ===== *)
theory Numbers
  imports Prelude
begin

text \<open>
  Python numbers as the exporter uses them. A float is the rational it denotes; \<open>fl\<close> rounds an
  exact result to the nearest double, ties to even (\<open>a / b\<close> on ints is one such rounding).
  A Decimal is the rational it denotes, and a Decimal operation rounds to the 28 digits of the
  default context. Overflow, underflow and the special values do not occur: the magnitudes the
  code computes with lie far inside the range of a double.
\<close>

section \<open>Rounding to an integer\<close>

definition round_half_even :: "rat \<Rightarrow> int" where
  "round_half_even q =
     (let f = \<lfloor>q\<rfloor>; d = q - of_int f in
      if d < 1 / 2 then f else if d > 1 / 2 then f + 1 else if even f then f else f + 1)"

lemma round_half_even_of_int [simp]: "round_half_even (of_int n) = n"
  by (simp add: round_half_even_def)

lemma round_half_even_error: "\<bar>of_int (round_half_even q) - q\<bar> \<le> 1 / 2"
proof -
  define d where "d = q - of_int \<lfloor>q\<rfloor>"
  have d: "0 \<le> d" "d < 1" unfolding d_def by linarith+
  have "of_int (round_half_even q) - q = - d \<and> d \<le> 1 / 2 \<or> of_int (round_half_even q) - q = 1 - d \<and> 1 / 2 \<le> d"
    by (auto simp: round_half_even_def Let_def d_def)
  with d show ?thesis by (auto simp: abs_if)
qed

lemma round_half_even_mono: "p \<le> q \<Longrightarrow> round_half_even p \<le> round_half_even q"
proof -
  assume pq: "p \<le> q"
  show ?thesis
  proof (cases "\<lfloor>p\<rfloor> = \<lfloor>q\<rfloor>")
    case True
    with pq show ?thesis by (auto simp: round_half_even_def Let_def)
  next
    case False
    then have "\<lfloor>p\<rfloor> + 1 \<le> \<lfloor>q\<rfloor>" using floor_mono [OF pq] by linarith
    moreover have "round_half_even p \<le> \<lfloor>p\<rfloor> + 1" "\<lfloor>q\<rfloor> \<le> round_half_even q"
      by (simp_all add: round_half_even_def Let_def)
    ultimately show ?thesis by linarith
  qed
qed

section \<open>Doubles\<close>

text \<open>The exponent: the \<open>k\<close> with \<open>2 ^ k \<le> q < 2 ^ (k + 1)\<close> for a positive \<open>q\<close>.\<close>

fun bits :: "nat \<Rightarrow> nat" where
  "bits n = (if n = 0 then 0 else Suc (bits (n div 2)))"

declare bits.simps [simp del]

definition pow2 :: "int \<Rightarrow> rat" where
  "pow2 k = (if 0 \<le> k then 2 ^ nat k else 1 / 2 ^ nat (- k))"

definition exponent :: "rat \<Rightarrow> int" where
  "exponent q =
     (let (n, d) = quotient_of q; k = int (bits (nat n)) - int (bits (nat d)) in
      if pow2 k \<le> q then k else k - 1)"

definition fl :: "rat \<Rightarrow> rat" where
  "fl q =
     (if q = 0 then 0
      else let k = exponent \<bar>q\<bar> - 52; m = of_int (round_half_even (\<bar>q\<bar> / pow2 k)) * pow2 k
           in if q < 0 then - m else m)"

text \<open>\<open>a / b\<close> of two ints.\<close>

definition int_div :: "int \<Rightarrow> int \<Rightarrow> rat" where
  "int_div a b = fl (of_int a / of_int b)"

lemma bits_bounds: "0 < n \<Longrightarrow> 2 ^ (bits n - 1) \<le> n \<and> n < 2 ^ bits n \<and> 0 < bits n"
proof (induction n rule: bits.induct)
  case (1 n)
  show ?case
  proof (cases "n div 2 = 0")
    case True
    with 1 have "n = 1" by simp
    then show ?thesis by (simp add: bits.simps)
  next
    case False
    with 1 have ih: "2 ^ (bits (n div 2) - 1) \<le> n div 2" "n div 2 < 2 ^ bits (n div 2)" "0 < bits (n div 2)"
      by auto
    have b: "bits n = Suc (bits (n div 2))" using 1 by (subst bits.simps) simp
    from ih(3) have "2 * 2 ^ (bits (n div 2) - 1) = (2 :: nat) ^ bits (n div 2)"
      by (cases "bits (n div 2)") simp_all
    moreover have "n = 2 * (n div 2) + n mod 2" "n mod 2 < 2" by simp_all
    ultimately have "2 ^ bits (n div 2) \<le> n" "n < 2 * 2 ^ bits (n div 2)" using ih by linarith+
    then show ?thesis by (simp add: b)
  qed
qed

lemma pow2_add: "pow2 (a + b) = pow2 a * pow2 b"
proof -
  have p: "pow2 k = 2 powi k" for k
    by (cases "0 \<le> k") (simp_all add: pow2_def power_int_def field_simps)
  show ?thesis by (simp add: p power_int_add)
qed

lemma pow2_pos [simp]: "0 < pow2 k"
  by (simp add: pow2_def)

lemma pow2_neq_0 [simp]: "pow2 k \<noteq> 0"
  using pow2_pos [of k] by linarith

lemma abs_pow2 [simp]: "\<bar>pow2 k\<bar> = pow2 k"
  by (simp add: less_imp_le)

lemma pow2_nat: "pow2 (int n) = 2 ^ n"
  by (simp add: pow2_def)

lemma pow2_diff: "pow2 (int a - int b) = 2 ^ a / 2 ^ b"
proof -
  have "pow2 (int a) = pow2 (int a - int b) * pow2 (int b)" by (simp flip: pow2_add)
  then show ?thesis by (simp add: pow2_nat field_simps)
qed

lemma exponent_bounds:
  assumes "0 < q"
  shows "pow2 (exponent q) \<le> q \<and> q < pow2 (exponent q + 1)"
proof -
  obtain n d where nd: "quotient_of q = (n, d)" by force
  have d: "0 < d" using quotient_of_denom_pos [OF nd] .
  have q: "q = of_int n / of_int d" using quotient_of_div [OF nd] .
  have n: "0 < n" using assms d unfolding q by (simp add: zero_less_divide_iff)
  let ?a = "bits (nat n)" and ?b = "bits (nat d)"
  let ?k = "int ?a - int ?b"
  have r: "rat_of_nat (nat m) < rat_of_nat (2 ^ bits (nat m)) \<and> rat_of_nat (2 ^ (bits (nat m) - 1)) \<le> rat_of_nat (nat m)"
    if "0 < m" for m :: int
    using bits_bounds [of "nat m"] that by (simp only: of_nat_less_iff of_nat_le_iff zero_less_nat_eq)
  have b: "rat_of_int n < 2 ^ ?a" "2 ^ (?b - 1) \<le> rat_of_int d"
       "2 ^ (?a - 1) \<le> rat_of_int n" "rat_of_int d < 2 ^ ?b" using r [OF n] r [OF d] n d by simp_all
  have ab: "0 < ?a" "0 < ?b" using bits_bounds n d by simp_all
  have up: "q < pow2 (?k + 1)"
  proof -
    have "q < 2 ^ ?a / 2 ^ (?b - 1)" unfolding q using b(1,2) n d by (intro frac_less) auto
    also have "\<dots> = pow2 (int ?a - int (?b - 1))" by (simp add: pow2_diff)
    also have "int ?a - int (?b - 1) = ?k + 1" using ab by simp
    finally show ?thesis .
  qed
  have lo: "pow2 (?k - 1) \<le> q"
  proof -
    have "?k - 1 = int (?a - 1) - int ?b" using ab by simp
    then have "pow2 (?k - 1) = 2 ^ (?a - 1) / 2 ^ ?b" by (simp only: pow2_diff)
    also have "\<dots> \<le> q" unfolding q using b(3,4) n d by (intro frac_le) auto
    finally show ?thesis .
  qed
  show ?thesis using up lo by (auto simp: exponent_def nd Let_def)
qed

lemma fl_0 [simp]: "fl 0 = 0"
  by (simp add: fl_def)

lemma fl_uminus: "fl (- q) = - fl q"
  by (simp add: fl_def Let_def)

text \<open>A rounded result is off by at most one part in \<open>2 ^ 53\<close>.\<close>

lemma fl_error: "\<bar>fl q - q\<bar> \<le> \<bar>q\<bar> / 2 ^ 53"
proof -
  have pos: "\<bar>fl p - p\<bar> \<le> p / 2 ^ 53" if p: "0 < p" for p
  proof -
    let ?k = "exponent p - 52"
    let ?m = "round_half_even (p / pow2 ?k)"
    have "fl p - p = (of_int ?m - p / pow2 ?k) * pow2 ?k"
      using p by (simp add: fl_def Let_def field_simps)
    then have "\<bar>fl p - p\<bar> = \<bar>of_int ?m - p / pow2 ?k\<bar> * pow2 ?k" by (simp add: abs_mult)
    also have "\<dots> \<le> 1 / 2 * pow2 ?k" by (intro mult_right_mono round_half_even_error) (simp add: less_imp_le)
    also have "\<dots> = pow2 (exponent p) / 2 ^ 53"
    proof -
      have "pow2 (exponent p) = pow2 ?k * pow2 52" by (simp flip: pow2_add)
      then show ?thesis by (simp add: pow2_def)
    qed
    also have "\<dots> \<le> p / 2 ^ 53" using exponent_bounds [OF p] by (simp add: divide_right_mono)
    finally show ?thesis .
  qed
  consider "q = 0" | "0 < q" | "0 < - q" by linarith
  then show ?thesis
  proof cases
    case 3
    from pos [OF 3] have "\<bar>- (fl q - q)\<bar> \<le> - q / 2 ^ 53" by (simp add: fl_uminus)
    with 3 show ?thesis by simp
  qed (use pos [of q] in simp_all)
qed

lemma fl_nonneg: "0 \<le> q \<Longrightarrow> 0 \<le> fl q"
proof -
  assume q: "0 \<le> q"
  have "0 \<le> round_half_even p" if "0 \<le> p" for p
    using round_half_even_mono [OF that] round_half_even_of_int [of 0] by simp
  with q show ?thesis by (simp add: fl_def Let_def less_imp_le)
qed

text \<open>An int below \<open>2 ^ 53\<close> is a double.\<close>

lemma fl_of_int: "\<bar>n\<bar> < 2 ^ 53 \<Longrightarrow> fl (of_int n) = of_int n"
proof -
  have pos: "fl (of_int m) = of_int m" if m: "0 < m" "m < 2 ^ 53" for m :: int
  proof -
    let ?q = "rat_of_int m"
    let ?e = "exponent ?q"
    have q: "0 < ?q" using m by simp
    note b = exponent_bounds [OF q]
    have "?e \<le> 52"
    proof (rule ccontr)
      assume "\<not> ?e \<le> 52"
      then have e: "?e = 53 + int (nat (?e - 53))" by simp
      have "pow2 ?e = 2 ^ 53 * 2 ^ nat (?e - 53)" by (subst e) (simp only: pow2_add pow2_nat, simp add: pow2_def)
      then have "(2 :: rat) ^ 53 * 1 \<le> pow2 ?e" by (simp only:) (intro mult_left_mono, auto)
      with b have "2 ^ 53 \<le> ?q" by simp
      then have "rat_of_int (2 ^ 53) \<le> ?q" by simp
      then have "2 ^ 53 \<le> m" by (simp only: of_int_le_iff)
      with m show False by simp
    qed
    then have k: "pow2 (?e - 52) = 1 / 2 ^ nat (52 - ?e)"
      using pow2_diff [of 0 "nat (52 - ?e)"] by simp
    have "?q / pow2 (?e - 52) = of_int (m * 2 ^ nat (52 - ?e))" by (simp add: k)
    then have "round_half_even (?q / pow2 (?e - 52)) = m * 2 ^ nat (52 - ?e)"
      by (simp only: round_half_even_of_int)
    then have "fl ?q = of_int (m * 2 ^ nat (52 - ?e)) * pow2 (?e - 52)"
      using q by (simp add: fl_def Let_def)
    then show ?thesis by (simp add: k)
  qed
  assume "\<bar>n\<bar> < 2 ^ 53"
  then consider "n = 0" | "0 < n" "n < 2 ^ 53" | "0 < - n" "- n < 2 ^ 53" by linarith
  then show ?thesis
  proof cases
    case 3
    from pos [OF 3] have "fl (- of_int n) = - of_int n" by simp
    then show ?thesis by (simp add: fl_uminus)
  qed (use pos in simp_all)
qed

section \<open>Medians\<close>

text \<open>\<open>statistics.median\<close>: the mean of two ints is one division, of two floats a sum and a halving.\<close>

definition median_with :: "('a :: linorder \<Rightarrow> rat) \<Rightarrow> ('a \<Rightarrow> 'a \<Rightarrow> rat) \<Rightarrow> 'a list \<Rightarrow> rat option" where
  "median_with one mean xs =
     (if xs = [] then None
      else let s = sort xs; n = length s in
           Some (if odd n then one (s ! (n div 2)) else mean (s ! (n div 2 - 1)) (s ! (n div 2))))"

definition median_or_none :: "int list \<Rightarrow> rat option" where
  "median_or_none xs = median_with (\<lambda>x. fl (of_int x)) (\<lambda>x y. int_div (x + y) 2) xs"

definition median_or_none_float :: "rat list \<Rightarrow> rat option" where
  "median_or_none_float xs = median_with (\<lambda>x. x) (\<lambda>x y. fl (fl (x + y) / 2)) xs"

section \<open>Decimal amounts\<close>

text \<open>
  The decimal exponent: the number of digits before the point, or minus the zeros after it.
\<close>

definition dec_digits :: "rat \<Rightarrow> int" where
  "dec_digits q =
     (if 1 \<le> q then int (length (decimal (nat \<lfloor>q\<rfloor>)))
      else let (n, d) = quotient_of q in
           - int (hd (filter (\<lambda>k. d \<le> n * 10 ^ Suc k) [0..<Suc (length (decimal (nat d)))])))"

definition pow10 :: "int \<Rightarrow> rat" where
  "pow10 k = (if 0 \<le> k then 10 ^ nat k else 1 / 10 ^ nat (- k))"

definition dec_round :: "rat \<Rightarrow> rat" where
  "dec_round q =
     (if q = 0 then 0
      else let k = dec_digits \<bar>q\<bar> - 28 in of_int (round_half_even (q / pow10 k)) * pow10 k)"

definition SATOSHIS_PER_BTC :: int where
  "SATOSHIS_PER_BTC = 100000000"

text \<open>\<open>int((value * SATOSHIS_PER_BTC).to_integral_value())\<close> of a Decimal amount.\<close>

fun btc_to_sats :: "rat option \<Rightarrow> int option" where
  "btc_to_sats None = None"
| "btc_to_sats (Some v) = Some (round_half_even (dec_round (v * of_int SATOSHIS_PER_BTC)))"

lemma btc_to_sats_None [simp]: "btc_to_sats v = None \<longleftrightarrow> v = None"
  by (cases v) simp_all

lemma dec_round_int:
  assumes "\<bar>n\<bar> < 10 ^ 28"
  shows "dec_round (of_int n) = of_int n"
proof (cases "n = 0")
  case True
  then show ?thesis by (simp add: dec_round_def)
next
  case False
  define d where "d = dec_digits \<bar>rat_of_int n\<bar>"
  have "1 \<le> \<bar>n\<bar>" using False by simp
  then have "1 \<le> rat_of_int \<bar>n\<bar>" by (simp only: of_int_1_le_iff)
  then have "dec_digits (rat_of_int \<bar>n\<bar>) = int (length (decimal (nat \<bar>n\<bar>)))"
    unfolding dec_digits_def by (simp only: if_True floor_of_int)
  then have d: "d = int (length (decimal (nat \<bar>n\<bar>)))" by (simp add: d_def)
  have "nat \<bar>n\<bar> < 10 ^ 28" using assms by (simp add: nat_less_iff)
  then have "length (decimal (nat \<bar>n\<bar>)) \<le> 28" by (rule length_decimal_le) simp
  then have k: "d - 28 \<le> 0" using d by simp
  then have p: "pow10 (d - 28) = 1 / 10 ^ nat (28 - d)" by (auto simp: pow10_def)
  have "rat_of_int n / pow10 (d - 28) = of_int (n * 10 ^ nat (28 - d))" by (simp add: p)
  then have "round_half_even (rat_of_int n / pow10 (d - 28)) = n * 10 ^ nat (28 - d)"
    by (simp only: round_half_even_of_int)
  then have "dec_round (of_int n) = of_int (n * 10 ^ nat (28 - d)) * pow10 (d - 28)"
    using False by (simp only: dec_round_def Let_def of_int_eq_0_iff if_False d_def)
  then show ?thesis by (simp add: p)
qed

lemma btc_to_sats_exact:
  "\<bar>n\<bar> < 10 ^ 28 \<Longrightarrow> btc_to_sats (Some (of_int n / of_int SATOSHIS_PER_BTC)) = Some n"
  using dec_round_int [of n] by (simp add: SATOSHIS_PER_BTC_def)

end
