(* ===== verification/Mining_Pools.thy ===== *)
theory Mining_Pools
  imports Prelude
begin

text \<open>
  btc_parser_app/rpc/mining_pools.py: matching a block to a mining pool by a tag in the coinbase
  script or, failing that, by a payout address. The parsed dataset is a list of pools whose
  missing or null fields are None; reading and parsing the JSON file is a parameter.
\<close>

section \<open>The dataset\<close>

record pool =
  p_id :: "int option"
  p_name :: "string option"
  p_link :: "string option"
  p_tags :: "string list option"
  p_addresses :: "string list option"

record pool_info =
  pool_id :: "int option"
  name :: string
  link :: "string option"

datatype match_method = Tag | Address | Unknown

record pool_match =
  m_pool_id :: "int option"
  m_pool_name :: "string option"
  m_pool_link :: "string option"
  match_method :: match_method

definition UNKNOWN_MATCH :: pool_match where
  "UNKNOWN_MATCH = \<lparr>m_pool_id = None, m_pool_name = None, m_pool_link = None, match_method = Unknown\<rparr>"

fun method_name :: "match_method \<Rightarrow> string" where
  "method_name Tag = ''tag''"
| "method_name Address = ''address''"
| "method_name Unknown = ''unknown''"

text \<open>\<open>x or default\<close> for texts and lists.\<close>

definition or_else :: "'a list option \<Rightarrow> 'a list \<Rightarrow> 'a list" where
  "or_else x d = (case x of None \<Rightarrow> d | Some v \<Rightarrow> if v = [] then d else v)"

section \<open>The coinbase text\<close>

definition hex_val :: "char \<Rightarrow> nat option" where
  "hex_val c =
     (let n = of_char c in
      if 48 \<le> n \<and> n \<le> 57 then Some (n - 48)
      else if 97 \<le> n \<and> n \<le> 102 then Some (n - 87)
      else if 65 \<le> n \<and> n \<le> 70 then Some (n - 55)
      else None)"

definition is_ascii_space :: "char \<Rightarrow> bool" where
  "is_ascii_space c \<longleftrightarrow> of_char c \<in> {9, 10, 11, 12, 13, 32 :: nat}"

text \<open>\<open>bytes.fromhex\<close> then \<open>decode("latin1")\<close>: pairs of digits, spaces between pairs skipped.\<close>

fun from_hex :: "string \<Rightarrow> string option" where
  "from_hex [] = Some []"
| "from_hex (c # cs) =
     (if is_ascii_space c then from_hex cs
      else case cs of [] \<Rightarrow> None
           | c' # cs' \<Rightarrow>
               (case (hex_val c, hex_val c') of
                  (Some a, Some b) \<Rightarrow> map_option (\<lambda>r. char_of (16 * a + b) # r) (from_hex cs')
                | _ \<Rightarrow> None))"

definition coinbase_hex_to_ascii :: "string option \<Rightarrow> string" where
  "coinbase_hex_to_ascii h =
     (case h of None \<Rightarrow> '''' | Some s \<Rightarrow> (case from_hex s of None \<Rightarrow> '''' | Some t \<Rightarrow> t))"

section \<open>The matcher\<close>

record pool_matcher =
  tag_index :: "(string \<times> pool_info) list"
  address_index :: "(string, pool_info) pydict"

definition info_of :: "pool \<Rightarrow> pool_info" where
  "info_of p = \<lparr>pool_id = p_id p, name = or_else (p_name p) ''Unknown'', link = p_link p\<rparr>"

definition add_pool :: "pool \<Rightarrow> pool_matcher \<Rightarrow> pool_matcher" where
  "add_pool p m =
     m\<lparr>tag_index := tag_index m @ map (\<lambda>t. (t, info_of p)) (filter (\<lambda>t. t \<noteq> '''') (or_else (p_tags p) [])),
       address_index := fold (\<lambda>a. AList.update a (info_of p))
         (filter (\<lambda>a. a \<noteq> '''') (or_else (p_addresses p) [])) (address_index m)\<rparr>"

definition matcher_init :: "pool list \<Rightarrow> pool_matcher" where
  "matcher_init pools = fold add_pool pools \<lparr>tag_index = [], address_index = []\<rparr>"

definition pool_count :: "pool_matcher \<Rightarrow> nat" where
  "pool_count m = length (remdups (map (pool_id \<circ> snd) (tag_index m) @ map (pool_id \<circ> snd) (address_index m)))"

definition found :: "pool_info \<Rightarrow> match_method \<Rightarrow> pool_match" where
  "found i how = \<lparr>m_pool_id = pool_id i, m_pool_name = Some (name i), m_pool_link = link i, match_method = how\<rparr>"

fun match_tag :: "string \<Rightarrow> (string \<times> pool_info) list \<Rightarrow> pool_match option" where
  "match_tag s [] = None"
| "match_tag s ((t, i) # ts) = (if text_in t s then Some (found i Tag) else match_tag s ts)"

fun match_address :: "pool_matcher \<Rightarrow> string list \<Rightarrow> pool_match option" where
  "match_address m [] = None"
| "match_address m (a # as) =
     (case map_of (address_index m) a of Some i \<Rightarrow> Some (found i Address) | None \<Rightarrow> match_address m as)"

definition matcher_match :: "pool_matcher \<Rightarrow> string option \<Rightarrow> string list \<Rightarrow> pool_match" where
  "matcher_match m coinbase_hex payout_addresses =
     (case match_tag (coinbase_hex_to_ascii coinbase_hex) (tag_index m) of
        Some r \<Rightarrow> r
      | None \<Rightarrow> (case match_address m payout_addresses of Some r \<Rightarrow> r | None \<Rightarrow> UNKNOWN_MATCH))"

text \<open>
  \<open>parse\<close> is \<open>json.loads\<close> of the file: an error, a list of pools, or another JSON value (None).
\<close>

definition from_file :: "(string \<Rightarrow> exn + pool list option) \<Rightarrow> string \<Rightarrow> exn + pool_matcher" where
  "from_file parse c =
     bindE (parse c) (\<lambda>v.
       case v of None \<Rightarrow> Inl (ValueError ''expected a JSON list of pool objects'')
       | Some pools \<Rightarrow> Inr (matcher_init pools))"

text \<open>None in place of a file that is missing; \<open>ValueError\<close> covers a malformed one.\<close>

definition load_pool_matcher :: "(string \<Rightarrow> exn + pool list option) \<Rightarrow> string option \<Rightarrow> exn + pool_matcher option" where
  "load_pool_matcher parse file =
     (case file of None \<Rightarrow> Inr None
      | Some c \<Rightarrow>
          (case from_file parse c of
             Inl (ValueError m) \<Rightarrow> Inr None
           | Inl e \<Rightarrow> Inl e
           | Inr m \<Rightarrow> Inr (Some m)))"

section \<open>Lemmas\<close>

lemma match_tag_None: "match_tag s ts = None \<Longrightarrow> (t, i) \<in> set ts \<Longrightarrow> \<not> text_in t s"
  by (induction s ts rule: match_tag.induct) (auto split: if_splits)

lemma match_tag_Some:
  "match_tag s ts = Some r \<Longrightarrow>
   \<exists>us t i vs. ts = us @ (t, i) # vs \<and> text_in t s \<and> (\<forall>p \<in> set us. \<not> text_in (fst p) s) \<and> r = found i Tag"
proof (induction s ts rule: match_tag.induct)
  case (1 s)
  then show ?case by simp
next
  case (2 s t i ts)
  show ?case
  proof (cases "text_in t s")
    case True
    with 2 show ?thesis by (intro exI [of _ "[]"] exI [of _ t] exI [of _ i] exI [of _ ts]) simp
  next
    case False
    with 2 obtain us t' i' vs where "ts = us @ (t', i') # vs" "text_in t' s"
      "\<forall>p \<in> set us. \<not> text_in (fst p) s" "r = found i' Tag" by auto
    with False show ?thesis by (intro exI [of _ "(t, i) # us"] exI [of _ t'] exI [of _ i'] exI [of _ vs]) simp
  qed
qed

lemma match_address_None: "match_address m as = None \<Longrightarrow> a \<in> set as \<Longrightarrow> map_of (address_index m) a = None"
  by (induction as) (auto split: option.splits)

lemma match_address_Some:
  "match_address m as = Some r \<Longrightarrow>
   \<exists>us a vs i. as = us @ a # vs \<and> map_of (address_index m) a = Some i \<and>
     (\<forall>u \<in> set us. map_of (address_index m) u = None) \<and> r = found i Address"
proof (induction as)
  case (Cons a as)
  show ?case
  proof (cases "map_of (address_index m) a")
    case None
    with Cons obtain us a' vs i where "as = us @ a' # vs" "map_of (address_index m) a' = Some i"
      "\<forall>u \<in> set us. map_of (address_index m) u = None" "r = found i Address" by auto
    with None show ?thesis
      by (intro exI [of _ "a # us"] exI [of _ a'] exI [of _ vs] exI [of _ i]) simp
  next
    case (Some i)
    with Cons.prems show ?thesis
      by (intro exI [of _ "[]"] exI [of _ a] exI [of _ as] exI [of _ i]) simp
  qed
qed simp

section \<open>Properties\<close>

text \<open>The declarative meaning of a match, by its method.\<close>

definition match_spec :: "pool_matcher \<Rightarrow> string \<Rightarrow> string list \<Rightarrow> pool_match \<Rightarrow> bool" where
  "match_spec m s as r \<longleftrightarrow>
     (if \<exists>p \<in> set (tag_index m). text_in (fst p) s
      then \<exists>us t i vs. tag_index m = us @ (t, i) # vs \<and> text_in t s \<and> (\<forall>p \<in> set us. \<not> text_in (fst p) s)
             \<and> r = found i Tag
      else if \<exists>a \<in> set as. map_of (address_index m) a \<noteq> None
      then \<exists>us a vs i. as = us @ a # vs \<and> map_of (address_index m) a = Some i
             \<and> (\<forall>u \<in> set us. map_of (address_index m) u = None) \<and> r = found i Address
      else r = UNKNOWN_MATCH)"

text \<open>
  A coinbase tag always beats a payout address, and the order of the dataset decides: the
  match is by the first tag of the index that occurs in the decoded coinbase script; only when
  none does is it by the first payout address the index knows; and it is unknown exactly when
  there is neither.
\<close>

theorem match_prefers_tags:
  "match_spec m (coinbase_hex_to_ascii h) as (matcher_match m h as)"
proof (cases "match_tag (coinbase_hex_to_ascii h) (tag_index m)")
  case (Some r)
  then have "matcher_match m h as = r" by (simp add: matcher_match_def)
  moreover obtain us t i vs where u: "tag_index m = us @ (t, i) # vs" "text_in t (coinbase_hex_to_ascii h)"
    "\<forall>p \<in> set us. \<not> text_in (fst p) (coinbase_hex_to_ascii h)" "r = found i Tag"
    using match_tag_Some [OF Some] by blast
  moreover from u have "\<exists>p \<in> set (tag_index m). text_in (fst p) (coinbase_hex_to_ascii h)" by auto
  ultimately show ?thesis unfolding match_spec_def by auto
next
  case None
  then have t: "\<not> (\<exists>p \<in> set (tag_index m). text_in (fst p) (coinbase_hex_to_ascii h))"
    using match_tag_None [OF None] by force
  show ?thesis
  proof (cases "match_address m as")
    case (Some r)
    with None have "matcher_match m h as = r" by (simp add: matcher_match_def)
    with t match_address_Some [OF Some] show ?thesis by (auto simp: match_spec_def)
  next
    case no: None
    with None have "matcher_match m h as = UNKNOWN_MATCH" by (simp add: matcher_match_def)
    with t match_address_None [OF no] show ?thesis by (auto simp: match_spec_def)
  qed
qed

end
