(* ===== verification/Block_Parser.thy ===== *)
theory Block_Parser
  imports Numbers Mining_Pools
begin

text \<open>
  btc_parser_app/rpc/block_parser.py: a block at verbosity 3 becomes one block row, a row per
  transaction, per input and per output. The JSON objects are records whose missing or null
  fields are None and whose amounts are Decimals; \<open>nums\<close> holds the two float operations whose
  result is not fixed by correct rounding: \<open>math.log2\<close> and the sum of a list of floats.
\<close>

section \<open>The payload\<close>

record script_pub_key =
  spk_hex :: "string option"
  spk_type :: "string option"
  spk_address :: "string option"

record prevout =
  po_generated :: "bool option"
  po_value :: "rat option"
  po_height :: "int option"
  po_script :: "script_pub_key option"

record vin =
  vin_txid :: "string option"
  vin_vout :: "int option"
  vin_coinbase :: "string option"
  vin_script_sig :: "string option"
  vin_witness :: "string list option"
  vin_sequence :: "int option"
  vin_prevout :: "prevout option"

record vout =
  vout_value :: "rat option"
  vout_script :: "script_pub_key option"

record tx =
  tx_txid :: "string option"
  tx_hash :: "string option"
  tx_version :: "int option"
  tx_size :: "int option"
  tx_vsize :: "int option"
  tx_weight :: "int option"
  tx_locktime :: "int option"
  tx_fee :: "rat option"
  tx_vin :: "vin list option"
  tx_vout :: "vout list option"

record block =
  bk_hash :: "string option"
  bk_height :: "int option"
  bk_version :: "int option"
  bk_versionHex :: "string option"
  bk_merkleroot :: "string option"
  bk_time :: "int option"
  bk_mediantime :: "int option"
  bk_nonce :: "int option"
  bk_bits :: "string option"
  bk_target :: "string option"
  bk_difficulty :: "rat option"
  bk_chainwork :: "string option"
  bk_nTx :: "int option"
  bk_previousblockhash :: "string option"
  bk_strippedsize :: "int option"
  bk_size :: "int option"
  bk_weight :: "int option"
  bk_tx :: "tx list option"

text \<open>The fields of \<open>RpcConfig\<close> the parser reads.\<close>

record parse_config =
  blocks_per_day :: int
  max_block_weight :: int
  halving_interval_blocks :: int
  initial_subsidy_sats :: int

record nums =
  log2 :: "int \<Rightarrow> rat"
  fsum :: "rat list \<Rightarrow> rat"

section \<open>Helpers\<close>

definition BIP125_RBF_SEQUENCE_THRESHOLD :: int where
  "BIP125_RBF_SEQUENCE_THRESHOLD = 4294967294"

definition BIP68_DISABLE_FLAG :: nat where
  "BIP68_DISABLE_FLAG = 31"

definition BIP68_TYPE_FLAG :: nat where
  "BIP68_TYPE_FLAG = 22"

definition BIP68_VALUE_MASK :: int where
  "BIP68_VALUE_MASK = 65535"

definition SCRIPT_TYPES :: "string list" where
  "SCRIPT_TYPES = [''nonstandard'', ''pubkey'', ''pubkeyhash'', ''scripthash'', ''multisig'',
     ''nulldata'', ''witness_v0_keyhash'', ''witness_v0_scripthash'', ''witness_v1_taproot'',
     ''witness_unknown'', ''anchor'', ''other'']"

fun hex_data_bytes :: "string option \<Rightarrow> int" where
  "hex_data_bytes None = 0"
| "hex_data_bytes (Some s) = int (length s div 2)"

fun normalized_script_type :: "string option \<Rightarrow> string" where
  "normalized_script_type None = ''other''"
| "normalized_script_type (Some t) = (if t \<in> set SCRIPT_TYPES \<and> t \<noteq> ''other'' then t else ''other'')"

definition type_key :: "string \<Rightarrow> string \<Rightarrow> string" where
  "type_key prefix t = prefix @ ''_'' @ t @ ''_count''"

type_synonym counts = "(string, int) pydict"

definition init_script_type_counts :: "string \<Rightarrow> counts" where
  "init_script_type_counts prefix = map (\<lambda>t. (type_key prefix t, 0)) SCRIPT_TYPES"

text \<open>\<open>counts[key] += n\<close> for a key that is present.\<close>

definition bump :: "string \<Rightarrow> int \<Rightarrow> counts \<Rightarrow> counts" where
  "bump k n d = map (\<lambda>(k', m). (k', if k' = k then m + n else m)) d"

definition int_or_0 :: "int option \<Rightarrow> int" where
  "int_or_0 x = (case x of None \<Rightarrow> 0 | Some n \<Rightarrow> n)"

datatype locktime_type = Blocks | Time

fun locktime_name :: "locktime_type \<Rightarrow> string" where
  "locktime_name Blocks = ''blocks''"
| "locktime_name Time = ''time''"

text \<open>The bit tests of Python's unbounded ints: bit \<open>n\<close> of \<open>s\<close>, and the low 16 bits.\<close>

definition decode_sequence ::
    "int option \<Rightarrow> int option \<Rightarrow> bool \<Rightarrow> bool \<times> locktime_type option \<times> int option" where
  "decode_sequence sequence version is_coinbase =
     (case sequence of
        None \<Rightarrow> (False, None, None)
      | Some seq \<Rightarrow>
          let signals_rbf = (\<not> is_coinbase \<and> seq < BIP125_RBF_SEQUENCE_THRESHOLD) in
          if is_coinbase \<or> int_or_0 version < 2 \<or> bit seq BIP68_DISABLE_FLAG
          then (signals_rbf, None, None)
          else (signals_rbf, Some (if bit seq BIP68_TYPE_FLAG then Time else Blocks),
                Some (and seq BIP68_VALUE_MASK)))"

text \<open>The interval is validated to be at least 1 (config.py); 0 raises.\<close>

definition block_subsidy_sats :: "int \<Rightarrow> parse_config \<Rightarrow> exn + int" where
  "block_subsidy_sats height c =
     (if halving_interval_blocks c = 0 then Inl ZeroDivisionError
      else let halvings = height div halving_interval_blocks c in
           if halvings \<ge> 64 then Inr 0
           else if halvings < 0 then Inl (ValueError ''negative shift count'')
           else Inr (drop_bit (nat halvings) (initial_subsidy_sats c)))"

section \<open>Transactions\<close>

text \<open>Where a transaction stands: the arguments of \<open>aggregate_transaction\<close> and what it derives.\<close>

record tx_ctx =
  cx_block_hash :: string
  cx_block_height :: int
  cx_block_time :: int
  cx_tx_index :: int
  cx_txid :: "string option"
  cx_is_coinbase :: bool
  cx_version :: "int option"

text \<open>What the loop over the inputs accumulates.\<close>

record vin_acc =
  vin_type_counts :: counts
  input_values_sats :: "int list"
  input_ages_blocks :: "int list"
  input_age_value_pairs :: "(int \<times> int) list"
  prevout_value_known_count :: int
  prevout_height_known_count :: int
  generated_input_count :: int
  witness_input_count :: int
  witness_item_count :: int
  witness_data_bytes :: int
  scriptsig_bytes :: int
  signals_rbf :: bool
  input_events :: "row list"

definition vin_acc0 :: vin_acc where
  "vin_acc0 = \<lparr>vin_type_counts = init_script_type_counts ''vin_type'', input_values_sats = [],
     input_ages_blocks = [], input_age_value_pairs = [], prevout_value_known_count = 0,
     prevout_height_known_count = 0, generated_input_count = 0, witness_input_count = 0,
     witness_item_count = 0, witness_data_bytes = 0, scriptsig_bytes = 0, signals_rbf = False,
     input_events = []\<rparr>"

definition no_script :: script_pub_key where
  "no_script = \<lparr>spk_hex = None, spk_type = None, spk_address = None\<rparr>"

definition script_or_empty :: "script_pub_key option \<Rightarrow> script_pub_key" where
  "script_or_empty s = (case s of None \<Rightarrow> no_script | Some k \<Rightarrow> k)"

definition prevout_age :: "int \<Rightarrow> prevout \<Rightarrow> int option" where
  "prevout_age block_height p = map_option (\<lambda>h. max 0 (block_height - h)) (po_height p)"

definition prevout_type :: "prevout \<Rightarrow> string" where
  "prevout_type p = normalized_script_type (spk_type (script_or_empty (po_script p)))"

text \<open>The part of an iteration under \<open>isinstance(prevout, dict)\<close>.\<close>

definition prevout_step :: "tx_ctx \<Rightarrow> prevout \<Rightarrow> vin_acc \<Rightarrow> vin_acc" where
  "prevout_step cx p acc =
     (let value = btc_to_sats (po_value p); age = prevout_age (cx_block_height cx) p;
          a1 = (if po_generated p = Some True then acc\<lparr>generated_input_count := generated_input_count acc + 1\<rparr> else acc);
          a2 = (case value of None \<Rightarrow> a1
                | Some v \<Rightarrow> a1\<lparr>prevout_value_known_count := prevout_value_known_count a1 + 1,
                              input_values_sats := input_values_sats a1 @ [v]\<rparr>);
          a3 = (case age of None \<Rightarrow> a2
                | Some a \<Rightarrow>
                    let b = a2\<lparr>prevout_height_known_count := prevout_height_known_count a2 + 1,
                               input_ages_blocks := input_ages_blocks a2 @ [a]\<rparr>
                    in (case value of None \<Rightarrow> b
                        | Some v \<Rightarrow> b\<lparr>input_age_value_pairs := input_age_value_pairs b @ [(a, v)]\<rparr>))
      in a3\<lparr>vin_type_counts := bump (type_key ''vin_type'' (prevout_type p)) 1 (vin_type_counts a3)\<rparr>)"

definition witness_of :: "vin \<Rightarrow> string list" where
  "witness_of v = (case vin_witness v of None \<Rightarrow> [] | Some w \<Rightarrow> w)"

definition witness_bytes :: "vin \<Rightarrow> int" where
  "witness_bytes v = sum_list (map (hex_data_bytes \<circ> Some) (witness_of v))"

definition input_event :: "tx_ctx \<Rightarrow> nat \<Rightarrow> vin \<Rightarrow> row" where
  "input_event cx input_index v =
     (let p = vin_prevout v; via = (\<lambda>f. case p of None \<Rightarrow> CNull | Some q \<Rightarrow> f q);
          (rbf, lt_type, lt_value) = decode_sequence (vin_sequence v) (cx_version cx) (cx_is_coinbase cx)
      in [(''block_hash'', CStr (cx_block_hash cx)),
          (''block_height'', CInt (cx_block_height cx)),
          (''block_time'', CInt (cx_block_time cx)),
          (''tx_index'', CInt (cx_tx_index cx)),
          (''txid'', opt_cell CStr (cx_txid cx)),
          (''is_coinbase'', CBool (cx_is_coinbase cx)),
          (''input_index'', CInt (int input_index)),
          (''prevout_txid'', opt_cell CStr (vin_txid v)),
          (''prevout_vout'', opt_cell CInt (vin_vout v)),
          (''value_sats'', via (\<lambda>q. opt_cell CInt (btc_to_sats (po_value q)))),
          (''prevout_height'', via (\<lambda>q. opt_cell CInt (po_height q))),
          (''input_age_blocks'', via (\<lambda>q. opt_cell CInt (prevout_age (cx_block_height cx) q))),
          (''prevout_generated'', via (\<lambda>q. opt_cell CBool (po_generated q))),
          (''prevout_type'', via (\<lambda>q. CStr (prevout_type q))),
          (''prevout_address'', via (\<lambda>q. opt_cell CStr (spk_address (script_or_empty (po_script q))))),
          (''scriptsig_bytes'', CInt (hex_data_bytes (vin_script_sig v))),
          (''coinbase_hex'', opt_cell CStr (vin_coinbase v)),
          (''witness_item_count'', CInt (int (length (witness_of v)))),
          (''witness_data_bytes'', CInt (witness_bytes v)),
          (''sequence'', opt_cell CInt (vin_sequence v)),
          (''signals_rbf'', CBool rbf),
          (''relative_locktime_type'', opt_cell (CStr \<circ> locktime_name) lt_type),
          (''relative_locktime_value'', opt_cell CInt lt_value)])"

text \<open>One iteration of the loop over the inputs.\<close>

definition vin_step :: "tx_ctx \<Rightarrow> nat \<times> vin \<Rightarrow> vin_acc \<Rightarrow> vin_acc" where
  "vin_step cx iv acc =
     (let (i, v) = iv;
          a1 = (if witness_of v \<noteq> []
                then acc\<lparr>witness_input_count := witness_input_count acc + 1,
                         witness_item_count := witness_item_count acc + int (length (witness_of v)),
                         witness_data_bytes := witness_data_bytes acc + witness_bytes v\<rparr>
                else acc);
          a2 = a1\<lparr>scriptsig_bytes := scriptsig_bytes a1 + hex_data_bytes (vin_script_sig v)\<rparr>;
          a3 = (if fst (decode_sequence (vin_sequence v) (cx_version cx) (cx_is_coinbase cx))
                then a2\<lparr>signals_rbf := True\<rparr> else a2);
          a4 = (case vin_prevout v of None \<Rightarrow> a3 | Some p \<Rightarrow> prevout_step cx p a3)
      in a4\<lparr>input_events := input_events a4 @ [input_event cx i v]\<rparr>)"

definition enumerate0 :: "'a list \<Rightarrow> (nat \<times> 'a) list" where
  "enumerate0 xs = zip [0..<length xs] xs"

definition run_vins :: "tx_ctx \<Rightarrow> vin list \<Rightarrow> vin_acc" where
  "run_vins cx vins = fold (vin_step cx) (enumerate0 vins) vin_acc0"

text \<open>The loop over the outputs.\<close>

record vout_acc =
  vout_type_counts :: counts
  output_values_sats :: "int list"
  scriptpubkey_bytes :: int
  op_return_count :: int
  op_return_script_bytes :: int
  zero_value_output_count :: int
  coinbase_output_addresses :: "string list"
  output_events :: "row list"

definition vout_acc0 :: vout_acc where
  "vout_acc0 = \<lparr>vout_type_counts = init_script_type_counts ''vout_type'', output_values_sats = [],
     scriptpubkey_bytes = 0, op_return_count = 0, op_return_script_bytes = 0, zero_value_output_count = 0,
     coinbase_output_addresses = [], output_events = []\<rparr>"

definition vout_script_type :: "vout \<Rightarrow> string" where
  "vout_script_type v = normalized_script_type (spk_type (script_or_empty (vout_script v)))"

definition vout_script_bytes :: "vout \<Rightarrow> int" where
  "vout_script_bytes v = hex_data_bytes (spk_hex (script_or_empty (vout_script v)))"

definition output_event :: "tx_ctx \<Rightarrow> nat \<Rightarrow> vout \<Rightarrow> row" where
  "output_event cx output_index v =
     [(''block_hash'', CStr (cx_block_hash cx)),
      (''block_height'', CInt (cx_block_height cx)),
      (''block_time'', CInt (cx_block_time cx)),
      (''tx_index'', CInt (cx_tx_index cx)),
      (''txid'', opt_cell CStr (cx_txid cx)),
      (''is_coinbase'', CBool (cx_is_coinbase cx)),
      (''output_index'', CInt (int output_index)),
      (''value_sats'', opt_cell CInt (btc_to_sats (vout_value v))),
      (''script_type'', CStr (vout_script_type v)),
      (''script_bytes'', CInt (vout_script_bytes v)),
      (''address'', opt_cell CStr (spk_address (script_or_empty (vout_script v)))),
      (''is_op_return'', CBool (vout_script_type v = ''nulldata''))]"

definition vout_step :: "tx_ctx \<Rightarrow> nat \<times> vout \<Rightarrow> vout_acc \<Rightarrow> vout_acc" where
  "vout_step cx iv acc =
     (let (i, v) = iv; value = btc_to_sats (vout_value v);
          address = spk_address (script_or_empty (vout_script v));
          a1 = (case value of None \<Rightarrow> acc
                | Some s \<Rightarrow>
                    let b = acc\<lparr>output_values_sats := output_values_sats acc @ [s]\<rparr>
                    in if s = 0 then b\<lparr>zero_value_output_count := zero_value_output_count b + 1\<rparr> else b);
          a2 = a1\<lparr>scriptpubkey_bytes := scriptpubkey_bytes a1 + vout_script_bytes v,
                  vout_type_counts := bump (type_key ''vout_type'' (vout_script_type v)) 1 (vout_type_counts a1)\<rparr>;
          a3 = (if vout_script_type v = ''nulldata''
                then a2\<lparr>op_return_count := op_return_count a2 + 1,
                        op_return_script_bytes := op_return_script_bytes a2 + vout_script_bytes v\<rparr>
                else a2);
          a4 = (case address of
                  Some a \<Rightarrow> if cx_is_coinbase cx \<and> a \<noteq> ''''
                            then a3\<lparr>coinbase_output_addresses := coinbase_output_addresses a3 @ [a]\<rparr> else a3
                | None \<Rightarrow> a3)
      in a4\<lparr>output_events := output_events a4 @ [output_event cx i v]\<rparr>)"

definition run_vouts :: "tx_ctx \<Rightarrow> vout list \<Rightarrow> vout_acc" where
  "run_vouts cx vouts = fold (vout_step cx) (enumerate0 vouts) vout_acc0"

section \<open>The transaction row\<close>

text \<open>
  The scalars of a transaction. The code reads them back from the row it built; here the row is
  built from the record (\<open>tx_event\<close>).
\<close>

record tx_stats =
  ts_is_coinbase :: bool
  ts_fee_sats :: "int option"
  ts_fee_source :: string
  ts_fee_rate_sat_vb :: "rat option"
  ts_input_value_sats :: "int option"
  ts_output_value_sats :: int
  ts_vsize :: "int option"
  ts_vin_count :: int
  ts_vout_count :: int
  ts_prevout_value_known_count :: int
  ts_coin_days_destroyed_btc :: rat
  ts_witness_input_count :: int
  ts_witness_item_count :: int
  ts_witness_data_bytes :: int
  ts_scriptsig_bytes :: int
  ts_scriptpubkey_bytes :: int
  ts_signals_rbf :: bool
  ts_op_return_count :: int
  ts_op_return_script_bytes :: int
  ts_vin_types :: counts
  ts_vout_types :: counts

definition vins_of :: "tx \<Rightarrow> vin list" where
  "vins_of t = (case tx_vin t of None \<Rightarrow> [] | Some v \<Rightarrow> v)"

definition vouts_of :: "tx \<Rightarrow> vout list" where
  "vouts_of t = (case tx_vout t of None \<Rightarrow> [] | Some v \<Rightarrow> v)"

definition is_coinbase_tx :: "tx \<Rightarrow> bool" where
  "is_coinbase_tx t = (case vins_of t of [] \<Rightarrow> False | v # _ \<Rightarrow> vin_coinbase v \<noteq> None)"

definition tx_fee_sats :: "bool \<Rightarrow> tx \<Rightarrow> vin_acc \<Rightarrow> vout_acc \<Rightarrow> int option \<times> string" where
  "tx_fee_sats is_coinbase t vi vo =
     (if is_coinbase then (Some 0, ''coinbase'')
      else case tx_fee t of
        Some f \<Rightarrow> (btc_to_sats (Some f), ''rpc'')
      | None \<Rightarrow>
          if is_coinbase \<or> prevout_value_known_count vi = int (length (vins_of t))
          then (Some (sum_list (input_values_sats vi) - sum_list (output_values_sats vo)), ''derived'')
          else (None, ''unavailable''))"

definition fee_rate :: "bool \<Rightarrow> int option \<Rightarrow> int \<Rightarrow> rat option" where
  "fee_rate is_coinbase fee vsize =
     (case fee of Some f \<Rightarrow> if vsize > 0 \<and> \<not> is_coinbase then Some (int_div f vsize) else None | None \<Rightarrow> None)"

definition avg :: "int list \<Rightarrow> rat option" where
  "avg xs = (if xs = [] then None else Some (int_div (sum_list xs) (int (length xs))))"

definition weighted_age :: "(int \<times> int) list \<Rightarrow> rat option" where
  "weighted_age ps =
     (let den = sum_list (map snd ps) in
      if den > 0 then Some (int_div (sum_list (map (\<lambda>(a, v). a * v) ps)) den) else None)"

definition coin_days :: "(int \<times> int) list \<Rightarrow> parse_config \<Rightarrow> exn + rat" where
  "coin_days ps c =
     (if ps = [] then Inr 0
      else if blocks_per_day c = 0 then Inl ZeroDivisionError
      else Inr (fl (int_div (sum_list (map (\<lambda>(a, v). a * v) ps)) (blocks_per_day c) / of_int SATOSHIS_PER_BTC)))"

definition min_opt :: "int list \<Rightarrow> int option" where
  "min_opt xs = (case xs of [] \<Rightarrow> None | x # r \<Rightarrow> Some (fold min r x))"

definition max_opt :: "'a :: linorder list \<Rightarrow> 'a option" where
  "max_opt xs = (case xs of [] \<Rightarrow> None | x # r \<Rightarrow> Some (fold max r x))"

definition count_cells :: "counts \<Rightarrow> row" where
  "count_cells d = map (\<lambda>(k, n). (k, CInt n)) d"

definition tx_event :: "tx_ctx \<Rightarrow> tx \<Rightarrow> vin_acc \<Rightarrow> vout_acc \<Rightarrow> tx_stats \<Rightarrow> row" where
  "tx_event cx t vi vo st =
     [(''block_hash'', CStr (cx_block_hash cx)),
      (''block_height'', CInt (cx_block_height cx)),
      (''block_time'', CInt (cx_block_time cx)),
      (''tx_index'', CInt (cx_tx_index cx)),
      (''txid'', opt_cell CStr (tx_txid t)),
      (''wtxid'', if tx_hash t \<noteq> tx_txid t then opt_cell CStr (tx_hash t) else CNull),
      (''is_coinbase'', CBool (ts_is_coinbase st)),
      (''version'', opt_cell CInt (tx_version t)),
      (''size'', opt_cell CInt (tx_size t)),
      (''vsize'', opt_cell CInt (ts_vsize st)),
      (''weight'', opt_cell CInt (tx_weight t)),
      (''locktime'', opt_cell CInt (tx_locktime t)),
      (''fee_sats'', opt_cell CInt (ts_fee_sats st)),
      (''fee_source'', CStr (ts_fee_source st)),
      (''fee_rate_sat_vb'', opt_cell CFloat (ts_fee_rate_sat_vb st)),
      (''input_value_sats'', opt_cell CInt (ts_input_value_sats st)),
      (''output_value_sats'', CInt (ts_output_value_sats st)),
      (''output_value_min_sats'', opt_cell CInt (min_opt (output_values_sats vo))),
      (''output_value_max_sats'', opt_cell CInt (max_opt (output_values_sats vo))),
      (''output_value_avg_sats'', opt_cell CFloat (avg (output_values_sats vo))),
      (''vin_count'', CInt (ts_vin_count st)),
      (''vout_count'', CInt (ts_vout_count st)),
      (''prevout_value_known_count'', CInt (ts_prevout_value_known_count st)),
      (''prevout_height_known_count'', CInt (prevout_height_known_count vi)),
      (''generated_input_count'', CInt (generated_input_count vi)),
      (''input_age_min_blocks'', opt_cell CInt (min_opt (input_ages_blocks vi))),
      (''input_age_max_blocks'', opt_cell CInt (max_opt (input_ages_blocks vi))),
      (''input_age_avg_blocks'', opt_cell CFloat (avg (input_ages_blocks vi))),
      (''input_age_value_weighted_avg_blocks'', opt_cell CFloat (weighted_age (input_age_value_pairs vi))),
      (''coin_days_destroyed_btc'', CFloat (ts_coin_days_destroyed_btc st)),
      (''witness_input_count'', CInt (ts_witness_input_count st)),
      (''witness_item_count'', CInt (ts_witness_item_count st)),
      (''witness_data_bytes'', CInt (ts_witness_data_bytes st)),
      (''scriptsig_bytes'', CInt (ts_scriptsig_bytes st)),
      (''scriptpubkey_bytes'', CInt (ts_scriptpubkey_bytes st)),
      (''signals_rbf'', CBool (ts_signals_rbf st)),
      (''op_return_count'', CInt (ts_op_return_count st)),
      (''op_return_script_bytes'', CInt (ts_op_return_script_bytes st)),
      (''zero_value_output_count'', CInt (zero_value_output_count vo))]
     @ count_cells (ts_vin_types st) @ count_cells (ts_vout_types st)"

record tx_aggregate =
  ta_event :: row
  ta_stats :: tx_stats
  ta_script_sig :: "string option"
  ta_addresses :: "string list"
  ta_inputs :: "row list"
  ta_outputs :: "row list"

definition tx_ctx_of :: "string \<Rightarrow> int \<Rightarrow> int \<Rightarrow> int \<Rightarrow> tx \<Rightarrow> tx_ctx" where
  "tx_ctx_of block_hash block_height block_time tx_index t =
     \<lparr>cx_block_hash = block_hash, cx_block_height = block_height, cx_block_time = block_time,
      cx_tx_index = tx_index, cx_txid = tx_txid t, cx_is_coinbase = is_coinbase_tx t,
      cx_version = tx_version t\<rparr>"

definition stats_of :: "tx \<Rightarrow> vin_acc \<Rightarrow> vout_acc \<Rightarrow> rat \<Rightarrow> tx_stats" where
  "stats_of t vi vo cdd =
     (let cb = is_coinbase_tx t; (fee, source) = tx_fee_sats cb t vi vo in
      \<lparr>ts_is_coinbase = cb, ts_fee_sats = fee, ts_fee_source = source,
       ts_fee_rate_sat_vb = fee_rate cb fee (int_or_0 (tx_vsize t)),
       ts_input_value_sats = (if cb then None else Some (sum_list (input_values_sats vi))),
       ts_output_value_sats = sum_list (output_values_sats vo), ts_vsize = tx_vsize t,
       ts_vin_count = int (length (vins_of t)), ts_vout_count = int (length (vouts_of t)),
       ts_prevout_value_known_count = prevout_value_known_count vi,
       ts_coin_days_destroyed_btc = cdd, ts_witness_input_count = witness_input_count vi,
       ts_witness_item_count = witness_item_count vi, ts_witness_data_bytes = witness_data_bytes vi,
       ts_scriptsig_bytes = scriptsig_bytes vi, ts_scriptpubkey_bytes = scriptpubkey_bytes vo,
       ts_signals_rbf = signals_rbf vi, ts_op_return_count = op_return_count vo,
       ts_op_return_script_bytes = op_return_script_bytes vo,
       ts_vin_types = vin_type_counts vi, ts_vout_types = vout_type_counts vo\<rparr>)"

definition aggregate_transaction ::
    "parse_config \<Rightarrow> string \<Rightarrow> int \<Rightarrow> int \<Rightarrow> int \<Rightarrow> tx \<Rightarrow> exn + tx_aggregate" where
  "aggregate_transaction c block_hash block_height block_time tx_index t =
     (let cx = tx_ctx_of block_hash block_height block_time tx_index t;
          vi = run_vins cx (vins_of t);
          vo = run_vouts cx (vouts_of t)
      in bindE (coin_days (input_age_value_pairs vi) c) (\<lambda>cdd.
           let st = stats_of t vi vo cdd in
           Inr \<lparr>ta_event = tx_event cx t vi vo st, ta_stats = st,
                ta_script_sig = (if is_coinbase_tx t then vin_coinbase (hd (vins_of t)) else None),
                ta_addresses = coinbase_output_addresses vo,
                ta_inputs = input_events vi, ta_outputs = output_events vo\<rparr>))"

section \<open>The block row\<close>

definition match_mining_pool :: "string option \<Rightarrow> string list \<Rightarrow> pool_matcher option \<Rightarrow> pool_match" where
  "match_mining_pool h addresses m =
     (case m of None \<Rightarrow> UNKNOWN_MATCH | Some pm \<Rightarrow> matcher_match pm h addresses)"

text \<open>The pass over all transactions.\<close>

record all_acc =
  aa_total_vin_count :: int
  aa_total_vout_count :: int
  aa_coin_days_destroyed_btc :: rat
  aa_vsize_values :: "int list"
  aa_segwit_tx_count :: int
  aa_taproot_output_tx_count :: int
  aa_op_return_tx_count :: int
  aa_op_return_output_count :: int
  aa_op_return_script_bytes :: int
  aa_witness_input_count :: int
  aa_witness_item_count :: int
  aa_witness_data_bytes :: int
  aa_scriptsig_bytes :: int
  aa_scriptpubkey_bytes :: int

definition all_acc0 :: all_acc where
  "all_acc0 = \<lparr>aa_total_vin_count = 0, aa_total_vout_count = 0, aa_coin_days_destroyed_btc = 0,
     aa_vsize_values = [], aa_segwit_tx_count = 0, aa_taproot_output_tx_count = 0,
     aa_op_return_tx_count = 0, aa_op_return_output_count = 0, aa_op_return_script_bytes = 0,
     aa_witness_input_count = 0, aa_witness_item_count = 0, aa_witness_data_bytes = 0,
     aa_scriptsig_bytes = 0, aa_scriptpubkey_bytes = 0\<rparr>"

definition count_of :: "string \<Rightarrow> counts \<Rightarrow> int" where
  "count_of k d = (case map_of d k of None \<Rightarrow> 0 | Some n \<Rightarrow> n)"

definition tick :: "bool \<Rightarrow> int" where
  "tick b = (if b then 1 else 0)"

definition all_step :: "tx_stats \<Rightarrow> all_acc \<Rightarrow> all_acc" where
  "all_step t a =
     \<lparr>aa_total_vin_count = aa_total_vin_count a + ts_vin_count t,
      aa_total_vout_count = aa_total_vout_count a + ts_vout_count t,
      aa_coin_days_destroyed_btc = fl (aa_coin_days_destroyed_btc a + ts_coin_days_destroyed_btc t),
      aa_vsize_values = aa_vsize_values a @ [int_or_0 (ts_vsize t)],
      aa_segwit_tx_count = aa_segwit_tx_count a + tick (ts_witness_input_count t > 0),
      aa_taproot_output_tx_count = aa_taproot_output_tx_count a
        + tick (count_of (type_key ''vout_type'' ''witness_v1_taproot'') (ts_vout_types t) > 0),
      aa_op_return_tx_count = aa_op_return_tx_count a + tick (ts_op_return_count t > 0),
      aa_op_return_output_count = aa_op_return_output_count a + ts_op_return_count t,
      aa_op_return_script_bytes = aa_op_return_script_bytes a + ts_op_return_script_bytes t,
      aa_witness_input_count = aa_witness_input_count a + ts_witness_input_count t,
      aa_witness_item_count = aa_witness_item_count a + ts_witness_item_count t,
      aa_witness_data_bytes = aa_witness_data_bytes a + ts_witness_data_bytes t,
      aa_scriptsig_bytes = aa_scriptsig_bytes a + ts_scriptsig_bytes t,
      aa_scriptpubkey_bytes = aa_scriptpubkey_bytes a + ts_scriptpubkey_bytes t\<rparr>"

text \<open>The pass over the transactions that are not a coinbase.\<close>

record regular_acc =
  ra_known_fees :: "int list"
  ra_known_fee_rates :: "rat list"
  ra_total_regular_vsize :: int
  ra_rbf_tx_count :: int
  ra_taproot_input_tx_count :: int
  ra_input_value_complete_tx_count :: int
  ra_regular_input_value_sats :: int
  ra_regular_output_value_sats :: int

definition regular_acc0 :: regular_acc where
  "regular_acc0 = \<lparr>ra_known_fees = [], ra_known_fee_rates = [], ra_total_regular_vsize = 0,
     ra_rbf_tx_count = 0, ra_taproot_input_tx_count = 0, ra_input_value_complete_tx_count = 0,
     ra_regular_input_value_sats = 0, ra_regular_output_value_sats = 0\<rparr>"

definition opt_list :: "'a option \<Rightarrow> 'a list" where
  "opt_list x = (case x of None \<Rightarrow> [] | Some y \<Rightarrow> [y])"

definition regular_step :: "tx_stats \<Rightarrow> regular_acc \<Rightarrow> regular_acc" where
  "regular_step t a =
     (let complete = (ts_prevout_value_known_count t = ts_vin_count t) in
      \<lparr>ra_known_fees = ra_known_fees a @ opt_list (ts_fee_sats t),
       ra_known_fee_rates = ra_known_fee_rates a @ opt_list (ts_fee_rate_sat_vb t),
       ra_total_regular_vsize = ra_total_regular_vsize a + int_or_0 (ts_vsize t),
       ra_rbf_tx_count = ra_rbf_tx_count a + tick (ts_signals_rbf t),
       ra_taproot_input_tx_count = ra_taproot_input_tx_count a
         + tick (count_of (type_key ''vin_type'' ''witness_v1_taproot'') (ts_vin_types t) > 0),
       ra_input_value_complete_tx_count = ra_input_value_complete_tx_count a + tick complete,
       ra_regular_input_value_sats = ra_regular_input_value_sats a
         + (if complete then int_or_0 (ts_input_value_sats t) else 0),
       ra_regular_output_value_sats = ra_regular_output_value_sats a + ts_output_value_sats t\<rparr>)"

definition sum_types :: "string \<Rightarrow> (tx_stats \<Rightarrow> counts) \<Rightarrow> tx_stats list \<Rightarrow> counts" where
  "sum_types prefix f ts =
     fold (\<lambda>t tot. map (\<lambda>(k, n). (k, n + count_of k (f t))) tot) ts
       (map (\<lambda>s. (type_key prefix s, 0)) SCRIPT_TYPES)"

text \<open>\<open>int(s, 16)\<close> of plain hexadecimal digits; the prefixes Python also allows do not occur.\<close>

definition parse_hex :: "string \<Rightarrow> exn + int" where
  "parse_hex s =
     (if s = '''' \<or> \<not> list_all (\<lambda>c. hex_val c \<noteq> None) s then Inl (ValueError ''invalid literal for int'')
      else Inr (foldl (\<lambda>a c. 16 * a + int (the (hex_val c))) 0 s))"

definition chainwork_log2 :: "nums \<Rightarrow> string option \<Rightarrow> exn + cell" where
  "chainwork_log2 nm cw =
     (case cw of None \<Rightarrow> Inr CNull
      | Some s \<Rightarrow>
          if s = '''' then Inr CNull
          else bindE (parse_hex s) (\<lambda>n.
                 if n \<le> 0 then Inl (ValueError ''math domain error'') else Inr (CFloat (log2 nm n))))"

definition weight_utilization_pct :: "parse_config \<Rightarrow> int option \<Rightarrow> exn + cell" where
  "weight_utilization_pct c w =
     (case w of None \<Rightarrow> Inr CNull
      | Some n \<Rightarrow>
          if max_block_weight c = 0 then Inl ZeroDivisionError
          else Inr (CFloat (fl (fl (fl (of_int n) / fl (of_int (max_block_weight c))) * 100))))"

definition block_event ::
    "nums \<Rightarrow> block \<Rightarrow> pool_match \<Rightarrow> int \<Rightarrow> cell \<Rightarrow> cell \<Rightarrow> tx_stats list \<Rightarrow> row" where
  "block_event nm b pm subsidy cw_log2 weight_pct ts =
     (let regular = filter (\<lambda>t. \<not> ts_is_coinbase t) ts;
          a = fold all_step ts all_acc0; r = fold regular_step regular regular_acc0;
          fees = ra_known_fees r; rates = ra_known_fee_rates r; total_fees = sum_list fees;
          first = (\<lambda>f. case ts of [] \<Rightarrow> CNull | t # _ \<Rightarrow> CInt (f t))
      in [(''hash'', opt_cell CStr (bk_hash b)),
          (''height'', opt_cell CInt (bk_height b)),
          (''version'', opt_cell CInt (bk_version b)),
          (''versionHex'', opt_cell CStr (bk_versionHex b)),
          (''merkleroot'', opt_cell CStr (bk_merkleroot b)),
          (''time'', opt_cell CInt (bk_time b)),
          (''time_since_prev_block_sec'', CNull),
          (''mediantime'', opt_cell CInt (bk_mediantime b)),
          (''nonce'', opt_cell CInt (bk_nonce b)),
          (''bits'', opt_cell CStr (bk_bits b)),
          (''target'', opt_cell CStr (bk_target b)),
          (''difficulty'', opt_cell (CFloat \<circ> fl) (bk_difficulty b)),
          (''chainwork'', opt_cell CStr (bk_chainwork b)),
          (''chainwork_log2'', cw_log2),
          (''nTx'', opt_cell CInt (bk_nTx b)),
          (''previousblockhash'', opt_cell CStr (bk_previousblockhash b)),
          (''strippedsize'', opt_cell CInt (bk_strippedsize b)),
          (''size'', opt_cell CInt (bk_size b)),
          (''weight'', opt_cell CInt (bk_weight b)),
          (''weight_utilization_pct'', weight_pct),
          (''block_subsidy_sats'', CInt subsidy),
          (''pool_id'', opt_cell CInt (m_pool_id pm)),
          (''pool_name'', opt_cell CStr (m_pool_name pm)),
          (''pool_link'', opt_cell CStr (m_pool_link pm)),
          (''pool_match_method'', CStr (method_name (match_method pm))),
          (''regular_tx_count'', CInt (int (length regular))),
          (''total_vin_count'', CInt (aa_total_vin_count a)),
          (''total_vout_count'', CInt (aa_total_vout_count a)),
          (''coinbase_value_sats'', first ts_output_value_sats),
          (''coinbase_vout_count'', first ts_vout_count),
          (''total_fees_sats'', CInt total_fees),
          (''fee_known_tx_count'', CInt (int (length fees))),
          (''fee_unknown_tx_count'', CInt (int (length regular) - int (length fees))),
          (''fee_avg_sats'', opt_cell CFloat (avg fees)),
          (''fee_median_sats'', opt_cell CFloat (median_or_none fees)),
          (''fee_max_sats'', opt_cell CInt (max_opt fees)),
          (''fee_rate_avg_sat_vb'',
             if rates = [] then CNull else CFloat (fl (fsum nm rates / of_nat (length rates)))),
          (''fee_rate_median_sat_vb'', opt_cell CFloat (median_or_none_float rates)),
          (''fee_rate_max_sat_vb'', opt_cell CFloat (max_opt rates)),
          (''effective_fee_rate_sat_vb'',
             if fees \<noteq> [] \<and> length fees = length regular \<and> ra_total_regular_vsize r > 0
             then CFloat (int_div total_fees (ra_total_regular_vsize r)) else CNull),
          (''regular_input_value_sats'', CInt (ra_regular_input_value_sats r)),
          (''input_value_complete_tx_count'', CInt (ra_input_value_complete_tx_count r)),
          (''regular_output_value_sats'', CInt (ra_regular_output_value_sats r)),
          (''coin_days_destroyed_btc'', CFloat (aa_coin_days_destroyed_btc a)),
          (''tx_vsize_avg'', opt_cell CFloat (avg (aa_vsize_values a))),
          (''tx_vsize_median'', opt_cell CFloat (median_or_none (aa_vsize_values a))),
          (''tx_vsize_max'', opt_cell CInt (max_opt (aa_vsize_values a))),
          (''segwit_tx_count'', CInt (aa_segwit_tx_count a)),
          (''rbf_tx_count'', CInt (ra_rbf_tx_count r)),
          (''taproot_input_tx_count'', CInt (ra_taproot_input_tx_count r)),
          (''taproot_output_tx_count'', CInt (aa_taproot_output_tx_count a)),
          (''op_return_tx_count'', CInt (aa_op_return_tx_count a)),
          (''op_return_output_count'', CInt (aa_op_return_output_count a)),
          (''op_return_script_bytes'', CInt (aa_op_return_script_bytes a)),
          (''witness_input_count'', CInt (aa_witness_input_count a)),
          (''witness_item_count'', CInt (aa_witness_item_count a)),
          (''witness_data_bytes'', CInt (aa_witness_data_bytes a)),
          (''scriptsig_bytes'', CInt (aa_scriptsig_bytes a)),
          (''scriptpubkey_bytes'', CInt (aa_scriptpubkey_bytes a))]
         @ count_cells (sum_types ''vin_type'' ts_vin_types ts)
         @ count_cells (sum_types ''vout_type'' ts_vout_types ts))"

record block_aggregate =
  ba_block :: row
  ba_txs :: "row list"
  ba_inputs :: "row list"
  ba_outputs :: "row list"

definition key :: "string \<Rightarrow> 'a option \<Rightarrow> exn + 'a" where
  "key k x = (case x of None \<Rightarrow> Inl (KeyError k) | Some v \<Rightarrow> Inr v)"

definition txs_of :: "block \<Rightarrow> tx list" where
  "txs_of b = (case bk_tx b of None \<Rightarrow> [] | Some t \<Rightarrow> t)"

definition aggregate_block ::
    "nums \<Rightarrow> parse_config \<Rightarrow> pool_matcher option \<Rightarrow> block \<Rightarrow> exn + block_aggregate" where
  "aggregate_block nm c pm b =
     bindE (key ''hash'' (bk_hash b)) (\<lambda>block_hash.
     bindE (key ''height'' (bk_height b)) (\<lambda>block_height.
     bindE (key ''time'' (bk_time b)) (\<lambda>block_time.
     bindE (mapE (\<lambda>(i, t). aggregate_transaction c block_hash block_height block_time (int i) t)
              (enumerate0 (txs_of b))) (\<lambda>tas.
       let ts = map ta_stats tas;
           m = (case tas of [] \<Rightarrow> match_mining_pool None [] pm
                | a # _ \<Rightarrow> match_mining_pool (ta_script_sig a) (ta_addresses a) pm)
       in bindE (chainwork_log2 nm (bk_chainwork b)) (\<lambda>cw.
          bindE (weight_utilization_pct c (bk_weight b)) (\<lambda>wp.
          bindE (block_subsidy_sats block_height c) (\<lambda>subsidy.
            Inr \<lparr>ba_block = block_event nm b m subsidy cw wp ts,
                 ba_txs = map ta_event tas,
                 ba_inputs = concat (map ta_inputs tas),
                 ba_outputs = concat (map ta_outputs tas)\<rparr>)))))))"

section \<open>What the loops compute\<close>

lemma length_enumerate0 [simp]: "length (enumerate0 xs) = length xs"
  by (simp add: enumerate0_def)

lemma map_snd_enumerate0 [simp]: "map snd (enumerate0 xs) = xs"
  by (simp add: enumerate0_def)

lemma nth_enumerate0: "i < length xs \<Longrightarrow> enumerate0 xs ! i = (i, xs ! i)"
  by (simp add: enumerate0_def)

lemma keys_bump [simp]: "map fst (bump k n d) = map fst d"
  by (simp add: bump_def split_beta)

lemma sum_bump: "distinct (map fst d) \<Longrightarrow> k \<in> fst ` set d \<Longrightarrow> sum_list (map snd (bump k n d)) = sum_list (map snd d) + n"
proof (induction d)
  case (Cons p d)
  obtain k' m where p: "p = (k', m)" by force
  show ?case
  proof (cases "k' = k")
    case True
    have "bump k n d = d" if "k \<notin> fst ` set d"
      using that by (force simp: bump_def intro: map_idI)
    with True Cons.prems p have "bump k n d = d" by auto
    moreover have "bump k n (p # d) = (k', m + n) # bump k n d" using True p by (simp add: bump_def)
    ultimately show ?thesis using p by simp
  next
    case False
    with Cons p show ?thesis by (simp add: bump_def)
  qed
qed simp

lemma type_key_inject: "type_key p s = type_key p t \<longleftrightarrow> s = t"
  by (simp add: type_key_def)

lemma normalized_in [simp]: "normalized_script_type t \<in> set SCRIPT_TYPES"
  by (cases t) (auto simp: SCRIPT_TYPES_def)

definition type_keys :: "string \<Rightarrow> string list" where
  "type_keys prefix = map (type_key prefix) SCRIPT_TYPES"

lemma keys_init [simp]: "map fst (init_script_type_counts p) = type_keys p"
  by (simp add: init_script_type_counts_def type_keys_def)

lemma distinct_type_keys [simp]: "distinct (type_keys p)"
  unfolding type_keys_def distinct_map by (auto simp: inj_on_def type_key_inject) (simp add: SCRIPT_TYPES_def)

lemma sum_init [simp]: "sum_list (map snd (init_script_type_counts p)) = 0"
  by (simp add: init_script_type_counts_def SCRIPT_TYPES_def)

text \<open>Bumping a normalised type keeps the keys and adds one to the total.\<close>

definition counts_total :: "string \<Rightarrow> counts \<Rightarrow> int \<Rightarrow> bool" where
  "counts_total p d n \<longleftrightarrow> map fst d = type_keys p \<and> sum_list (map snd d) = n"

lemma counts_total_init: "counts_total p (init_script_type_counts p) 0"
  by (simp add: counts_total_def)

lemma counts_total_bump:
  assumes "counts_total p d n" "t \<in> set SCRIPT_TYPES"
  shows "counts_total p (bump (type_key p t) 1 d) (n + 1)"
proof -
  have k: "map fst d = type_keys p" using assms(1) by (simp add: counts_total_def)
  then have "distinct (map fst d)" by simp
  moreover have "type_key p t \<in> set (map fst d)" using k assms(2) by (simp add: type_keys_def)
  ultimately show ?thesis using assms(1) sum_bump [of d "type_key p t" 1] by (simp add: counts_total_def)
qed

lemma prevout_step_fields [simp]:
  "input_events (prevout_step cx p a) = input_events a"
  "witness_input_count (prevout_step cx p a) = witness_input_count a"
  "witness_item_count (prevout_step cx p a) = witness_item_count a"
  "witness_data_bytes (prevout_step cx p a) = witness_data_bytes a"
  "scriptsig_bytes (prevout_step cx p a) = scriptsig_bytes a"
  "signals_rbf (prevout_step cx p a) = signals_rbf a"
  "vin_type_counts (prevout_step cx p a) = bump (type_key ''vin_type'' (prevout_type p)) 1 (vin_type_counts a)"
  "input_values_sats (prevout_step cx p a) = input_values_sats a @ opt_list (btc_to_sats (po_value p))"
  "prevout_value_known_count (prevout_step cx p a) = prevout_value_known_count a + tick (po_value p \<noteq> None)"
  by (auto simp: prevout_step_def Let_def opt_list_def tick_def split: option.splits)

definition prevout_value :: "vin \<Rightarrow> rat option" where
  "prevout_value v = (case vin_prevout v of None \<Rightarrow> None | Some p \<Rightarrow> po_value p)"

lemma vin_step_fields [simp]:
  "input_events (vin_step cx iv a) = input_events a @ [input_event cx (fst iv) (snd iv)]"
  "input_values_sats (vin_step cx iv a) = input_values_sats a @ opt_list (btc_to_sats (prevout_value (snd iv)))"
  "prevout_value_known_count (vin_step cx iv a) = prevout_value_known_count a + tick (prevout_value (snd iv) \<noteq> None)"
  "vin_type_counts (vin_step cx iv a) = (case vin_prevout (snd iv) of None \<Rightarrow> vin_type_counts a
      | Some p \<Rightarrow> bump (type_key ''vin_type'' (prevout_type p)) 1 (vin_type_counts a))"
  by (auto simp: vin_step_def Let_def prevout_value_def opt_list_def tick_def split: prod.splits option.splits)

lemma run_vins_events: "input_events (run_vins cx vins) = map (\<lambda>(i, v). input_event cx i v) (enumerate0 vins)"
proof -
  have "input_events (fold (vin_step cx) xs a) = input_events a @ concat (map (\<lambda>iv. [input_event cx (fst iv) (snd iv)]) xs)"
    for xs a by (rule fold_appends) simp
  then show ?thesis by (simp add: run_vins_def vin_acc0_def split_beta concat_map_singleton)
qed

lemma run_vins_values:
  "input_values_sats (run_vins cx vins) = concat (map (\<lambda>v. opt_list (btc_to_sats (prevout_value v))) vins)"
proof -
  have "input_values_sats (fold (vin_step cx) xs a)
      = input_values_sats a @ concat (map (\<lambda>iv. opt_list (btc_to_sats (prevout_value (snd iv)))) xs)"
    for xs a by (rule fold_appends) simp
  then have "input_values_sats (run_vins cx vins)
      = concat (map ((\<lambda>v. opt_list (btc_to_sats (prevout_value v))) \<circ> snd) (enumerate0 vins))"
    by (simp add: run_vins_def vin_acc0_def o_def)
  then show ?thesis by (simp only: map_map [symmetric] map_snd_enumerate0)
qed

lemma run_vins_known:
  "prevout_value_known_count (run_vins cx vins) = int (length (filter (\<lambda>v. prevout_value v \<noteq> None) vins))"
proof -
  have "prevout_value_known_count (fold (vin_step cx) xs a)
      = prevout_value_known_count a + sum_list (map (\<lambda>iv. tick (prevout_value (snd iv) \<noteq> None)) xs)"
    for xs a by (rule fold_adds) simp
  then have "prevout_value_known_count (run_vins cx vins)
      = sum_list (map ((\<lambda>v. tick (prevout_value v \<noteq> None)) \<circ> snd) (enumerate0 vins))"
    by (simp add: run_vins_def vin_acc0_def o_def)
  then have "prevout_value_known_count (run_vins cx vins) = sum_list (map (\<lambda>v. tick (prevout_value v \<noteq> None)) vins)"
    by (simp only: map_map [symmetric] map_snd_enumerate0)
  moreover have "sum_list (map (\<lambda>v. tick (P v)) vs) = int (length (filter P vs))" for P and vs :: "vin list"
    by (induction vs) (simp_all add: tick_def)
  ultimately show ?thesis by simp
qed

lemma run_vins_types:
  "counts_total ''vin_type'' (vin_type_counts (run_vins cx vins)) (int (length (filter (\<lambda>v. vin_prevout v \<noteq> None) vins)))"
proof -
  have "counts_total ''vin_type'' (vin_type_counts a) n \<Longrightarrow>
      counts_total ''vin_type'' (vin_type_counts (fold (vin_step cx) xs a))
        (n + int (length (filter (\<lambda>v. vin_prevout v \<noteq> None) (map snd xs))))" for xs a n
  proof (induction xs arbitrary: a n)
    case (Cons x xs)
    show ?case
    proof (cases "vin_prevout (snd x)")
      case None
      with Cons show ?thesis by simp
    next
      case (Some p)
      have "counts_total ''vin_type'' (vin_type_counts (vin_step cx x a)) (n + 1)"
        using Some counts_total_bump [OF Cons.prems, of "prevout_type p"] by (simp add: prevout_type_def)
      from Cons.IH [OF this] Some show ?thesis by (simp add: ac_simps)
    qed
  qed simp
  from this [of vin_acc0 0 "enumerate0 vins"] show ?thesis
    by (simp add: run_vins_def counts_total_init vin_acc0_def)
qed

lemma vout_step_fields [simp]:
  "output_events (vout_step cx iv a) = output_events a @ [output_event cx (fst iv) (snd iv)]"
  "output_values_sats (vout_step cx iv a) = output_values_sats a @ opt_list (btc_to_sats (vout_value (snd iv)))"
  "vout_type_counts (vout_step cx iv a) = bump (type_key ''vout_type'' (vout_script_type (snd iv))) 1 (vout_type_counts a)"
  "op_return_count (vout_step cx iv a) = op_return_count a + tick (vout_script_type (snd iv) = ''nulldata'')"
  by (auto simp: vout_step_def Let_def opt_list_def tick_def split: prod.splits option.splits)

lemma run_vouts_events: "output_events (run_vouts cx vouts) = map (\<lambda>(i, v). output_event cx i v) (enumerate0 vouts)"
proof -
  have "output_events (fold (vout_step cx) xs a) = output_events a @ concat (map (\<lambda>iv. [output_event cx (fst iv) (snd iv)]) xs)"
    for xs a by (rule fold_appends) simp
  then show ?thesis by (simp add: run_vouts_def vout_acc0_def split_beta concat_map_singleton)
qed

lemma run_vouts_values:
  "output_values_sats (run_vouts cx vouts) = concat (map (\<lambda>v. opt_list (btc_to_sats (vout_value v))) vouts)"
proof -
  have "output_values_sats (fold (vout_step cx) xs a)
      = output_values_sats a @ concat (map (\<lambda>iv. opt_list (btc_to_sats (vout_value (snd iv)))) xs)"
    for xs a by (rule fold_appends) simp
  then have "output_values_sats (run_vouts cx vouts)
      = concat (map ((\<lambda>v. opt_list (btc_to_sats (vout_value v))) \<circ> snd) (enumerate0 vouts))"
    by (simp add: run_vouts_def vout_acc0_def o_def)
  then show ?thesis by (simp only: map_map [symmetric] map_snd_enumerate0)
qed

lemma run_vouts_types:
  "counts_total ''vout_type'' (vout_type_counts (run_vouts cx vouts)) (int (length vouts))"
proof -
  have "counts_total ''vout_type'' (vout_type_counts a) n \<Longrightarrow>
      counts_total ''vout_type'' (vout_type_counts (fold (vout_step cx) xs a)) (n + int (length xs))" for xs a n
  proof (induction xs arbitrary: a n)
    case (Cons x xs)
    have "counts_total ''vout_type'' (vout_type_counts (vout_step cx x a)) (n + 1)"
      using counts_total_bump [OF Cons.prems, of "vout_script_type (snd x)"] by (simp add: vout_script_type_def)
    from Cons.IH [OF this] show ?case by (simp add: ac_simps)
  qed simp
  from this [of vout_acc0 0 "enumerate0 vouts"] show ?thesis
    by (simp add: run_vouts_def counts_total_init vout_acc0_def)
qed

lemma aggregate_transaction_ok:
  assumes "aggregate_transaction c h ht tm i t = Inr a"
  obtains cdd where "ta_stats a = stats_of t (run_vins (tx_ctx_of h ht tm i t) (vins_of t)) (run_vouts (tx_ctx_of h ht tm i t) (vouts_of t)) cdd"
    "ta_event a = tx_event (tx_ctx_of h ht tm i t) t (run_vins (tx_ctx_of h ht tm i t) (vins_of t))
       (run_vouts (tx_ctx_of h ht tm i t) (vouts_of t)) (ta_stats a)"
    "ta_inputs a = map (\<lambda>(i', v). input_event (tx_ctx_of h ht tm i t) i' v) (enumerate0 (vins_of t))"
    "ta_outputs a = map (\<lambda>(i', v). output_event (tx_ctx_of h ht tm i t) i' v) (enumerate0 (vouts_of t))"
  using assms
  by (cases "coin_days (input_age_value_pairs (run_vins (tx_ctx_of h ht tm i t) (vins_of t))) c")
    (auto simp: aggregate_transaction_def Let_def run_vins_events run_vouts_events)

lemma stats_of_fields [simp]:
  "ts_is_coinbase (stats_of t vi vo x) = is_coinbase_tx t"
  "ts_vin_count (stats_of t vi vo x) = int (length (vins_of t))"
  "ts_vout_count (stats_of t vi vo x) = int (length (vouts_of t))"
  "ts_vin_types (stats_of t vi vo x) = vin_type_counts vi"
  "ts_vout_types (stats_of t vi vo x) = vout_type_counts vo"
  "ts_fee_sats (stats_of t vi vo x) = fst (tx_fee_sats (is_coinbase_tx t) t vi vo)"
  "ts_fee_source (stats_of t vi vo x) = snd (tx_fee_sats (is_coinbase_tx t) t vi vo)"
  "ts_fee_rate_sat_vb (stats_of t vi vo x)
     = fee_rate (is_coinbase_tx t) (fst (tx_fee_sats (is_coinbase_tx t) t vi vo)) (int_or_0 (tx_vsize t))"
  by (simp_all add: stats_of_def Let_def split_beta)



lemma aggregate_block_ok:
  assumes "aggregate_block nm c pm b = Inr r"
  obtains h ht tm tas m s cw wp where "bk_hash b = Some h" "bk_height b = Some ht" "bk_time b = Some tm"
    "list_all2 (\<lambda>x a. aggregate_transaction c h ht tm (int (fst x)) (snd x) = Inr a) (enumerate0 (txs_of b)) tas"
    "ba_block r = block_event nm b m s cw wp (map ta_stats tas)" "ba_txs r = map ta_event tas"
    "ba_inputs r = concat (map ta_inputs tas)" "ba_outputs r = concat (map ta_outputs tas)"
proof -
  from assms obtain h where 1: "key ''hash'' (bk_hash b) = Inr h"
    unfolding aggregate_block_def bindE_Inr by (elim exE conjE)
  from assms obtain ht where 2: "key ''height'' (bk_height b) = Inr ht"
    unfolding aggregate_block_def bindE_Inr by (elim exE conjE)
  from assms obtain tm where 3: "key ''time'' (bk_time b) = Inr tm"
    unfolding aggregate_block_def bindE_Inr by (elim exE conjE)
  note a = assms [unfolded aggregate_block_def 1 2 3 bindE_simps bindE_Inr Let_def]
  from a obtain tas cw wp s where
    "mapE (\<lambda>(i, t). aggregate_transaction c h ht tm (int i) t) (enumerate0 (txs_of b)) = Inr tas"
    and "r = \<lparr>ba_block = block_event nm b (case tas of [] \<Rightarrow> match_mining_pool None [] pm
                | x # _ \<Rightarrow> match_mining_pool (ta_script_sig x) (ta_addresses x) pm) s cw wp (map ta_stats tas),
              ba_txs = map ta_event tas, ba_inputs = concat (map ta_inputs tas),
              ba_outputs = concat (map ta_outputs tas)\<rparr>"
    by (auto)
  moreover have "bk_hash b = Some h" "bk_height b = Some ht" "bk_time b = Some tm"
    using 1 2 3 by (auto simp: key_def split: option.splits)
  ultimately show thesis using that by (auto simp: mapE_Inr split_beta)
qed

lemma block_txs:
  assumes "list_all2 (\<lambda>x a. aggregate_transaction c h ht tm (int (fst x)) (snd x) = Inr a) (enumerate0 txs) tas"
    and "a \<in> set tas"
  obtains i t where "aggregate_transaction c h ht tm i t = Inr a"
proof -
  from assms(2) obtain n where "n < length tas" "tas ! n = a" by (auto simp: in_set_conv_nth)
  with assms(1) have "aggregate_transaction c h ht tm (int (fst (enumerate0 txs ! n))) (snd (enumerate0 txs ! n)) = Inr a"
    by (auto simp: list_all2_conv_all_nth)
  then show thesis by (rule that)
qed

lemma aggregate_transaction_total:
  "blocks_per_day c \<noteq> 0 \<Longrightarrow> \<exists>a. aggregate_transaction c h ht tm i t = Inr a"
  by (simp add: aggregate_transaction_def coin_days_def Let_def)

lemma mapE_total: "(\<And>x. x \<in> set xs \<Longrightarrow> \<exists>y. f x = Inr y) \<Longrightarrow> \<exists>ys. mapE f xs = Inr ys"
proof (induction xs)
  case (Cons x xs)
  then obtain y ys where "f x = Inr y" "mapE f xs = Inr ys" by (metis list.set_intros)
  then show ?case by simp
qed simp

definition chainwork_ok :: "string option \<Rightarrow> bool" where
  "chainwork_ok cw \<longleftrightarrow> (case cw of None \<Rightarrow> True | Some s \<Rightarrow> s = '''' \<or> (\<exists>n > 0. parse_hex s = Inr n))"

lemma aggregate_block_total:
  assumes "bk_hash b = Some h" "bk_height b = Some ht" "bk_time b = Some tm" "0 \<le> ht" "chainwork_ok (bk_chainwork b)"
    and "0 < blocks_per_day c" "0 < max_block_weight c" "0 < halving_interval_blocks c"
  shows "\<exists>r. aggregate_block nm c pm b = Inr r"
proof -
  obtain tas where "mapE (\<lambda>(i, t). aggregate_transaction c h ht tm (int i) t) (enumerate0 (txs_of b)) = Inr tas"
    using mapE_total [of "enumerate0 (txs_of b)" "\<lambda>(i, t). aggregate_transaction c h ht tm (int i) t"]
      aggregate_transaction_total [of c] assms(6) by fastforce
  moreover have "\<exists>cw. chainwork_log2 nm (bk_chainwork b) = Inr cw"
    using assms(5) by (auto simp: chainwork_log2_def chainwork_ok_def split: option.splits)
  then obtain cw where "chainwork_log2 nm (bk_chainwork b) = Inr cw" ..
  moreover obtain wp where "weight_utilization_pct c (bk_weight b) = Inr wp"
    using assms(7) by (cases "bk_weight b") (simp_all add: weight_utilization_pct_def)
  moreover have "\<exists>s. block_subsidy_sats ht c = Inr s"
    using assms(4,8) pos_imp_zdiv_nonneg_iff [of "halving_interval_blocks c" ht]
    by (simp add: block_subsidy_sats_def Let_def)
  then obtain s where "block_subsidy_sats ht c = Inr s" ..
  ultimately show ?thesis using assms(1-3) by (simp add: aggregate_block_def key_def Let_def)
qed

section \<open>Properties\<close>


definition sample_tx :: tx where
  "sample_tx = \<lparr>tx_txid = Some ''aa'', tx_hash = Some ''bb'', tx_version = Some 2, tx_size = Some 200,
     tx_vsize = Some 150, tx_weight = Some 600, tx_locktime = Some 0, tx_fee = None,
     tx_vin = Some [\<lparr>vin_txid = Some ''cc'', vin_vout = Some 0, vin_coinbase = None, vin_script_sig = Some '''',
       vin_witness = Some [''00ff''], vin_sequence = Some 4194310,
       vin_prevout = Some \<lparr>po_generated = Some False, po_value = Some (3 / 2), po_height = Some 90,
         po_script = Some \<lparr>spk_hex = Some ''51'', spk_type = Some ''witness_v1_taproot'', spk_address = Some ''bc1p''\<rparr>\<rparr>\<rparr>],
     tx_vout = Some [\<lparr>vout_value = Some (5 / 4),
       vout_script = Some \<lparr>spk_hex = Some ''0014'', spk_type = Some ''pubkeyhash'', spk_address = Some ''1A''\<rparr>\<rparr>]\<rparr>"

definition sample_block :: block where
  "sample_block = \<lparr>bk_hash = Some ''00a1'', bk_height = Some 100, bk_version = Some 4, bk_versionHex = None,
     bk_merkleroot = None, bk_time = Some 1700000000, bk_mediantime = None, bk_nonce = None, bk_bits = None,
     bk_target = None, bk_difficulty = Some 1, bk_chainwork = None, bk_nTx = Some 1,
     bk_previousblockhash = Some ''00a0'', bk_strippedsize = None, bk_size = None, bk_weight = Some 600,
     bk_tx = Some [sample_tx]\<rparr>"

definition mainnet_config :: parse_config where
  "mainnet_config = \<lparr>blocks_per_day = 144, max_block_weight = 4000000, halving_interval_blocks = 210000,
     initial_subsidy_sats = 5000000000\<rparr>"

definition sample_nums :: nums where
  "sample_nums = \<lparr>log2 = (\<lambda>n. of_nat (bits (nat n))), fsum = sum_list\<rparr>"


lemma sample_block_ok: "\<exists>r. aggregate_block sample_nums mainnet_config None sample_block = Inr r"
  by (rule aggregate_block_total [where h = "''00a1''" and ht = 100 and tm = 1700000000])
    (simp_all add: sample_block_def chainwork_ok_def mainnet_config_def)

text \<open>
  Every output, and every input whose previous output is known, is counted in exactly one
  script type: the type counters of an aggregated transaction have the fixed keys, and their
  sums are the number of outputs and the number of inputs with a previous output.
\<close>

theorem type_counts_partition:
  assumes "aggregate_transaction c h ht tm i t = Inr a"
  shows "map fst (ts_vout_types (ta_stats a)) = type_keys ''vout_type''
       \<and> sum_list (map snd (ts_vout_types (ta_stats a))) = ts_vout_count (ta_stats a)
       \<and> map fst (ts_vin_types (ta_stats a)) = type_keys ''vin_type''
       \<and> sum_list (map snd (ts_vin_types (ta_stats a)))
           = int (length (filter (\<lambda>v. vin_prevout v \<noteq> None) (vins_of t)))"
proof -
  let ?cx = "tx_ctx_of h ht tm i t"
  obtain cdd where a: "ta_stats a = stats_of t (run_vins ?cx (vins_of t)) (run_vouts ?cx (vouts_of t)) cdd"
    using aggregate_transaction_ok [OF assms] by blast
  show ?thesis using run_vins_types [of ?cx "vins_of t"] run_vouts_types [of ?cx "vouts_of t"]
    by (simp add: a counts_total_def)
qed

lemma sample_tx_ok: "\<exists>a. aggregate_transaction mainnet_config h ht tm i t = Inr a"
  by (rule aggregate_transaction_total) (simp add: mainnet_config_def)

theorem type_counts_partition_witness:
  "\<exists>a. aggregate_transaction mainnet_config ''00a1'' 100 1700000000 0 sample_tx = Inr a
       \<and> sum_list (map snd (ts_vout_types (ta_stats a))) = ts_vout_count (ta_stats a)"
  using sample_tx_ok [of "''00a1''" 100 1700000000 0 sample_tx] type_counts_partition by blast

text \<open>
  Amounts convert to satoshis without rounding: a Decimal amount that is a whole number of
  satoshis, of up to 28 digits, becomes exactly that number.
\<close>

theorem btc_amounts_exact:
  assumes "\<bar>n\<bar> < 10 ^ 28"
  shows "btc_to_sats (Some (of_int n / of_int SATOSHIS_PER_BTC)) = Some n"
  by (rule btc_to_sats_exact [OF assms])

theorem btc_amounts_exact_witness:
  "btc_to_sats (Some (2100000000000000 / 100000000)) = Some 2100000000000000"
  using btc_amounts_exact [of 2100000000000000] by (simp add: SATOSHIS_PER_BTC_def)

text \<open>
  The derived fee is the value difference: a transaction that is not a coinbase, carries no
  fee of its own and spends only outputs whose values are known gets the sum of those values
  minus the sum of its outputs, in satoshis, as its fee, marked as derived; with an unknown value
  there is no fee.
\<close>

theorem derived_fee:
  assumes "aggregate_transaction c h ht tm i t = Inr a" "\<not> is_coinbase_tx t" "tx_fee t = None"
  shows "(if \<forall>v \<in> set (vins_of t). prevout_value v \<noteq> None
          then ts_fee_source (ta_stats a) = ''derived'' \<and>
               ts_fee_sats (ta_stats a) =
                 Some (sum_list (map (the \<circ> btc_to_sats \<circ> prevout_value) (vins_of t))
                       - sum_list (map (the \<circ> btc_to_sats \<circ> vout_value) (filter (\<lambda>v. vout_value v \<noteq> None) (vouts_of t))))
          else ts_fee_source (ta_stats a) = ''unavailable'' \<and> ts_fee_sats (ta_stats a) = None)"
proof -
  let ?cx = "tx_ctx_of h ht tm i t"
  obtain cdd where a: "ta_stats a = stats_of t (run_vins ?cx (vins_of t)) (run_vouts ?cx (vouts_of t)) cdd"
    using aggregate_transaction_ok [OF assms(1)] by blast
  have vi: "sum_list (input_values_sats (run_vins ?cx vs)) = sum_list (map (the \<circ> btc_to_sats \<circ> prevout_value) vs)"
    if "\<forall>v \<in> set vs. prevout_value v \<noteq> None" for vs
    unfolding run_vins_values using that by (induction vs) (auto simp: opt_list_def)
  have vo: "sum_list (output_values_sats (run_vouts ?cx vs))
      = sum_list (map (the \<circ> btc_to_sats \<circ> vout_value) (filter (\<lambda>v. vout_value v \<noteq> None) vs))" for vs
    unfolding run_vouts_values by (induction vs) (auto simp: opt_list_def)
  have "length (filter (\<lambda>v. prevout_value v \<noteq> None) vs) = length vs \<longleftrightarrow> (\<forall>v \<in> set vs. prevout_value v \<noteq> None)" for vs
    using filter_id_conv [of "\<lambda>v. prevout_value v \<noteq> None" vs] length_filter_less [of _ vs "\<lambda>v. prevout_value v \<noteq> None"]
    by (metis (mono_tags, lifting) less_irrefl)
  then show ?thesis using assms(2,3) vi vo by (simp add: a tx_fee_sats_def run_vins_known)
qed

theorem derived_fee_witness:
  "\<exists>a. aggregate_transaction mainnet_config ''00a1'' 100 1700000000 0 sample_tx = Inr a
       \<and> ts_fee_source (ta_stats a) = ''derived'' \<and> ts_fee_sats (ta_stats a) = Some 25000000"
proof -
  obtain a where a: "aggregate_transaction mainnet_config ''00a1'' 100 1700000000 0 sample_tx = Inr a"
    using sample_tx_ok by blast
  have v: "vins_of sample_tx = the (tx_vin sample_tx)" "vouts_of sample_tx = the (tx_vout sample_tx)"
    by (simp_all add: vins_of_def vouts_of_def sample_tx_def)
  have s: "btc_to_sats (Some (3 / 2)) = Some 150000000" "btc_to_sats (Some (5 / 4)) = Some 125000000"
    using btc_to_sats_exact [of 150000000] btc_to_sats_exact [of 125000000] by (simp_all add: SATOSHIS_PER_BTC_def)
  have "\<not> is_coinbase_tx sample_tx" "tx_fee sample_tx = None" by (simp_all add: is_coinbase_tx_def v) (simp_all add: sample_tx_def)
  from derived_fee [OF a this] s have "ts_fee_source (ta_stats a) = ''derived'' \<and> ts_fee_sats (ta_stats a) = Some 25000000"
    unfolding v by (simp add: sample_tx_def prevout_value_def del: not_None_eq btc_to_sats.simps)
  with a show ?thesis by blast
qed

text \<open>
  Sequence numbers decode as BIP 125 and BIP 68 say: for a 32-bit sequence number the
  replacement flag is set exactly for an input that is not a coinbase's and is below 0xfffffffe;
  a relative lock exists exactly when, besides, the version is at least 2 and the number is below
  2 ^ 31, is in units of 512 seconds when bit 22 is set and in blocks otherwise, and its value is
  the number modulo 65536.
\<close>

theorem sequence_decodes:
  assumes "0 \<le> seq" "seq < 2 ^ 32"
  shows "decode_sequence (Some seq) version cb =
     (\<not> cb \<and> seq < 2 ^ 32 - 2,
      if \<not> cb \<and> 2 \<le> int_or_0 version \<and> seq < 2 ^ 31
      then Some (if odd (seq div 2 ^ 22) then Time else Blocks) else None,
      if \<not> cb \<and> 2 \<le> int_or_0 version \<and> seq < 2 ^ 31 then Some (seq mod 65536) else None)"
proof -
  have "bit seq 31 \<longleftrightarrow> \<not> seq < 2 ^ 31"
  proof -
    have "seq div 2 ^ 31 = 0 \<or> seq div 2 ^ 31 = 1" using assms by (auto simp: div_int_pos_iff)
    then show ?thesis using assms by (auto simp: bit_iff_odd)
  qed
  moreover have "bit seq 22 \<longleftrightarrow> odd (seq div 2 ^ 22)" by (simp add: bit_iff_odd)
  moreover have "and seq 65535 = seq mod 65536"
    using take_bit_eq_mask [of 16 seq] by (simp add: mask_eq_exp_minus_1 take_bit_eq_mod)
  ultimately show ?thesis
    by (auto simp: decode_sequence_def BIP68_DISABLE_FLAG_def BIP68_TYPE_FLAG_def BIP68_VALUE_MASK_def
        BIP125_RBF_SEQUENCE_THRESHOLD_def Let_def)
qed

theorem sequence_decodes_witness:
  "decode_sequence (Some 4194310) (Some 2) False = (True, Some Time, Some 6)"
  using sequence_decodes [of 4194310 "Some 2" False] by (simp add: int_or_0_def)

text \<open>The subsidy of a height.\<close>

definition subsidy_at :: "parse_config \<Rightarrow> int \<Rightarrow> int" where
  "subsidy_at c h = (case block_subsidy_sats h c of Inr s \<Rightarrow> s | Inl _ \<Rightarrow> 0)"

lemma subsidy_at_eq:
  assumes "0 \<le> h" "0 < halving_interval_blocks c" "0 \<le> initial_subsidy_sats c" "initial_subsidy_sats c < 2 ^ 64"
  shows "block_subsidy_sats h c = Inr (initial_subsidy_sats c div 2 ^ nat (h div halving_interval_blocks c))"
proof -
  let ?k = "h div halving_interval_blocks c"
  have k: "0 \<le> ?k" using assms by (simp add: pos_imp_zdiv_nonneg_iff)
  show ?thesis
  proof (cases "64 \<le> ?k")
    case True
    then have "2 ^ 64 \<le> (2 :: int) ^ nat ?k" by (intro power_increasing) auto
    then have "initial_subsidy_sats c div 2 ^ nat ?k = 0" using assms(3,4) by (intro div_pos_pos_trivial) auto
    with True assms(2) show ?thesis by (simp add: block_subsidy_sats_def Let_def)
  next
    case False
    with k assms(2) show ?thesis by (simp add: block_subsidy_sats_def Let_def drop_bit_eq_div)
  qed
qed

text \<open>
  The subsidy halves: at every height the subsidy is the initial one divided by two to the
  number of completed intervals (rounded down, also where the code cuts off after 64), so it is
  constant inside an interval and each interval pays half of the one before, rounded down.
\<close>

theorem subsidy_halves:
  assumes "0 \<le> h" "0 < halving_interval_blocks c" "0 \<le> initial_subsidy_sats c" "initial_subsidy_sats c < 2 ^ 64"
  shows "block_subsidy_sats h c = Inr (initial_subsidy_sats c div 2 ^ nat (h div halving_interval_blocks c))
       \<and> subsidy_at c (h + halving_interval_blocks c) = subsidy_at c h div 2"
proof -
  let ?i = "halving_interval_blocks c"
  have "(h + ?i) div ?i = h div ?i + 1" "0 \<le> h div ?i" using assms by (simp_all add: pos_imp_zdiv_nonneg_iff)
  then have "nat ((h + ?i) div ?i) = Suc (nat (h div ?i))" by simp
  then show ?thesis
    using subsidy_at_eq [OF assms] subsidy_at_eq [of "h + ?i" c] assms
    by (simp add: subsidy_at_def div_mult2_eq mult.commute [of 2] zdiv_zmult2_eq)
qed

theorem subsidy_halves_witness:
  "block_subsidy_sats 840000 mainnet_config = Inr 312500000"
  using subsidy_halves [of 840000 mainnet_config] by (simp add: mainnet_config_def)



lemma all_vin_count: "aa_total_vin_count (fold all_step ts a) = aa_total_vin_count a + sum_list (map ts_vin_count ts)"
  by (rule fold_adds) (simp add: all_step_def)

lemma all_vout_count: "aa_total_vout_count (fold all_step ts a) = aa_total_vout_count a + sum_list (map ts_vout_count ts)"
  by (rule fold_adds) (simp add: all_step_def)

lemma regular_fees: "ra_known_fees (fold regular_step ts a) = ra_known_fees a @ concat (map (opt_list \<circ> ts_fee_sats) ts)"
  using fold_appends [of ra_known_fees regular_step "opt_list \<circ> ts_fee_sats"] by (simp add: regular_step_def Let_def)

lemma block_event_counts:
  "row_get (block_event nm b m s cw wp ts) ''total_vin_count'' = Inr (CInt (sum_list (map ts_vin_count ts)))"
  "row_get (block_event nm b m s cw wp ts) ''total_vout_count'' = Inr (CInt (sum_list (map ts_vout_count ts)))"
  "row_get (block_event nm b m s cw wp ts) ''total_fees_sats''
     = Inr (CInt (sum_list (concat (map (opt_list \<circ> ts_fee_sats) (filter (\<lambda>t. \<not> ts_is_coinbase t) ts)))))"
  by (simp_all add: block_event_def Let_def all_vin_count all_vout_count regular_fees all_acc0_def regular_acc0_def)

lemma aggregate_transaction_counts:
  assumes "aggregate_transaction c h ht tm i t = Inr a"
  shows "int (length (ta_inputs a)) = ts_vin_count (ta_stats a)" "int (length (ta_outputs a)) = ts_vout_count (ta_stats a)"
proof -
  obtain cdd where "ta_stats a = stats_of t (run_vins (tx_ctx_of h ht tm i t) (vins_of t)) (run_vouts (tx_ctx_of h ht tm i t) (vouts_of t)) cdd"
    "ta_event a = tx_event (tx_ctx_of h ht tm i t) t (run_vins (tx_ctx_of h ht tm i t) (vins_of t))
       (run_vouts (tx_ctx_of h ht tm i t) (vouts_of t)) (ta_stats a)"
    "ta_inputs a = map (\<lambda>(i', v). input_event (tx_ctx_of h ht tm i t) i' v) (enumerate0 (vins_of t))"
    "ta_outputs a = map (\<lambda>(i', v). output_event (tx_ctx_of h ht tm i t) i' v) (enumerate0 (vouts_of t))"
    using aggregate_transaction_ok [OF assms] .
  then show "int (length (ta_inputs a)) = ts_vin_count (ta_stats a)" "int (length (ta_outputs a)) = ts_vout_count (ta_stats a)"
    by simp_all
qed

text \<open>The fee a transaction row contributes to the block's total.\<close>

definition row_fee :: "row \<Rightarrow> int" where
  "row_fee r =
     (case (row_get r ''is_coinbase'', row_get r ''fee_sats'') of
        (Inr (CBool False), Inr (CInt n)) \<Rightarrow> n
      | _ \<Rightarrow> 0)"

lemma row_fee_event: "row_fee (tx_event cx t vi vo st) = (if ts_is_coinbase st then 0 else sum_list (opt_list (ts_fee_sats st)))"
  by (cases "ts_fee_sats st") (simp_all add: row_fee_def tx_event_def opt_list_def split: bool.splits)

lemma aggregate_transaction_fee:
  "aggregate_transaction c h ht tm i t = Inr a \<Longrightarrow>
   row_fee (ta_event a) = (if ts_is_coinbase (ta_stats a) then 0 else sum_list (opt_list (ts_fee_sats (ta_stats a))))"
  by (elim aggregate_transaction_ok) (simp only: row_fee_event)

text \<open>
  C18. The aggregates of the block row agree with the detail rows exported beside it: the input and
  output totals are the numbers of input and output rows, and the fee total is the sum of the
  fees in the transaction rows that are not a coinbase's, a missing fee counting as nothing.
\<close>

theorem block_totals_match_details:
  assumes "aggregate_block nm c pm b = Inr r"
  shows "row_get (ba_block r) ''total_vin_count'' = Inr (CInt (int (length (ba_inputs r))))
       \<and> row_get (ba_block r) ''total_vout_count'' = Inr (CInt (int (length (ba_outputs r))))
       \<and> row_get (ba_block r) ''total_fees_sats'' = Inr (CInt (sum_list (map row_fee (ba_txs r))))"
proof -
  obtain h ht tm tas m s cw wp where "bk_hash b = Some h" "bk_height b = Some ht" "bk_time b = Some tm" and r:
    "list_all2 (\<lambda>x a. aggregate_transaction c h ht tm (int (fst x)) (snd x) = Inr a) (enumerate0 (txs_of b)) tas"
    "ba_block r = block_event nm b m s cw wp (map ta_stats tas)" "ba_txs r = map ta_event tas"
    "ba_inputs r = concat (map ta_inputs tas)" "ba_outputs r = concat (map ta_outputs tas)"
    using aggregate_block_ok [OF assms] .
  have "int (length (ta_inputs a)) = ts_vin_count (ta_stats a) \<and> int (length (ta_outputs a)) = ts_vout_count (ta_stats a)
      \<and> row_fee (ta_event a) = (if ts_is_coinbase (ta_stats a) then 0 else sum_list (opt_list (ts_fee_sats (ta_stats a))))"
    if "a \<in> set tas" for a using block_txs [OF r(1) that] aggregate_transaction_counts aggregate_transaction_fee by metis
  then have "int (length (concat (map ta_inputs tas))) = sum_list (map (ts_vin_count \<circ> ta_stats) tas)
      \<and> int (length (concat (map ta_outputs tas))) = sum_list (map (ts_vout_count \<circ> ta_stats) tas)
      \<and> sum_list (map (row_fee \<circ> ta_event) tas) = sum_list (concat (map (opt_list \<circ> ts_fee_sats)
          (filter (\<lambda>t. \<not> ts_is_coinbase t) (map ta_stats tas))))"
    by (induction tas) auto
  then show ?thesis unfolding r(2-5) block_event_counts by simp
qed

theorem block_totals_match_details_witness:
  "\<exists>r. aggregate_block sample_nums mainnet_config None sample_block = Inr r
       \<and> row_get (ba_block r) ''total_vin_count'' = Inr (CInt (int (length (ba_inputs r))))"
  using sample_block_ok block_totals_match_details by blast

end
