(* ===== verification/Mempool_State.thy ===== *)
theory Mempool_State
  imports Csv_Files "HOL-Library.List_Lexorder" "HOL-Library.Char_ord"
begin

text \<open>
  btc_parser_app/rpc/mempool_watch_state.py: the transactions the watcher tracks, and the file that
  keeps them over a restart. The file is its JSON value: what \<open>json.dumps(..., sort_keys=True)\<close>
  writes and \<open>json.loads\<close> gives back, with the keys of every object in order. What the watcher does
  to the outside is a log: the rows it exports and the values it saves.
\<close>

datatype tx_status = In_mempool | Confirmed

record flagged_tx =
  fx_txid :: string
  fx_first_seen_at :: string
  fx_first_seen_height :: int
  fx_fee_btc :: "string option"
  fx_vsize :: "int option"
  fx_inputs :: "(string \<times> int) list"
  fx_matches :: "row list"
  fx_status :: tx_status
  fx_block_hash :: "string option"
  fx_block_height :: "int option"

type_synonym flagged_file = "(string, flagged_tx) pydict"

text \<open>\<open>sort_keys\<close>: the txids, and the columns of every match.\<close>

definition sorted_keys :: "(string, 'v) pydict \<Rightarrow> (string, 'v) pydict" where
  "sorted_keys d = sort_key fst d"

definition saved_tx :: "flagged_tx \<Rightarrow> flagged_tx" where
  "saved_tx e = e\<lparr>fx_matches := map sorted_keys (fx_matches e)\<rparr>"

definition saved_store :: "flagged_file \<Rightarrow> flagged_file" where
  "saved_store d = sorted_keys (map (\<lambda>(t, e). (t, saved_tx e)) d)"

datatype watch_effect =
    Exported string string "row list"
  | Saved flagged_file

record flagged_store =
  fs_entries :: flagged_file
  fs_file :: "flagged_file option"
  fs_log :: "watch_effect list"

text \<open>
  \<open>_load\<close>: None is a missing or empty file. Entries are stored under the keys of the file in its
  order.
\<close>

definition flagged_load :: "flagged_file option \<Rightarrow> flagged_file" where
  "flagged_load f = (case f of None \<Rightarrow> [] | Some raw \<Rightarrow> dict_update [] raw)"

definition flagged_flush :: "flagged_store \<Rightarrow> flagged_store" where
  "flagged_flush st =
     (let payload = saved_store (fs_entries st) in st\<lparr>fs_file := Some payload, fs_log := fs_log st @ [Saved payload]\<rparr>)"

definition flagged_get :: "flagged_store \<Rightarrow> string \<Rightarrow> flagged_tx option" where
  "flagged_get st txid = map_of (fs_entries st) txid"

definition flagged_all :: "flagged_store \<Rightarrow> flagged_tx list" where
  "flagged_all st = map snd (fs_entries st)"

definition flagged_put :: "flagged_tx \<Rightarrow> flagged_store \<Rightarrow> flagged_store" where
  "flagged_put e st = flagged_flush (st\<lparr>fs_entries := AList.update (fx_txid e) e (fs_entries st)\<rparr>)"

definition flagged_remove :: "string \<Rightarrow> flagged_store \<Rightarrow> flagged_store" where
  "flagged_remove txid st =
     (if map_of (fs_entries st) txid = None then st
      else flagged_flush (st\<lparr>fs_entries := AList.delete txid (fs_entries st)\<rparr>))"

section \<open>A life of a tracked transaction\<close>

text \<open>
  The contract of the watcher, over the tracked transactions and their status alone: what it may
  export, and what it saves right after.
\<close>

type_synonym tracked = "string \<rightharpoonup> tx_status"

definition tracked_of :: "flagged_file \<Rightarrow> tracked" where
  "tracked_of d = map_option fx_status \<circ> map_of d"

definition loaded :: "flagged_file \<Rightarrow> tracked" where
  "loaded f = tracked_of (flagged_load (Some f))"

inductive life_step :: "tracked \<Rightarrow> watch_effect list \<Rightarrow> tracked \<Rightarrow> bool" where
  seen: "S t = None \<Longrightarrow> loaded f = S(t \<mapsto> In_mempool) \<Longrightarrow>
    life_step S [Exported ''seen'' t rows, Saved f] (S(t \<mapsto> In_mempool))"
| mined: "S t = Some In_mempool \<Longrightarrow> loaded f = S(t \<mapsto> Confirmed) \<Longrightarrow>
    life_step S [Exported ''confirmed'' t rows, Saved f] (S(t \<mapsto> Confirmed))"
| reorged: "S t = Some Confirmed \<Longrightarrow> loaded f = S(t \<mapsto> In_mempool) \<Longrightarrow>
    life_step S [Exported ''unconfirmed'' t rows, Saved f] (S(t \<mapsto> In_mempool))"
| left: "S t = Some In_mempool \<Longrightarrow> ev \<in> {''replaced'', ''removed''} \<Longrightarrow> loaded f = S(t := None) \<Longrightarrow>
    life_step S [Exported ev t rows, Saved f] (S(t := None))"
| forgotten: "S t = Some Confirmed \<Longrightarrow> loaded f = S(t := None) \<Longrightarrow> life_step S [Saved f] (S(t := None))"

inductive_cases life_step_cases: "life_step S es S'"

inductive life :: "tracked \<Rightarrow> watch_effect list \<Rightarrow> tracked \<Rightarrow> bool" where
  rest: "life S [] S"
| live: "life S es S' \<Longrightarrow> life_step S' fs S'' \<Longrightarrow> life S (es @ fs) S''"

lemma life_trans: "life S' fs S'' \<Longrightarrow> life S es S' \<Longrightarrow> life S (es @ fs) S''"
proof (induction rule: life.induct)
  case (live S' fs S'' gs S''')
  then show ?case using life.live [of S "es @ fs" S'' gs S'''] by simp
qed simp

lemma life_one: "life_step S fs S' \<Longrightarrow> life S fs S'"
  using life.live [OF life.rest] by fastforce

text \<open>The events of one transaction, and the automaton they run through.\<close>

datatype stage = Unknown | Waiting | Mined

fun stage_after :: "stage \<Rightarrow> string \<Rightarrow> stage option" where
  "stage_after s ev =
     (if ev = ''seen'' then (if s = Waiting then None else Some Waiting)
      else if ev = ''confirmed'' then (if s = Waiting then Some Mined else None)
      else if ev = ''unconfirmed'' then (if s = Mined then Some Waiting else None)
      else if ev \<in> {''replaced'', ''removed''} then (if s = Waiting then Some Unknown else None)
      else None)"

fun events_of :: "string \<Rightarrow> watch_effect list \<Rightarrow> string list" where
  "events_of t [] = []"
| "events_of t (Exported ev t' rows # es) = (if t' = t then ev # events_of t es else events_of t es)"
| "events_of t (Saved f # es) = events_of t es"

fun stages :: "stage \<Rightarrow> string list \<Rightarrow> stage option" where
  "stages s [] = Some s"
| "stages s (ev # evs) = (case stage_after s ev of None \<Rightarrow> None | Some s' \<Rightarrow> stages s' evs)"

definition stage_of :: "tx_status option \<Rightarrow> stage" where
  "stage_of st = (case st of None \<Rightarrow> Unknown | Some In_mempool \<Rightarrow> Waiting | Some Confirmed \<Rightarrow> Mined)"

lemma events_of_append [simp]: "events_of t (es @ fs) = events_of t es @ events_of t fs"
proof (induction es)
  case (Cons e es)
  then show ?case by (cases e) simp_all
qed simp

lemma stages_append: "stages s (as @ bs) = (case stages s as of None \<Rightarrow> None | Some s' \<Rightarrow> stages s' bs)"
  by (induction as arbitrary: s) (auto split: option.splits)

text \<open>A transaction that was forgotten after it was mined may be seen again.\<close>

definition agrees :: "tx_status option \<Rightarrow> stage \<Rightarrow> bool" where
  "agrees st s \<longleftrightarrow> s = stage_of st \<or> st = None \<and> s = Mined"

lemma life_step_stage:
  "life_step S fs S' \<Longrightarrow> agrees (S t) s \<Longrightarrow> \<exists>s'. stages s (events_of t fs) = Some s' \<and> agrees (S' t) s'"
  by (auto simp: agrees_def stage_of_def elim!: life_step_cases)

lemma life_stage:
  "life S es S' \<Longrightarrow> \<exists>s'. stages (stage_of (S t)) (events_of t es) = Some s' \<and> agrees (S' t) s'"
proof (induction rule: life.induct)
  case (rest S)
  then show ?case by (simp add: agrees_def)
next
  case (live S es S' fs S'')
  then obtain s' where s': "stages (stage_of (S t)) (events_of t es) = Some s'" "agrees (S' t) s'" by blast
  from life_step_stage [OF live.hyps(2) s'(2)] s'(1) show ?case by (auto simp: stages_append)
qed

text \<open>Between two saves at most one event is exported: a crash can repeat one event, and no more.\<close>

fun last_saved :: "flagged_file option \<Rightarrow> watch_effect list \<Rightarrow> flagged_file option" where
  "last_saved f [] = f"
| "last_saved f (Saved g # es) = last_saved (Some g) es"
| "last_saved f (Exported ev t rows # es) = last_saved f es"

lemma last_saved_append [simp]: "last_saved f (es @ fs) = last_saved (last_saved f es) fs"
  by (induction f es rule: last_saved.induct) simp_all

lemma life_step_saves: "life_step S fs S' \<Longrightarrow> \<exists>f. last_saved g fs = Some f \<and> loaded f = S'"
  by (auto elim!: life_step_cases)

lemma life_saves: "life S es S' \<Longrightarrow> tracked_of (flagged_load g) = S \<Longrightarrow> tracked_of (flagged_load (last_saved g es)) = S'"
proof (induction rule: life.induct)
  case (live S es S' fs S'')
  with life_step_saves [OF live.hyps(2), of "last_saved g es"] show ?case by (auto simp: loaded_def)
qed simp

lemma life_step_parts:
  assumes "life_step S fs S'" and "fs = p @ q" and "q \<noteq> []"
  shows "p = [] \<or> (\<exists>ev t rows. p = [Exported ev t rows])"
  using assms by (auto elim!: life_step_cases simp: Cons_eq_append_conv append_eq_Cons_conv)

lemma life_crash:
  "life S es S' \<Longrightarrow> es = p @ q \<Longrightarrow>
   \<exists>ps u S1. p = ps @ u \<and> life S ps S1 \<and> (u = [] \<or> (\<exists>ev t rows. u = [Exported ev t rows]))"
proof (induction arbitrary: p q rule: life.induct)
  case (rest S)
  then show ?case by (auto intro: life.rest)
next
  case (live S es S' fs S'')
  from live.prems consider (before) us where "es = p @ us" | (within) us where "p = es @ us" "fs = us @ q"
    by (auto simp: append_eq_append_conv2)
  then show ?case
  proof cases
    case before
    with live.IH show ?thesis by blast
  next
    case within
    show ?thesis
    proof (cases "q = []")
      case True
      with within live.hyps have "life S p S''" by (auto intro: life.live)
      then show ?thesis by (intro exI [of _ p] exI [of _ "[]"]) auto
    next
      case False
      with life_step_parts [OF live.hyps(2) within(2)] live.hyps(1) within(1) show ?thesis by blast
    qed
  qed
qed

section \<open>What the file gives back\<close>

lemma map_fst_saved [simp]: "fst ` set (saved_store d) = fst ` set d"
  by (force simp: saved_store_def sorted_keys_def)

lemma distinct_saved: "distinct (map fst d) \<Longrightarrow> distinct (map fst (saved_store d))"
proof -
  assume "distinct (map fst d)"
  moreover have "mset (map fst (saved_store d)) = mset (map fst d)"
    by (simp add: saved_store_def sorted_keys_def image_mset.compositionality o_def case_prod_beta)
  ultimately show ?thesis by (metis mset_eq_imp_distinct_iff)
qed

lemma map_of_sorted_keys: "distinct (map fst d) \<Longrightarrow> map_of (sorted_keys d) = map_of d"
proof -
  assume d: "distinct (map fst d)"
  have "mset (map fst (sorted_keys d)) = mset (map fst d)"
    by (simp add: sorted_keys_def)
  with d have "distinct (map fst (sorted_keys d))" by (metis mset_eq_imp_distinct_iff)
  then show ?thesis using d by (simp add: map_of_inject_set) (simp add: sorted_keys_def)
qed

lemma update_absent: "k \<notin> fst ` set d \<Longrightarrow> AList.update k v d = d @ [(k, v)]"
  by (induction d) auto

lemma dict_update_self: "distinct (map fst (d @ e)) \<Longrightarrow> dict_update d e = d @ e"
proof (induction e arbitrary: d)
  case (Cons x e)
  obtain k v where x: "x = (k, v)" by force
  with Cons.prems have "k \<notin> fst ` set d" by auto
  then have "AList.update k v d = d @ [(k, v)]" by (rule update_absent)
  with Cons x show ?case by simp
qed simp

lemma flagged_load_distinct: "distinct (map fst f) \<Longrightarrow> flagged_load (Some f) = f"
  by (simp add: flagged_load_def dict_update_self)

lemma map_of_saved: "distinct (map fst d) \<Longrightarrow> map_of (saved_store d) = map_option saved_tx \<circ> map_of d"
proof -
  assume d: "distinct (map fst d)"
  have "map_of (map (\<lambda>(t, e). (t, saved_tx e)) d) = map_option saved_tx \<circ> map_of d"
    by (induction d) (auto simp: fun_eq_iff)
  moreover have "distinct (map fst (map (\<lambda>(t, e). (t, saved_tx e)) d))"
    using d by (simp add: o_def case_prod_beta)
  ultimately show ?thesis by (simp add: saved_store_def map_of_sorted_keys)
qed

lemma saved_status [simp]: "fx_status (saved_tx e) = fx_status e"
  by (simp add: saved_tx_def)

lemma loaded_saved: "distinct (map fst d) \<Longrightarrow> loaded (saved_store d) = tracked_of d"
  by (simp add: loaded_def flagged_load_distinct distinct_saved tracked_of_def map_of_saved fun_eq_iff
      option.map_comp o_def)

end
