(* ===== verification/Sanctions_List.thy ===== *)
theory Sanctions_List
  imports Prelude
begin

text \<open>
  btc_parser_app/rpc/sanctions_list.py: the list of sanctioned addresses, read from CSV files and
  reloaded when one of them changes. What the operating system and \<open>csv.reader\<close> give for a file at
  the time of a call is a parameter: \<open>stat\<close> its modification time, \<open>rows\<close> its rows of fields, the
  header first. Letters are lowered as ASCII.
\<close>

section \<open>Addresses\<close>

definition lower_char :: "char \<Rightarrow> char" where
  "lower_char c = (if 65 \<le> (of_char c :: nat) \<and> (of_char c :: nat) \<le> 90 then char_of (of_char c + 32 :: nat) else c)"

definition lower :: "string \<Rightarrow> string" where
  "lower s = map lower_char s"

definition startswith :: "string \<Rightarrow> string \<Rightarrow> bool" where
  "startswith s p \<longleftrightarrow> take (length p) s = p"

definition BECH32_PREFIXES :: "string list" where
  "BECH32_PREFIXES = [''bc1'', ''tb1'', ''bcrt1'']"

definition normalize_address :: "string \<Rightarrow> string" where
  "normalize_address address =
     (let a = strip address in if list_ex (startswith (lower a)) BECH32_PREFIXES then lower a else a)"

record sanctioned_address =
  sa_address :: string
  sa_name :: string
  sa_first_name :: string
  sa_programs :: string
  sa_list_file :: string

section \<open>One file\<close>

text \<open>
  A row of \<open>csv.DictReader\<close>: the fields by column, None where the row is too short; what exceeds
  the header is kept under the key None, which nothing reads.
\<close>

definition dict_row :: "string list \<Rightarrow> string list \<Rightarrow> (string, string option) pydict" where
  "dict_row names vals =
     dict_update (dict_update [] (zip names (map Some vals))) (map (\<lambda>n. (n, None)) (drop (length vals) names))"

text \<open>\<open>row.get(k) or ""\<close>.\<close>

definition cell_of :: "(string, string option) pydict \<Rightarrow> string \<Rightarrow> string" where
  "cell_of r k = (case map_of r k of Some (Some v) \<Rightarrow> v | _ \<Rightarrow> '''')"

definition load_row ::
    "string \<Rightarrow> (string, string option) pydict \<Rightarrow> (string, sanctioned_address) pydict \<Rightarrow> (string, sanctioned_address) pydict" where
  "load_row list_file r entries =
     (let address = normalize_address (cell_of r ''address'') in
      if address = '''' \<or> map_of entries address \<noteq> None then entries
      else AList.update address
        \<lparr>sa_address = address, sa_name = strip (cell_of r ''name''), sa_first_name = strip (cell_of r ''first_name''),
         sa_programs = strip (cell_of r ''sanctions_programs''), sa_list_file = list_file\<rparr> entries)"

text \<open>The reader skips empty rows below the header.\<close>

definition load_file :: "string \<Rightarrow> exn + string list list \<Rightarrow> exn + (string, sanctioned_address) pydict" where
  "load_file list_file rows =
     bindE rows (\<lambda>rs.
       case rs of
         [] \<Rightarrow> Inr []
       | header # body \<Rightarrow>
           (let names = map (lower \<circ> strip) header in
            if ''address'' \<notin> set names then Inl (ValueError ''no address column in header'')
            else Inr (fold (\<lambda>fs. load_row list_file (dict_row names fs)) (filter (\<lambda>fs. fs \<noteq> []) body) [])))"

section \<open>The list\<close>

text \<open>A path is the directory and the file name.\<close>

record sanctions_list =
  sl_paths :: "(string \<times> string) list"
  sl_entries :: "(string, sanctioned_address) pydict"
  sl_mtimes :: "rat list"

text \<open>\<open>merged.setdefault\<close> over the files in order.\<close>

definition set_default :: "'k \<times> 'v \<Rightarrow> ('k, 'v) pydict \<Rightarrow> ('k, 'v) pydict" where
  "set_default e d = (if map_of d (fst e) = None then AList.update (fst e) (snd e) d else d)"

fun load_files ::
    "(string \<times> string \<Rightarrow> exn + string list list) \<Rightarrow> (string \<times> string) list \<Rightarrow>
     (string, sanctioned_address) pydict \<Rightarrow> exn + (string, sanctioned_address) pydict" where
  "load_files rows [] merged = Inr merged"
| "load_files rows (p # ps) merged =
     bindE (load_file (snd p) (rows p)) (\<lambda>es. load_files rows ps (fold set_default es merged))"

fun caught_by_reload :: "exn \<Rightarrow> bool" where
  "caught_by_reload (OSError m) = True"
| "caught_by_reload (ValueError m) = True"
| "caught_by_reload (CsvError m) = True"
| "caught_by_reload _ = False"

fun is_os_error :: "exn \<Rightarrow> bool" where
  "is_os_error (OSError m) = True"
| "is_os_error _ = False"

definition reload_if_changed ::
    "(string \<times> string \<Rightarrow> exn + rat) \<Rightarrow> (string \<times> string \<Rightarrow> exn + string list list) \<Rightarrow> bool \<Rightarrow>
     (sanctions_list, bool) action" where
  "reload_if_changed stat rows force sl =
     (case mapE stat (sl_paths sl) of
        Inl x \<Rightarrow> (if is_os_error x \<and> \<not> force then (Inr False, sl) else (Inl x, sl))
      | Inr mtimes \<Rightarrow>
          if \<not> force \<and> mtimes = sl_mtimes sl then (Inr False, sl)
          else (case load_files rows (sl_paths sl) [] of
                  Inl x \<Rightarrow>
                    (if caught_by_reload x \<and> \<not> force then (Inr False, sl\<lparr>sl_mtimes := mtimes\<rparr>)
                     else (Inl x, sl))
                | Inr merged \<Rightarrow> (Inr True, sl\<lparr>sl_entries := merged, sl_mtimes := mtimes\<rparr>)))"

definition sanctions_init ::
    "(string \<times> string \<Rightarrow> exn + rat) \<Rightarrow> (string \<times> string \<Rightarrow> exn + string list list) \<Rightarrow> (string \<times> string) list \<Rightarrow>
     exn + sanctions_list" where
  "sanctions_init stat rows ps =
     (case reload_if_changed stat rows True \<lparr>sl_paths = ps, sl_entries = [], sl_mtimes = []\<rparr> of
        (Inl x, _) \<Rightarrow> Inl x | (Inr _, sl) \<Rightarrow> Inr sl)"

definition lookup :: "sanctions_list \<Rightarrow> string option \<Rightarrow> sanctioned_address option" where
  "lookup sl address =
     (case address of None \<Rightarrow> None
      | Some a \<Rightarrow> if a = '''' then None else map_of (sl_entries sl) (normalize_address a))"

section \<open>What the files list\<close>

text \<open>
  The rows of the files in the order given, every file's rows from the top, as pairs of address
  and entry; rows without an address left out.
\<close>

definition row_entry :: "string \<Rightarrow> (string, string option) pydict \<Rightarrow> (string \<times> sanctioned_address) list" where
  "row_entry list_file r =
     (let address = normalize_address (cell_of r ''address'') in
      if address = '''' then []
      else [(address, \<lparr>sa_address = address, sa_name = strip (cell_of r ''name''), sa_first_name = strip (cell_of r ''first_name''),
              sa_programs = strip (cell_of r ''sanctions_programs''), sa_list_file = list_file\<rparr>)])"

definition file_entries :: "string \<Rightarrow> exn + string list list \<Rightarrow> (string \<times> sanctioned_address) list" where
  "file_entries list_file rows =
     (case rows of
        Inr (header # body) \<Rightarrow>
          concat (map (\<lambda>fs. row_entry list_file (dict_row (map (lower \<circ> strip) header) fs)) (filter (\<lambda>fs. fs \<noteq> []) body))
      | _ \<Rightarrow> [])"

definition listed :: "(string \<times> string \<Rightarrow> exn + string list list) \<Rightarrow> (string \<times> string) list \<Rightarrow> (string \<times> sanctioned_address) list" where
  "listed rows ps = concat (map (\<lambda>p. file_entries (snd p) (rows p)) ps)"

lemma load_row_map:
  "map_of (load_row f r es) = map_of (row_entry f r) ++ map_of es"
  by (auto simp: load_row_def row_entry_def Let_def map_add_def fun_eq_iff split: option.splits)

lemma load_rows_map:
  "map_of (fold (\<lambda>fs. load_row f (dict_row ns fs)) rs es)
   = map_of (concat (map (\<lambda>fs. row_entry f (dict_row ns fs)) rs)) ++ map_of es"
  by (induction rs arbitrary: es) (auto simp: load_row_map map_add_assoc [symmetric] map_add_def fun_eq_iff split: option.splits)

lemma load_file_map:
  assumes "load_file f rows = Inr es"
  shows "map_of es = map_of (file_entries f rows)"
proof -
  obtain rs where rows: "rows = Inr rs" using assms by (cases rows) (simp_all add: load_file_def)
  show ?thesis
  proof (cases rs)
    case Nil
    with assms rows show ?thesis by (simp add: load_file_def file_entries_def)
  next
    case (Cons header body)
    with assms rows show ?thesis
      by (auto simp: load_file_def file_entries_def Let_def load_rows_map split: if_splits)
  qed
qed

lemma distinct_load_rows:
  "distinct (map fst es) \<Longrightarrow> distinct (map fst (fold (\<lambda>fs. load_row f (dict_row ns fs)) rs es))"
proof (induction rs arbitrary: es)
  case (Cons r rs)
  have "distinct (map fst (load_row f (dict_row ns r) es))"
    using Cons.prems by (simp add: load_row_def Let_def distinct_update)
  with Cons.IH show ?case by simp
qed simp

lemma distinct_load_file: "load_file f rows = Inr es \<Longrightarrow> distinct (map fst es)"
  by (cases rows)
    (auto simp: load_file_def Let_def intro: distinct_load_rows split: list.splits if_splits)

lemma set_defaults_map:
  "distinct (map fst es) \<Longrightarrow> map_of (fold set_default es d) = map_of es ++ map_of d"
proof (induction es arbitrary: d)
  case (Cons e es)
  have "map_of (set_default e d) = map_of d ++ [fst e \<mapsto> snd e] ++ map_of d"
    by (auto simp: set_default_def fun_eq_iff map_add_def split: option.splits)
  with Cons show ?case
    by (auto simp: fun_eq_iff map_add_def dom_map_of_conv_image_fst split: option.splits)
qed simp

lemma load_files_map:
  "load_files rows ps merged = Inr m \<Longrightarrow> map_of m = map_of (listed rows ps) ++ map_of merged"
proof (induction ps arbitrary: merged)
  case Nil
  then show ?case by (simp add: listed_def)
next
  case (Cons p ps)
  then obtain es where es: "load_file (snd p) (rows p) = Inr es"
    and rest: "load_files rows ps (fold set_default es merged) = Inr m"
    by (auto simp: bindE_Inr)
  show ?case
    using Cons.IH [OF rest] load_file_map [OF es] set_defaults_map [OF distinct_load_file [OF es]]
    by (simp add: listed_def)
qed


section \<open>What a lookup returns\<close>

lemma normalize_Nil [simp]: "normalize_address '''' = ''''"
  by (simp add: normalize_address_def Let_def strip_def lower_def)

lemma listed_not_Nil: "map_of (listed rows ps) '''' = None"
proof -
  have row: "fst e \<noteq> ''''" if "e \<in> set (row_entry f r)" for e f r
    using that by (auto simp: row_entry_def Let_def split: if_splits)
  have entries: "fst e \<noteq> ''''" if "e \<in> set (file_entries f rs)" for e f rs
    using that row by (fastforce simp: file_entries_def split: sum.splits list.splits)
  have "fst e \<noteq> ''''" if "e \<in> set (listed rows ps)" for e
    using that entries by (fastforce simp: listed_def)
  then show ?thesis by (force simp: map_of_eq_None_iff)
qed

lemma lookup_listed:
  assumes "map_of (sl_entries sl) = map_of (listed rows ps)"
  shows "lookup sl (Some a) = map_of (listed rows ps) (normalize_address a)"
  using assms by (simp add: lookup_def listed_not_Nil)

lemma reloaded_entries:
  "reload_if_changed stat rows force sl = (Inr True, sl') \<Longrightarrow>
   map_of (sl_entries sl') = map_of (listed rows (sl_paths sl)) \<and> sl_paths sl' = sl_paths sl"
  by (auto simp: reload_if_changed_def dest!: load_files_map split: sum.splits if_splits)

lemma sanctions_init_lookup:
  "sanctions_init stat rows ps = Inr sl \<Longrightarrow> lookup sl (Some a) = map_of (listed rows ps) (normalize_address a)"
  by (rule lookup_listed)
    (auto simp: sanctions_init_def reload_if_changed_def dest!: load_files_map split: sum.splits if_splits)


end
