(* ===== verification/Zmq_Sequence.thy ===== *)
theory Zmq_Sequence
  imports Prelude "HOL-Library.Word"
begin

text \<open>
  btc_parser_app/rpc/zmq_sequence.py: the subscriber of the node's \<open>sequence\<close> topic. The bytes of a
  message are words of eight bits. The socket is the list of the messages a call finds before
  \<open>zmq.Again\<close>, each with the clock reading at which it is taken; whether \<open>poll\<close> saw one in time is an
  argument. The context and the options of the socket are not modelled.
\<close>

section \<open>Bytes\<close>

type_synonym bytes = "8 word list"

fun le_nat :: "bytes \<Rightarrow> nat" where
  "le_nat [] = 0"
| "le_nat (b # bs) = unat b + 256 * le_nat bs"

text \<open>\<open>int.from_bytes(b, "little")\<close>.\<close>

definition from_bytes_le :: "bytes \<Rightarrow> int" where
  "from_bytes_le bs = int (le_nat bs)"

definition byte_char :: "8 word \<Rightarrow> char" where
  "byte_char b = char_of (unat b)"

definition hex_digit :: "nat \<Rightarrow> char" where
  "hex_digit d = (if d < 10 then char_of (48 + d) else char_of (87 + d))"

text \<open>\<open>bytes.hex()\<close>: two digits for each byte, the high one first.\<close>

definition hex :: "bytes \<Rightarrow> string" where
  "hex bs = concat (map (\<lambda>b. [hex_digit (unat b div 16), hex_digit (unat b mod 16)]) bs)"

definition TOPIC :: bytes where
  "TOPIC = map (\<lambda>c. word_of_nat (of_char c)) ''sequence''"

section \<open>One message\<close>

record sequence_event =
  ev_label :: char
  ev_hash :: string
  ev_mempool_sequence :: "int option"

definition parse_sequence_body :: "bytes \<Rightarrow> exn + sequence_event" where
  "parse_sequence_body body =
     (if length body < 33 then Inl (ValueError ''sequence message too short'')
      else
        (let label = byte_char (body ! 32);
             mempool_sequence =
               (if label \<in> {CHR ''A'', CHR ''R''} \<and> 41 \<le> length body
                then Some (from_bytes_le (take 8 (drop 33 body))) else None)
         in Inr \<lparr>ev_label = label, ev_hash = hex (take 32 body), ev_mempool_sequence = mempool_sequence\<rparr>))"

section \<open>The subscriber\<close>

record subscriber =
  last_counter :: "int option"
  gap_detected :: bool
  last_message_at :: rat

definition subscriber_init :: "rat \<Rightarrow> subscriber" where
  "subscriber_init now = \<lparr>last_counter = None, gap_detected = False, last_message_at = now\<rparr>"

definition check_counter :: "bytes option \<Rightarrow> subscriber \<Rightarrow> subscriber" where
  "check_counter raw sub =
     (case raw of
        None \<Rightarrow> sub
      | Some bs \<Rightarrow>
          if length bs \<noteq> 4 then sub
          else
            (let counter = from_bytes_le bs;
                 jumped = (case last_counter sub of None \<Rightarrow> False | Some l \<Rightarrow> counter \<noteq> and (l + 1) 0xFFFFFFFF)
             in sub\<lparr>gap_detected := gap_detected sub \<or> jumped, last_counter := Some counter\<rparr>))"

definition nth_frame :: "bytes list \<Rightarrow> nat \<Rightarrow> bytes option" where
  "nth_frame fs n = (if n < length fs then Some (fs ! n) else None)"

definition valid_frames :: "bytes list \<Rightarrow> bool" where
  "valid_frames fs \<longleftrightarrow> 2 \<le> length fs \<and> hd fs = TOPIC"

text \<open>
  The loop of \<open>receive_batch\<close>: the first argument is how many more events it may take. It returns
  the events, the subscriber and what is left on the socket.
\<close>

fun drain_socket ::
    "nat \<Rightarrow> (rat \<times> bytes list) list \<Rightarrow> subscriber \<Rightarrow> sequence_event list \<times> subscriber \<times> (rat \<times> bytes list) list" where
  "drain_socket 0 q sub = ([], sub, q)"
| "drain_socket (Suc n) [] sub = ([], sub, [])"
| "drain_socket (Suc n) ((now, frames) # q) sub =
     (if \<not> valid_frames frames then drain_socket (Suc n) q sub
      else
        (let sub' = check_counter (nth_frame frames 2) (sub\<lparr>last_message_at := now\<rparr>)
         in case parse_sequence_body (frames ! 1) of
              Inl _ \<Rightarrow> drain_socket (Suc n) q sub'
            | Inr e \<Rightarrow> (case drain_socket n q sub' of (es, s, q') \<Rightarrow> (e # es, s, q'))))"

definition MAX_EVENTS :: nat where
  "MAX_EVENTS = 5000"

definition receive_batch ::
    "bool \<Rightarrow> nat \<Rightarrow> (rat \<times> bytes list) list \<Rightarrow> subscriber \<Rightarrow>
     sequence_event list \<times> subscriber \<times> (rat \<times> bytes list) list" where
  "receive_batch polled max_events q sub = (if polled then drain_socket max_events q sub else ([], sub, q))"

definition take_gap :: "subscriber \<Rightarrow> bool \<times> subscriber" where
  "take_gap sub = (gap_detected sub, sub\<lparr>gap_detected := False\<rparr>)"

section \<open>What the node publishes\<close>

text \<open>
  As the module's documentation says: the hash, the label, for A and R the mempool sequence in
  eight bytes; the i-th message of the topic carries i in four bytes, which wrap around.
\<close>

primrec le_bytes :: "nat \<Rightarrow> nat \<Rightarrow> bytes" where
  "le_bytes 0 n = []"
| "le_bytes (Suc k) n = word_of_nat (n mod 256) # le_bytes k (n div 256)"

definition published_body :: "char \<Rightarrow> bytes \<Rightarrow> nat \<Rightarrow> bytes" where
  "published_body label h sequence =
     h @ [word_of_nat (of_char label)] @ (if label \<in> {CHR ''A'', CHR ''R''} then le_bytes 8 sequence else [])"

definition published :: "nat \<Rightarrow> bytes \<Rightarrow> bytes list" where
  "published i body = [TOPIC, body, le_bytes 4 (i mod 2 ^ 32)]"

lemma length_le_bytes [simp]: "length (le_bytes k n) = k"
  by (induction k arbitrary: n) simp_all

lemma le_nat_le_bytes: "le_nat (le_bytes k n) = n mod 256 ^ k"
proof (induction k arbitrary: n)
  case (Suc k)
  have "unat (word_of_nat (n mod 256) :: 8 word) = n mod 256" by (simp add: unat_of_nat)
  with Suc show ?case by (simp add: mod_mult2_eq)
qed simp

lemma byte_char_of_char [simp]: "byte_char (word_of_nat (of_char c)) = c"
proof -
  have "(of_char c :: nat) < 256" by simp
  then have "unat (word_of_nat (of_char c) :: 8 word) = of_char c" by (simp add: unat_of_nat)
  then show ?thesis by (simp add: byte_char_def)
qed

text \<open>
  Every body the node publishes is read back: the label, the hash in display order and, for
  a transaction that entered or left the mempool, its sequence number, whatever its 64 bits are.
\<close>

theorem published_body_parses:
  assumes "length h = 32" and "sequence < 2 ^ 64"
  shows "parse_sequence_body (published_body label h sequence)
         = Inr \<lparr>ev_label = label, ev_hash = hex h,
                ev_mempool_sequence = (if label \<in> {CHR ''A'', CHR ''R''} then Some (int sequence) else None)\<rparr>"
proof -
  have "le_nat (le_bytes 8 sequence) = sequence"
    using assms(2) by (simp add: le_nat_le_bytes)
  with assms(1) show ?thesis
    by (simp add: parse_sequence_body_def published_body_def nth_append from_bytes_le_def Let_def)
qed

theorem published_body_parses_witness:
  "parse_sequence_body (published_body (CHR ''R'') (replicate 32 0) (2 ^ 64 - 1))
   = Inr \<lparr>ev_label = CHR ''R'', ev_hash = hex (replicate 32 0), ev_mempool_sequence = Some (2 ^ 64 - 1)\<rparr>"
  using published_body_parses [of "replicate 32 0" "2 ^ 64 - 1" "CHR ''R''"] by (simp add: of_nat_diff)

section \<open>Lost messages\<close>

lemma counter_of_published: "from_bytes_le (le_bytes 4 (i mod 2 ^ 32)) = int i mod 2 ^ 32"
  by (simp add: from_bytes_le_def le_nat_le_bytes zmod_int)

lemma and_mask_32: "and (n :: int) 0xFFFFFFFF = n mod 2 ^ 32"
  using take_bit_eq_mask [of 32 n] by (simp add: take_bit_eq_mod mask_eq_exp_minus_1)

text \<open>A counter follows the one before it unless a message was lost, for fewer than \<open>2 ^ 32\<close> lost.\<close>

lemma counter_follows:
  assumes "i < j" and "j - i < 2 ^ 32"
  shows "int j mod 2 ^ 32 = (int i mod 2 ^ 32 + 1) mod 2 ^ 32 \<longleftrightarrow> j = Suc i"
proof
  assume "int j mod 2 ^ 32 = (int i mod 2 ^ 32 + 1) mod 2 ^ 32"
  then have "(2 ^ 32 :: int) dvd int j - (int i + 1)"
    by (simp add: mod_add_left_eq mod_eq_dvd_iff)
  moreover have "0 \<le> int j - (int i + 1)" "int j - (int i + 1) < 2 ^ 32" using assms by auto
  ultimately have "int j - (int i + 1) = 0"
    using zdvd_not_zless by fastforce
  then show "j = Suc i" by simp
qed (simp add: mod_simps add.commute)

text \<open>The positions of the messages received, after the position of the last one before.\<close>

fun received_ok :: "nat \<Rightarrow> nat list \<Rightarrow> bool" where
  "received_ok i [] = True"
| "received_ok i (j # js) = (i < j \<and> j - i < 2 ^ 32 \<and> received_ok j js)"

lemma check_published:
  assumes "last_counter sub = Some (int i mod 2 ^ 32)" and "i < j" and "j - i < 2 ^ 32"
  shows "check_counter (Some (le_bytes 4 (j mod 2 ^ 32))) sub
         = sub\<lparr>gap_detected := gap_detected sub \<or> j \<noteq> Suc i, last_counter := Some (int j mod 2 ^ 32)\<rparr>"
  using assms(1) counter_follows [OF assms(2,3)] counter_of_published [of j]
  by (simp add: check_counter_def Let_def and_mask_32)

lemma drain_published:
  assumes "list_all (\<lambda>(t, j, body). 33 \<le> length body) ms" and "received_ok i (map (fst \<circ> snd) ms)"
    and "last_counter sub = Some (int i mod 2 ^ 32)" and "length ms \<le> n"
  shows "case drain_socket n (map (\<lambda>(t, j, body). (t, published j body)) ms) sub of
           (es, sub', q) \<Rightarrow>
             map Inr es = map (\<lambda>(t, j, body). parse_sequence_body body) ms \<and> q = [] \<and>
             gap_detected sub' = (gap_detected sub \<or> map (fst \<circ> snd) ms \<noteq> [Suc i ..< Suc i + length ms])"
  using assms
proof (induction ms arbitrary: i sub n)
  case Nil
  then show ?case by (cases n) simp_all
next
  case (Cons m ms)
  obtain t j body where m: "m = (t, j, body)" by (cases m) auto
  obtain k where n: "n = Suc k" using Cons.prems by (cases n) auto
  let ?sub = "sub\<lparr>last_message_at := t, gap_detected := gap_detected sub \<or> j \<noteq> Suc i, last_counter := Some (int j mod 2 ^ 32)\<rparr>"
  have ij: "i < j" "j - i < 2 ^ 32" and body: "33 \<le> length body" using Cons.prems m by auto
  have sub: "check_counter (nth_frame (published j body) 2) (sub\<lparr>last_message_at := t\<rparr>) = ?sub"
    using check_published [OF _ ij, of "sub\<lparr>last_message_at := t\<rparr>"] Cons.prems
    by (simp add: published_def nth_frame_def)
  obtain e where e: "parse_sequence_body body = Inr e"
    using body by (simp add: parse_sequence_body_def Let_def)
  have ih: "case drain_socket k (map (\<lambda>(t, j, body). (t, published j body)) ms) ?sub of
           (es, sub', q) \<Rightarrow>
             map Inr es = map (\<lambda>(t, j, body). parse_sequence_body body) ms \<and> q = [] \<and>
             gap_detected sub' = (gap_detected ?sub \<or> map (fst \<circ> snd) ms \<noteq> [Suc j ..< Suc j + length ms])"
    by (rule Cons.IH) (use Cons.prems m n in auto)
  have step: "[Suc i ..< Suc i + length (m # ms)] = Suc i # [Suc (Suc i) ..< Suc (Suc i) + length ms]"
    by (simp add: upt_conv_Cons del: upt_Suc)
  have valid: "valid_frames (published j body)" by (simp add: valid_frames_def published_def)
  have "published j body ! 1 = body" by (simp add: published_def)
  then have "drain_socket n (map (\<lambda>(t, j, body). (t, published j body)) (m # ms)) sub
     = (case drain_socket k (map (\<lambda>(t, j, body). (t, published j body)) ms) ?sub of (es, s, q') \<Rightarrow> (e # es, s, q'))"
    using m n valid sub e by (simp add: Let_def)
  with ih step m e show ?case by (auto split: prod.splits simp: o_def simp del: upt_Suc)
qed

text \<open>
  C25. Of the messages the node published, a batch returns the events of all it finds, in order, and
  the reconciling flag is raised exactly when the positions received do not continue the last one
  received one by one, as long as fewer than \<open>2 ^ 32\<close> messages in a row are lost; the counter's
  wrap-around is no gap.
\<close>

theorem gap_iff_messages_lost:
  assumes "list_all (\<lambda>(t, j, body). 33 \<le> length body) ms"
    and "received_ok i (map (\<lambda>(t, j, body). j) ms)"
    and "last_counter sub = Some (int i mod 2 ^ 32)" and "\<not> gap_detected sub" and "length ms \<le> n"
  shows "case receive_batch True n (map (\<lambda>(t, j, body). (t, published j body)) ms) sub of
           (es, sub', q) \<Rightarrow>
             map Inr es = map (\<lambda>(t, j, body). parse_sequence_body body) ms \<and> q = [] \<and>
             (fst (take_gap sub') \<longleftrightarrow> map (\<lambda>(t, j, body). j) ms \<noteq> [i + 1 ..< i + 1 + length ms])"
proof -
  have pos: "map (\<lambda>(t, j, body). j) ms = map (fst \<circ> snd) ms" by (simp add: case_prod_beta o_def)
  show ?thesis
    using drain_published [OF assms(1) _ assms(3,5)] assms(2,4)
    by (auto simp: pos receive_batch_def take_gap_def simp del: upt_Suc split: prod.splits)
qed

theorem gap_iff_messages_lost_witness:
  "case receive_batch True 2
          (map (\<lambda>(t, j, body). (t, published j body)) [(0, 2 ^ 32, replicate 33 0), (1, 2 ^ 32 + 2, replicate 33 0)])
          \<lparr>last_counter = Some (2 ^ 32 - 1), gap_detected = False, last_message_at = 0\<rparr> of
     (es, sub', q) \<Rightarrow> length es = 2 \<and> fst (take_gap sub')"
proof -
  let ?ms = "[(0, 2 ^ 32, replicate 33 0), (1, 2 ^ 32 + 2, replicate 33 0)] :: (rat \<times> nat \<times> bytes) list"
  let ?sub = "\<lparr>last_counter = Some (2 ^ 32 - 1), gap_detected = False, last_message_at = 0\<rparr>"
  have last: "last_counter ?sub = Some (int (2 ^ 32 - 1) mod 2 ^ 32)" by (simp add: of_nat_diff)
  show ?thesis
    using gap_iff_messages_lost [of ?ms "2 ^ 32 - 1" ?sub 2, OF _ _ last]
    by (auto simp: upt_conv_Cons dest: arg_cong [where f = length] split: prod.splits)
qed

end
