(* ===== verification/Mempool_Watch.thy ===== *)
theory Mempool_Watch
  imports Mempool_State Numbers Sanctions_List Zmq_Sequence
begin

text \<open>
  btc_parser_app/rpc/mempool_watch.py: the watcher of sanctioned addresses. The node is an oracle:
  its answer to the \<open>n\<close>th call is a function of \<open>n\<close>. The order in which Python walks a set is an
  oracle too, and so are the clocks, the stop signal and what a look at the list files finds. The
  thread pool that fetches many transactions is taken to fetch them one after the other: fetching
  changes nothing of the watcher, and the node may answer any call as it likes.
\<close>

section \<open>Transactions as the node decodes them\<close>

text \<open>A Decimal is a coefficient and an exponent of ten.\<close>

datatype dec = Dec int int

fun dec_value :: "dec \<Rightarrow> rat" where
  "dec_value (Dec c e) = of_int c * pow10 e"

text \<open>The format \<open>f\<close>: as many decimals as the exponent has.\<close>

fun format_f :: "dec \<Rightarrow> string" where
  "format_f (Dec c e) =
     (let sign = (if c < 0 then ''-'' else '''');
          ds = decimal (nat \<bar>c\<bar>)
      in if 0 \<le> e then sign @ ds @ (if c = 0 then [] else replicate (nat e) CHR ''0'')
         else let k = nat (- e); padded = replicate (Suc k - length ds) CHR ''0'' @ ds
              in sign @ take (length padded - k) padded @ ''.'' @ drop (length padded - k) padded)"

definition btc_str :: "dec option \<Rightarrow> string option" where
  "btc_str v = map_option format_f v"

text \<open>Keys that the node may leave out are options; an empty list stands for a missing one.\<close>

record script_pub_key =
  sk_address :: "string option"
  sk_addresses :: "string list"

record coin =
  coin_script :: "script_pub_key option"
  coin_value :: "dec option"

record watch_vin =
  wi_coinbase :: bool
  wi_prevout :: "coin option"
  wi_txid :: "string option"
  wi_vout :: "int option"

record watch_vout =
  wo_n :: "int option"
  wo_coin :: coin

record raw_tx =
  rt_vin :: "watch_vin list"
  rt_vout :: "watch_vout list"
  rt_fee :: "dec option"
  rt_vsize :: "int option"

section \<open>Environment and state\<close>

record watch_node =
  wn_raw_tx :: "nat \<Rightarrow> string \<Rightarrow> string option \<Rightarrow> exn + raw_tx"
  wn_tx_out :: "nat \<Rightarrow> string \<Rightarrow> int \<Rightarrow> exn + coin option"
  wn_spending :: "nat \<Rightarrow> (string \<times> int) list \<Rightarrow> exn + string option list"
  wn_block_txids :: "nat \<Rightarrow> string \<Rightarrow> exn + int \<times> int \<times> string list"
  wn_confirmations :: "nat \<Rightarrow> string \<Rightarrow> exn + int option"
  wn_block_hash :: "nat \<Rightarrow> int \<Rightarrow> exn + string"
  wn_block_count :: "nat \<Rightarrow> exn + int"
  wn_mempool :: "nat \<Rightarrow> exn + string list"
  wn_version :: "nat \<Rightarrow> exn + int option"

record watch_env =
  we_write :: csv_write
  we_node :: watch_node
  we_stop :: "nat \<Rightarrow> bool"
  we_now :: "nat \<Rightarrow> string"
  we_clock :: "nat \<Rightarrow> rat"
  we_order :: "nat \<Rightarrow> string set \<Rightarrow> string list"
  we_stat :: "nat \<Rightarrow> string \<times> string \<Rightarrow> exn + rat"
  we_rows :: "nat \<Rightarrow> string \<times> string \<Rightarrow> exn + string list list"
  we_arrivals :: "nat \<Rightarrow> (rat \<times> bytes list) list"

record watch_config =
  wc_zmq_endpoint :: "string option"
  wc_sanctions_list_paths :: "(string \<times> string) list"
  wc_output_dir :: string
  wc_reconcile_interval_seconds :: rat
  wc_max_confirmation_scan_blocks :: int
  wc_forget_after_confirmations :: int

text \<open>\<open>looks\<close> counts whatever is asked of an oracle.\<close>

record watcher =
  w_disk :: disk
  w_flagged :: flagged_store
  w_sanctions :: sanctions_list
  w_checked :: "string set"
  w_unfetched :: "string set"
  w_tip_height :: int
  w_looks :: nat

type_synonym 'a watching = "(watcher, 'a) action"

definition ask :: "(nat \<Rightarrow> exn + 'a) \<Rightarrow> 'a watching" where
  "ask answer s = (answer (w_looks s), s\<lparr>w_looks := w_looks s + 1\<rparr>)"

definition look :: "(nat \<Rightarrow> 'a) \<Rightarrow> 'a watching" where
  "look f = ask (\<lambda>n. Inr (f n))"

definition on_flagged :: "(flagged_store \<Rightarrow> flagged_store) \<Rightarrow> unit watching" where
  "on_flagged f = updA (\<lambda>s. s\<lparr>w_flagged := f (w_flagged s)\<rparr>)"

definition on_checked :: "(string set \<Rightarrow> string set) \<Rightarrow> unit watching" where
  "on_checked f = updA (\<lambda>s. s\<lparr>w_checked := f (w_checked s)\<rparr>)"

definition on_unfetched :: "(string set \<Rightarrow> string set) \<Rightarrow> unit watching" where
  "on_unfetched f = updA (\<lambda>s. s\<lparr>w_unfetched := f (w_unfetched s)\<rparr>)"

section \<open>Matching a transaction against the list\<close>

text \<open>\<open>xs[i]\<close> of a Python list.\<close>

definition py_nth :: "'a list \<Rightarrow> int \<Rightarrow> exn + 'a" where
  "py_nth xs i =
     (let j = (if i < 0 then i + int (length xs) else i)
      in if 0 \<le> j \<and> j < int (length xs) then Inr (xs ! nat j) else Inl IndexError)"

definition need :: "string \<Rightarrow> 'a option \<Rightarrow> exn + 'a" where
  "need k v = (case v of None \<Rightarrow> Inl (KeyError k) | Some x \<Rightarrow> Inr x)"

definition get_raw_transaction :: "watch_env \<Rightarrow> string \<Rightarrow> string option \<Rightarrow> raw_tx watching" where
  "get_raw_transaction e txid blockhash =
     ask (\<lambda>n. wn_raw_tx (we_node e) n txid (if blockhash = Some '''' then None else blockhash))"

fun is_rpc_error :: "exn \<Rightarrow> bool" where
  "is_rpc_error (RpcError m) = True"
| "is_rpc_error _ = False"

fun missing_prevout :: "exn \<Rightarrow> bool" where
  "missing_prevout (RpcError m) = True"
| "missing_prevout IndexError = True"
| "missing_prevout (KeyError k) = True"
| "missing_prevout _ = False"

definition prevout :: "watch_env \<Rightarrow> watch_vin \<Rightarrow> coin option watching" where
  "prevout e vin =
     (case wi_prevout vin of
        Some c \<Rightarrow> ret (Some c)
      | None \<Rightarrow>
          catchA
            (bindA (liftA (need ''txid'' (wi_txid vin))) (\<lambda>txid.
             bindA (liftA (need ''vout'' (wi_vout vin))) (\<lambda>n.
             bindA (ask (\<lambda>k. wn_tx_out (we_node e) k txid n)) (\<lambda>out.
               case out of
                 Some c \<Rightarrow> ret (Some c)
               | None \<Rightarrow>
                   bindA (get_raw_transaction e txid None) (\<lambda>parent.
                   bindA (liftA (py_nth (rt_vout parent) n)) (\<lambda>vout. ret (Some (wo_coin vout))))))))
            missing_prevout (\<lambda>_. ret None))"

definition script_address :: "script_pub_key option \<Rightarrow> string option" where
  "script_address sk =
     (case sk of
        None \<Rightarrow> None
      | Some k \<Rightarrow>
          (case sk_address k of
             Some a \<Rightarrow> Some a
           | None \<Rightarrow> if length (sk_addresses k) = 1 then Some (hd (sk_addresses k)) else None))"

definition match_row :: "string \<Rightarrow> int \<Rightarrow> string \<Rightarrow> dec option \<Rightarrow> sanctioned_address \<Rightarrow> row" where
  "match_row direction index address v entry =
     [(''direction'', CStr direction),
      (''io_index'', CInt index),
      (''address'', CStr address),
      (''value_sats'', opt_cell CInt (btc_to_sats (map_option dec_value v))),
      (''value_btc'', opt_cell CStr (btc_str v)),
      (''name'', CStr (sa_name entry)),
      (''first_name'', CStr (sa_first_name entry)),
      (''sanctions_programs'', CStr (sa_programs entry)),
      (''list_file'', CStr (sa_list_file entry))]"

text \<open>A row for a coin whose address is listed.\<close>

definition match_coin :: "sanctions_list \<Rightarrow> string \<Rightarrow> exn + int \<Rightarrow> coin \<Rightarrow> exn + row list" where
  "match_coin sl direction index c =
     (let address = script_address (coin_script c) in
      case lookup sl address of
        None \<Rightarrow> Inr []
      | Some entry \<Rightarrow> bindE index (\<lambda>i. Inr [match_row direction i (the address) (coin_value c) entry]))"

fun match_vins :: "watch_env \<Rightarrow> sanctions_list \<Rightarrow> int \<Rightarrow> watch_vin list \<Rightarrow> row list watching" where
  "match_vins e sl index [] = ret []"
| "match_vins e sl index (vin # vins) =
     bindA (if wi_coinbase vin then ret None else prevout e vin) (\<lambda>p.
     bindA (case p of None \<Rightarrow> ret [] | Some c \<Rightarrow> liftA (match_coin sl ''input'' (Inr index) c)) (\<lambda>rows.
     bindA (match_vins e sl (index + 1) vins) (\<lambda>more. ret (rows @ more))))"

definition match_vouts :: "sanctions_list \<Rightarrow> watch_vout list \<Rightarrow> exn + row list" where
  "match_vouts sl vouts =
     bindE (mapE (\<lambda>o'. match_coin sl ''output'' (need ''n'' (wo_n o')) (wo_coin o')) vouts) (\<lambda>rows. Inr (concat rows))"

definition match_tx :: "watch_env \<Rightarrow> sanctions_list \<Rightarrow> raw_tx \<Rightarrow> row list watching" where
  "match_tx e sl tx =
     bindA (match_vins e sl 0 (rt_vin tx)) (\<lambda>ins.
     bindA (liftA (match_vouts sl (rt_vout tx))) (\<lambda>outs. ret (ins @ outs)))"

section \<open>The export\<close>

definition EVENT_COLUMNS :: "string list" where
  "EVENT_COLUMNS =
     [''observed_at'', ''event'', ''txid'', ''direction'', ''io_index'', ''address'', ''value_sats'', ''value_btc'',
      ''name'', ''first_name'', ''sanctions_programs'', ''list_file'', ''tx_fee_btc'', ''tx_vsize'',
      ''first_seen_at'', ''block_height'', ''block_hash'', ''replaced_by_txid'', ''source'', ''detail'']"

definition events_base :: "watch_config \<Rightarrow> base" where
  "events_base c = \<lparr>b_dir = wc_output_dir c, b_stem = ''sanctioned_tx_events'', b_suffix = ''.csv''\<rparr>"

definition export_common ::
    "string \<Rightarrow> string \<Rightarrow> flagged_tx \<Rightarrow> string \<Rightarrow> string option \<Rightarrow> string option \<Rightarrow> row" where
  "export_common now event tx source replaced_by detail =
     [(''observed_at'', CStr now),
      (''event'', CStr event),
      (''txid'', CStr (fx_txid tx)),
      (''tx_fee_btc'', opt_cell CStr (fx_fee_btc tx)),
      (''tx_vsize'', opt_cell CInt (fx_vsize tx)),
      (''first_seen_at'', CStr (fx_first_seen_at tx)),
      (''block_height'', opt_cell CInt (fx_block_height tx)),
      (''block_hash'', opt_cell CStr (fx_block_hash tx)),
      (''replaced_by_txid'', opt_cell CStr replaced_by),
      (''source'', CStr source),
      (''detail'', opt_cell CStr detail)]"

definition export_rows ::
    "string \<Rightarrow> string \<Rightarrow> flagged_tx \<Rightarrow> string \<Rightarrow> string option \<Rightarrow> string option \<Rightarrow> row list" where
  "export_rows now event tx source replaced_by detail =
     map (\<lambda>match. map (\<lambda>column.
         (column, case map_of (dict_update match (export_common now event tx source replaced_by detail)) column of
                    Some v \<Rightarrow> v | None \<Rightarrow> CNull)) EVENT_COLUMNS)
       (fx_matches tx)"

definition export_event ::
    "watch_env \<Rightarrow> watch_config \<Rightarrow> string \<Rightarrow> flagged_tx \<Rightarrow> string \<Rightarrow> string option \<Rightarrow> string option \<Rightarrow> unit watching" where
  "export_event e c event tx source replaced_by detail =
     bindA (look (we_now e)) (\<lambda>now.
       let rows = export_rows now event tx source replaced_by detail in
       updA (\<lambda>s. s\<lparr>w_disk := write_rows_to_csv (we_write e) rows (events_base c) MAX_PART_BYTES (w_disk s),
                  w_flagged := (w_flagged s)\<lparr>fs_log := fs_log (w_flagged s) @ [Exported event (fx_txid tx) rows]\<rparr>\<rparr>))"

section \<open>Fetching\<close>

type_synonym fetched = "(raw_tx \<times> row list) option"

definition fetch_and_match :: "watch_env \<Rightarrow> string \<Rightarrow> string option \<Rightarrow> fetched watching" where
  "fetch_and_match e txid blockhash =
     bindA (catchA (bindA (get_raw_transaction e txid blockhash) (\<lambda>tx. ret (Some tx))) is_rpc_error (\<lambda>_. ret None))
       (\<lambda>r. case r of
              None \<Rightarrow> ret None
            | Some tx \<Rightarrow>
                bindA (getA w_sanctions) (\<lambda>sl. bindA (match_tx e sl tx) (\<lambda>ms. ret (Some (tx, ms)))))"

fun fetch_many :: "watch_env \<Rightarrow> string list \<Rightarrow> (string, fetched) pydict watching" where
  "fetch_many e [] = ret []"
| "fetch_many e (t # ts) =
     bindA (fetch_and_match e t None) (\<lambda>f. bindA (fetch_many e ts) (\<lambda>fs. ret ((t, f) # fs)))"

section \<open>Events\<close>

fun tx_inputs :: "watch_vin list \<Rightarrow> exn + (string \<times> int) list" where
  "tx_inputs [] = Inr []"
| "tx_inputs (vin # vins) =
     (if wi_coinbase vin then tx_inputs vins
      else bindE (need ''txid'' (wi_txid vin)) (\<lambda>t.
           bindE (need ''vout'' (wi_vout vin)) (\<lambda>n.
           bindE (tx_inputs vins) (\<lambda>rest. Inr ((t, n) # rest)))))"

definition on_added :: "watch_env \<Rightarrow> watch_config \<Rightarrow> string \<Rightarrow> fetched \<Rightarrow> string \<Rightarrow> unit watching" where
  "on_added e c txid f source =
     (case f of
        None \<Rightarrow> ret ()
      | Some (tx, matches) \<Rightarrow>
          thenA (on_checked (insert txid))
          (bindA (getA (\<lambda>s. flagged_get (w_flagged s) txid)) (\<lambda>known.
             if matches = [] \<or> known \<noteq> None then ret ()
             else
               bindA (look (we_now e)) (\<lambda>now.
               bindA (getA w_tip_height) (\<lambda>tip.
               bindA (liftA (tx_inputs (rt_vin tx))) (\<lambda>inputs.
               let entry = \<lparr>fx_txid = txid, fx_first_seen_at = now, fx_first_seen_height = tip,
                            fx_fee_btc = btc_str (rt_fee tx), fx_vsize = rt_vsize tx, fx_inputs = inputs,
                            fx_matches = matches, fx_status = In_mempool, fx_block_hash = None,
                            fx_block_height = None\<rparr>
               in thenA (export_event e c ''seen'' entry source None None) (on_flagged (flagged_put entry))))))))"

text \<open>\<open>next(...)\<close> over the spending transactions: the first that is neither missing nor the entry itself.\<close>

definition first_other :: "string \<Rightarrow> string option list \<Rightarrow> string option" where
  "first_other txid spends =
     (case List.find (\<lambda>s. s \<notin> {None, Some txid}) spends of None \<Rightarrow> None | Some s \<Rightarrow> s)"

definition replacement :: "watch_env \<Rightarrow> flagged_tx \<Rightarrow> string option watching" where
  "replacement e entry =
     (if fx_inputs entry = [] then ret None
      else catchA
             (bindA (ask (\<lambda>n. wn_spending (we_node e) n (fx_inputs entry))) (\<lambda>spends.
                ret (first_other (fx_txid entry) spends)))
             is_rpc_error (\<lambda>_. ret None))"

definition on_left_unmined :: "watch_env \<Rightarrow> watch_config \<Rightarrow> flagged_tx \<Rightarrow> string \<Rightarrow> string \<Rightarrow> unit watching" where
  "on_left_unmined e c entry source detail =
     bindA (replacement e entry) (\<lambda>replaced_by.
       thenA
         (if replaced_by \<noteq> None \<and> replaced_by \<noteq> Some ''''
          then export_event e c ''replaced'' entry source replaced_by None
          else export_event e c ''removed'' entry source None (Some detail))
         (on_flagged (flagged_remove (fx_txid entry))))"

definition on_removed :: "watch_env \<Rightarrow> watch_config \<Rightarrow> string \<Rightarrow> unit watching" where
  "on_removed e c txid =
     thenA (on_checked (\<lambda>s. s - {txid}))
     (bindA (getA (\<lambda>s. flagged_get (w_flagged s) txid)) (\<lambda>entry.
        case entry of
          Some f \<Rightarrow> if fx_status f = In_mempool then on_left_unmined e c f ''zmq'' ''removed_from_mempool'' else ret ()
        | None \<Rightarrow> ret ()))"

definition mark_confirmed ::
    "watch_env \<Rightarrow> watch_config \<Rightarrow> flagged_tx \<Rightarrow> string \<Rightarrow> int \<Rightarrow> string \<Rightarrow> unit watching" where
  "mark_confirmed e c entry block_hash height source =
     (let entry' = entry\<lparr>fx_status := Confirmed, fx_block_hash := Some block_hash, fx_block_height := Some height\<rparr>
      in thenA (export_event e c ''confirmed'' entry' source None None) (on_flagged (flagged_put entry')))"

text \<open>
  The body of the loop of \<open>_check_confirmed_depth\<close>. The exported event still names the block that
  left the chain; the entry is saved without it.
\<close>

definition reorg_detail :: "flagged_tx \<Rightarrow> string" where
  "reorg_detail entry =
     ''block '' @ (case fx_block_height entry of None \<Rightarrow> ''None'' | Some h \<Rightarrow> show_int h) @ '' '' @
     (case fx_block_hash entry of None \<Rightarrow> ''None'' | Some b \<Rightarrow> b) @ '' left the active chain''"

definition check_depth_of :: "watch_env \<Rightarrow> watch_config \<Rightarrow> flagged_tx \<Rightarrow> unit watching" where
  "check_depth_of e c entry =
     (case fx_block_hash entry of
        None \<Rightarrow> ret ()
      | Some b \<Rightarrow>
          if fx_status entry \<noteq> Confirmed then ret ()
          else
            bindA (ask (\<lambda>n. wn_confirmations (we_node e) n b)) (\<lambda>conf.
              let confirmations = (case conf of None \<Rightarrow> - 1 | Some k \<Rightarrow> k);
                  back = entry\<lparr>fx_status := In_mempool\<rparr>
              in if confirmations = - 1
                 then thenA (export_event e c ''unconfirmed'' back ''reorg'' None (Some (reorg_detail entry)))
                            (on_flagged (flagged_put (back\<lparr>fx_block_hash := None, fx_block_height := None\<rparr>)))
                 else if wc_forget_after_confirmations c \<le> confirmations
                 then on_flagged (flagged_remove (fx_txid entry))
                 else ret ()))"

definition check_confirmed_depth :: "watch_env \<Rightarrow> watch_config \<Rightarrow> unit watching" where
  "check_confirmed_depth e c =
     bindA (getA (\<lambda>s. flagged_all (w_flagged s))) (\<lambda>entries. forA entries (check_depth_of e c))"

definition get_block_txids :: "watch_env \<Rightarrow> string \<Rightarrow> (int \<times> int \<times> string list) watching" where
  "get_block_txids e b = ask (\<lambda>n. wn_block_txids (we_node e) n b)"

definition on_block_connected :: "watch_env \<Rightarrow> watch_config \<Rightarrow> string \<Rightarrow> unit watching" where
  "on_block_connected e c block_hash =
     bindA (get_block_txids e block_hash) (\<lambda>(height, confirmations, txids).
     thenA (updA (\<lambda>s. s\<lparr>w_tip_height := max (w_tip_height s) height\<rparr>))
     (bindA (getA w_unfetched) (\<lambda>unfetched.
      bindA (look (\<lambda>n. we_order e n (unfetched \<inter> set txids))) (\<lambda>late.
      thenA (forA late (\<lambda>t. bindA (fetch_and_match e t (Some block_hash)) (\<lambda>f. on_added e c t f ''zmq'')))
      (thenA (on_unfetched (\<lambda>s. s - set txids))
      (thenA (on_checked (\<lambda>s. s - set txids))
      (bindA (getA (\<lambda>s. flagged_all (w_flagged s))) (\<lambda>entries.
       thenA (forA entries (\<lambda>entry.
                if fx_status entry = In_mempool \<and> fx_txid entry \<in> set txids
                then mark_confirmed e c entry block_hash height ''zmq'' else ret ()))
             (check_confirmed_depth e c)))))))))"

definition handle_event :: "watch_env \<Rightarrow> watch_config \<Rightarrow> (string, fetched) pydict \<Rightarrow> sequence_event \<Rightarrow> unit watching" where
  "handle_event e c fetched ev =
     (if ev_label ev = CHR ''A'' then
        (case map_of fetched (ev_hash ev) of
           None \<Rightarrow> ret ()
         | Some None \<Rightarrow> on_unfetched (insert (ev_hash ev))
         | Some (Some f) \<Rightarrow> on_added e c (ev_hash ev) (Some f) ''zmq'')
      else if ev_label ev = CHR ''R'' then
        thenA (on_unfetched (\<lambda>s. s - {ev_hash ev})) (on_removed e c (ev_hash ev))
      else if ev_label ev = CHR ''C'' then on_block_connected e c (ev_hash ev)
      else if ev_label ev = CHR ''D'' then check_confirmed_depth e c
      else ret ())"

definition handle_events :: "watch_env \<Rightarrow> watch_config \<Rightarrow> sequence_event list \<Rightarrow> unit watching" where
  "handle_events e c events =
     bindA (getA w_checked) (\<lambda>checked.
     bindA (look (\<lambda>n. we_order e n
              (ev_hash ` set (filter (\<lambda>ev. ev_label ev = CHR ''A'' \<and> ev_hash ev \<notin> checked) events))))
       (\<lambda>added.
     bindA (fetch_many e added) (\<lambda>fetched. forA events (handle_event e c fetched))))"

section \<open>Reconciling\<close>

type_synonym block_cache = "(int, string \<times> string list) pydict"

fun find_confirming :: "watch_env \<Rightarrow> string \<Rightarrow> int list \<Rightarrow> block_cache \<Rightarrow> ((string \<times> int) option \<times> block_cache) watching" where
  "find_confirming e txid [] cache = ret (None, cache)"
| "find_confirming e txid (height # heights) cache =
     bindA (case map_of cache height of
              Some b \<Rightarrow> ret (b, cache)
            | None \<Rightarrow>
                bindA (ask (\<lambda>n. wn_block_hash (we_node e) n height)) (\<lambda>block_hash.
                bindA (get_block_txids e block_hash) (\<lambda>(h, confirmations, txids).
                  ret ((block_hash, txids), AList.update height (block_hash, txids) cache))))
       (\<lambda>((block_hash, txids), cache').
          if txid \<in> set txids then ret (Some (block_hash, height), cache')
          else find_confirming e txid heights cache')"

definition scan_heights :: "watch_config \<Rightarrow> int \<Rightarrow> int \<Rightarrow> int list" where
  "scan_heights c tip first_seen =
     (let lowest = max (max first_seen (tip - wc_max_confirmation_scan_blocks c + 1)) 0 in rev [lowest..tip])"

definition find_confirming_block ::
    "watch_env \<Rightarrow> watch_config \<Rightarrow> flagged_tx \<Rightarrow> block_cache \<Rightarrow> ((string \<times> int) option \<times> block_cache) watching" where
  "find_confirming_block e c entry cache =
     bindA (getA w_tip_height) (\<lambda>tip.
       find_confirming e (fx_txid entry) (scan_heights c tip (fx_first_seen_height entry)) cache)"

definition RECONCILE_CHUNK :: nat where
  "RECONCILE_CHUNK = 500"

text \<open>The chunks of new transactions; False when the stop signal ended the pass.\<close>

function check_new :: "watch_env \<Rightarrow> watch_config \<Rightarrow> string \<Rightarrow> string list \<Rightarrow> bool watching" where
  "check_new e c source new =
     (if new = [] then ret True
      else
        bindA (look (we_stop e)) (\<lambda>stop.
          if stop then ret False
          else
            bindA (fetch_many e (take RECONCILE_CHUNK new)) (\<lambda>fetched.
              thenA (forA fetched (\<lambda>(t, f). on_added e c t f source))
                    (check_new e c source (drop RECONCILE_CHUNK new)))))"
  by pat_completeness auto
termination
  by (relation "measure (\<lambda>(e, c, source, new). length new)") (auto simp: RECONCILE_CHUNK_def)

declare check_new.simps [simp del]

fun settle_left :: "watch_env \<Rightarrow> watch_config \<Rightarrow> string \<Rightarrow> string set \<Rightarrow> flagged_tx list \<Rightarrow> block_cache \<Rightarrow> unit watching" where
  "settle_left e c source mempool [] cache = ret ()"
| "settle_left e c source mempool (entry # entries) cache =
     (if fx_status entry \<noteq> In_mempool \<or> fx_txid entry \<in> mempool then settle_left e c source mempool entries cache
      else
        bindA (find_confirming_block e c entry cache) (\<lambda>(found, cache').
          thenA (case found of
                   Some (b, h) \<Rightarrow> mark_confirmed e c entry b h source
                 | None \<Rightarrow> on_left_unmined e c entry source ''left_mempool_unobserved'')
                (settle_left e c source mempool entries cache')))"

definition reconcile :: "watch_env \<Rightarrow> watch_config \<Rightarrow> string \<Rightarrow> unit watching" where
  "reconcile e c source =
     bindA (ask (wn_mempool (we_node e))) (\<lambda>txids.
     bindA (ask (wn_block_count (we_node e))) (\<lambda>tip.
     thenA (updA (\<lambda>s. s\<lparr>w_tip_height := tip\<rparr>))
     (bindA (getA w_checked) (\<lambda>checked.
      bindA (look (\<lambda>n. we_order e n (set txids - checked))) (\<lambda>new.
      thenA (on_checked (\<lambda>s. s \<inter> set txids))
      (bindA (check_new e c source new) (\<lambda>finished.
         if \<not> finished then ret ()
         else
           bindA (getA (\<lambda>s. flagged_all (w_flagged s))) (\<lambda>entries.
           thenA (settle_left e c source (set txids) entries [])
                 (check_confirmed_depth e c)))))))))"

section \<open>The main loop\<close>

record watch_loop =
  wl_watcher :: watcher
  wl_subscriber :: "subscriber option"
  wl_queue :: "(rat \<times> bytes list) list"
  wl_reconcile_due :: bool
  wl_source :: string
  wl_next_reconcile :: rat

type_synonym 'a looping = "(watch_loop, 'a) action"

definition in_watcher :: "'a watching \<Rightarrow> 'a looping" where
  "in_watcher m s = (case m (wl_watcher s) of (r, w) \<Rightarrow> (r, s\<lparr>wl_watcher := w\<rparr>))"

definition warn_if_old_node :: "watch_env \<Rightarrow> unit watching" where
  "warn_if_old_node e = bindA (ask (wn_version (we_node e))) (\<lambda>v. ret ())"

definition reconcile_if_due :: "watch_env \<Rightarrow> watch_config \<Rightarrow> unit looping" where
  "reconcile_if_due e c =
     bindA (getA wl_reconcile_due) (\<lambda>due.
     bindA (getA wl_source) (\<lambda>source.
       if \<not> due then ret ()
       else
         thenA (if source = ''startup_scan'' then in_watcher (warn_if_old_node e) else ret ())
         (thenA (in_watcher (reconcile e c source))
         (thenA (updA (\<lambda>s. s\<lparr>wl_reconcile_due := False, wl_source := ''reconcile''\<rparr>))
         (bindA (in_watcher (look (we_clock e))) (\<lambda>now.
            updA (\<lambda>s. s\<lparr>wl_next_reconcile := now + wc_reconcile_interval_seconds c\<rparr>)))))))"

text \<open>The subscriber's part: the messages that have arrived go behind those left by the last batch.\<close>

definition take_batch :: "watch_env \<Rightarrow> sequence_event list looping" where
  "take_batch e =
     bindA (in_watcher (look (we_arrivals e))) (\<lambda>arrived.
     bindA (getA (\<lambda>s. (wl_subscriber s, wl_queue s @ arrived))) (\<lambda>(sub, queue).
       case sub of
         None \<Rightarrow> ret []
       | Some sb \<Rightarrow>
           (case receive_batch (queue \<noteq> []) MAX_EVENTS queue sb of
              (events, sb', rest) \<Rightarrow>
                thenA (updA (\<lambda>s. s\<lparr>wl_subscriber := Some sb', wl_queue := rest\<rparr>)) (ret events))))"

definition take_gap_flag :: "unit looping" where
  "take_gap_flag =
     updA (\<lambda>s. case wl_subscriber s of
                 None \<Rightarrow> s
               | Some sb \<Rightarrow>
                   (case take_gap sb of
                      (gap, sb') \<Rightarrow> s\<lparr>wl_subscriber := Some sb', wl_reconcile_due := wl_reconcile_due s \<or> gap\<rparr>))"

definition handle_batch :: "watch_env \<Rightarrow> watch_config \<Rightarrow> unit looping" where
  "handle_batch e c =
     bindA (take_batch e) (\<lambda>events.
     thenA (if events = [] then ret () else in_watcher (handle_events e c events)) take_gap_flag)"

definition reload_list :: "watch_env \<Rightarrow> bool watching" where
  "reload_list e s =
     (let n = w_looks s in
      case reload_if_changed (we_stat e n) (we_rows e n) False (w_sanctions s) of
        (r, sl) \<Rightarrow> (r, s\<lparr>w_sanctions := sl, w_looks := n + 1\<rparr>))"

definition watch_body :: "watch_env \<Rightarrow> watch_config \<Rightarrow> unit looping" where
  "watch_body e c =
     thenA (reconcile_if_due e c)
     (thenA (handle_batch e c)
     (bindA (in_watcher (reload_list e)) (\<lambda>reloaded.
      thenA (if reloaded
             then thenA (in_watcher (on_checked (\<lambda>_. {}))) (updA (\<lambda>s. s\<lparr>wl_reconcile_due := True\<rparr>))
             else ret ())
      (bindA (in_watcher (look (we_clock e))) (\<lambda>now.
         updA (\<lambda>s. s\<lparr>wl_reconcile_due := wl_reconcile_due s \<or> wl_next_reconcile s \<le> now\<rparr>))))))"

definition watch_pass :: "watch_env \<Rightarrow> watch_config \<Rightarrow> unit looping" where
  "watch_pass e c =
     catchA (watch_body e c) is_rpc_cli_error (\<lambda>_. updA (\<lambda>s. s\<lparr>wl_reconcile_due := True\<rparr>))"

text \<open>At most \<open>fuel\<close> passes; the service itself runs until it is stopped.\<close>

fun run_watch :: "nat \<Rightarrow> watch_env \<Rightarrow> watch_config \<Rightarrow> unit looping" where
  "run_watch 0 e c = ret ()"
| "run_watch (Suc fuel) e c =
     bindA (in_watcher (look (we_stop e))) (\<lambda>stop.
       if stop then ret () else thenA (watch_pass e c) (run_watch fuel e c))"

text \<open>The watcher's constructor and the start of \<open>run_mempool_watch\<close>, on the disk and the state file found.\<close>

definition watcher_init ::
    "watch_env \<Rightarrow> watch_config \<Rightarrow> disk \<Rightarrow> flagged_file option \<Rightarrow> exn + watcher" where
  "watcher_init e c d f =
     bindE (sanctions_init (we_stat e 0) (we_rows e 0) (wc_sanctions_list_paths c)) (\<lambda>sl.
       Inr \<lparr>w_disk = d, w_flagged = \<lparr>fs_entries = flagged_load f, fs_file = f, fs_log = []\<rparr>, w_sanctions = sl,
            w_checked = {}, w_unfetched = {}, w_tip_height = 0, w_looks = 1\<rparr>)"

definition watch_init ::
    "watch_env \<Rightarrow> watch_config \<Rightarrow> disk \<Rightarrow> flagged_file option \<Rightarrow> exn + watch_loop" where
  "watch_init e c d f =
     bindE (watcher_init e c d f) (\<lambda>w.
       Inr \<lparr>wl_watcher = w,
            wl_subscriber = (if wc_zmq_endpoint c \<in> {None, Some ''''} then None else Some (subscriber_init (we_clock e 0))),
            wl_queue = [], wl_reconcile_due = True, wl_source = ''startup_scan'', wl_next_reconcile = 0\<rparr>)"

definition check_single_tx ::
    "watch_env \<Rightarrow> watch_config \<Rightarrow> string \<Rightarrow> string option \<Rightarrow> exn + row list" where
  "check_single_tx e c txid blockhash =
     bindE (watcher_init e c \<lparr>files = [], log = []\<rparr> None) (\<lambda>w.
       fst (bindA (get_raw_transaction e txid blockhash) (match_tx e (w_sanctions w)) w))"

end
