(* ===== verification/Export_Schema.thy ===== *)
theory Export_Schema
  imports Block_Parser Mempool_Watch
begin

text \<open>
  btc_parser_app/export_schema.py: the column layout of every exported CSV and the columns that
  become indexed fields, with the consistency check of splunk/build_field_config.py, and the
  lemmas that the rows of the block parser have exactly these columns in this order.
\<close>

section \<open>Columns\<close>

definition script_type_columns :: "string \<Rightarrow> string list" where
  "script_type_columns prefix = map (\<lambda>t. prefix @ ''_'' @ t @ ''_count'') SCRIPT_TYPES"

definition BLOCK_COLUMNS :: "string list" where
  "BLOCK_COLUMNS =
     [''hash'', ''height'', ''version'', ''versionHex'', ''merkleroot'', ''time'',
      ''time_since_prev_block_sec'', ''mediantime'', ''nonce'', ''bits'', ''target'',
      ''difficulty'', ''chainwork'', ''chainwork_log2'', ''nTx'', ''previousblockhash'',
      ''strippedsize'', ''size'', ''weight'', ''weight_utilization_pct'',
      ''block_subsidy_sats'', ''pool_id'', ''pool_name'', ''pool_link'', ''pool_match_method'',
      ''regular_tx_count'', ''total_vin_count'', ''total_vout_count'', ''coinbase_value_sats'',
      ''coinbase_vout_count'', ''total_fees_sats'', ''fee_known_tx_count'',
      ''fee_unknown_tx_count'', ''fee_avg_sats'', ''fee_median_sats'', ''fee_max_sats'',
      ''fee_rate_avg_sat_vb'', ''fee_rate_median_sat_vb'', ''fee_rate_max_sat_vb'',
      ''effective_fee_rate_sat_vb'', ''regular_input_value_sats'',
      ''input_value_complete_tx_count'', ''regular_output_value_sats'',
      ''coin_days_destroyed_btc'', ''tx_vsize_avg'', ''tx_vsize_median'', ''tx_vsize_max'',
      ''segwit_tx_count'', ''rbf_tx_count'', ''taproot_input_tx_count'',
      ''taproot_output_tx_count'', ''op_return_tx_count'', ''op_return_output_count'',
      ''op_return_script_bytes'', ''witness_input_count'', ''witness_item_count'',
      ''witness_data_bytes'', ''scriptsig_bytes'', ''scriptpubkey_bytes''] @ script_type_columns ''vin_type'' @ script_type_columns ''vout_type''"

definition TRANSACTION_COLUMNS :: "string list" where
  "TRANSACTION_COLUMNS =
     [''block_hash'', ''block_height'', ''block_time'', ''tx_index'', ''txid'', ''wtxid'',
      ''is_coinbase'', ''version'', ''size'', ''vsize'', ''weight'', ''locktime'',
      ''fee_sats'', ''fee_source'', ''fee_rate_sat_vb'', ''input_value_sats'',
      ''output_value_sats'', ''output_value_min_sats'', ''output_value_max_sats'',
      ''output_value_avg_sats'', ''vin_count'', ''vout_count'', ''prevout_value_known_count'',
      ''prevout_height_known_count'', ''generated_input_count'', ''input_age_min_blocks'',
      ''input_age_max_blocks'', ''input_age_avg_blocks'',
      ''input_age_value_weighted_avg_blocks'', ''coin_days_destroyed_btc'',
      ''witness_input_count'', ''witness_item_count'', ''witness_data_bytes'',
      ''scriptsig_bytes'', ''scriptpubkey_bytes'', ''signals_rbf'', ''op_return_count'',
      ''op_return_script_bytes'', ''zero_value_output_count''] @ script_type_columns ''vin_type'' @ script_type_columns ''vout_type''"

definition INPUT_COLUMNS :: "string list" where
  "INPUT_COLUMNS =
     [''block_hash'', ''block_height'', ''block_time'', ''tx_index'', ''txid'', ''is_coinbase'',
      ''input_index'', ''prevout_txid'', ''prevout_vout'', ''value_sats'', ''prevout_height'',
      ''input_age_blocks'', ''prevout_generated'', ''prevout_type'', ''prevout_address'',
      ''scriptsig_bytes'', ''coinbase_hex'', ''witness_item_count'', ''witness_data_bytes'',
      ''sequence'', ''signals_rbf'', ''relative_locktime_type'', ''relative_locktime_value'']"

definition OUTPUT_COLUMNS :: "string list" where
  "OUTPUT_COLUMNS =
     [''block_hash'', ''block_height'', ''block_time'', ''tx_index'', ''txid'', ''is_coinbase'',
      ''output_index'', ''value_sats'', ''script_type'', ''script_bytes'', ''address'',
      ''is_op_return'']"

definition STALE_BLOCK_HEADER_COLUMNS :: "string list" where
  "STALE_BLOCK_HEADER_COLUMNS =
     [''observed_at'', ''height'', ''hash'', ''status'', ''header_hex'', ''header_valid'',
      ''source'', ''chaintip_status'', ''branchlen'', ''version'', ''previousblockhash'',
      ''merkleroot'', ''time'', ''bits'', ''nonce'']"

text \<open>The columns of rpc/mempool_watch.py.\<close>

definition SANCTIONED_TX_EVENT_COLUMNS :: "string list" where
  "SANCTIONED_TX_EVENT_COLUMNS = EVENT_COLUMNS"

definition PRICE_COLUMNS :: "string list" where
  "PRICE_COLUMNS = [''date_unix'', ''usd'', ''eur'']"

section \<open>Sourcetypes\<close>

record sourcetype =
  st_name :: string
  columns :: "string list"
  time_field :: string
  time_format :: string
  indexed :: "string list option"
  description :: string

definition indexed_fields :: "sourcetype \<Rightarrow> string list" where
  "indexed_fields st = (case indexed st of None \<Rightarrow> columns st | Some xs \<Rightarrow> xs)"

definition search_time_fields :: "sourcetype \<Rightarrow> string list" where
  "search_time_fields st = filter (\<lambda>c. c \<notin> set (indexed_fields st)) (columns st)"

fun join_with :: "string \<Rightarrow> string list \<Rightarrow> string" where
  "join_with sep [] = ''''"
| "join_with sep [x] = x"
| "join_with sep (x # xs) = x @ sep @ join_with sep xs"

definition header_prefix :: "sourcetype \<Rightarrow> string" where
  "header_prefix st = join_with '','' (take 2 (columns st)) @ '',''"

definition SOURCETYPES :: "sourcetype list" where
  "SOURCETYPES =
     [\<lparr>st_name = ''btc:blocks'', columns = BLOCK_COLUMNS, time_field = ''time'', time_format = ''%s'',
        indexed = None,
        description = ''btc_parser_app blocks.csv - one row per block (docs chapter 4.9)''\<rparr>,
      \<lparr>st_name = ''btc:transactions'', columns = TRANSACTION_COLUMNS, time_field = ''block_time'', time_format = ''%s'',
        indexed = Some [''block_height'', ''is_coinbase'', ''version'', ''vin_count'', ''vout_count''],
        description = ''btc_parser_app transactions.csv - one row per transaction (docs chapter 4.10)''\<rparr>,
      \<lparr>st_name = ''btc:inputs'', columns = INPUT_COLUMNS, time_field = ''block_time'', time_format = ''%s'',
        indexed = Some [''block_height'', ''is_coinbase'', ''prevout_type'', ''prevout_generated'', ''relative_locktime_type''],
        description = ''btc_parser_app inputs.csv - one row per vin (docs chapter 4.11)''\<rparr>,
      \<lparr>st_name = ''btc:outputs'', columns = OUTPUT_COLUMNS, time_field = ''block_time'', time_format = ''%s'',
        indexed = Some [''block_height'', ''is_coinbase'', ''script_type''],
        description = ''btc_parser_app outputs.csv - one row per vout (docs chapter 4.12)''\<rparr>,
      \<lparr>st_name = ''btc:stale_block_headers'', columns = STALE_BLOCK_HEADER_COLUMNS, time_field = ''observed_at'', time_format = ''%Y-%m-%dT%H:%M:%SZ'',
        indexed = None,
        description = ''btc_parser_app stale_block_headers.csv - non-active chain tips (docs chapter 5.6)''\<rparr>,
      \<lparr>st_name = ''btc:sanctioned_tx_events'', columns = SANCTIONED_TX_EVENT_COLUMNS, time_field = ''observed_at'', time_format = ''%Y-%m-%dT%H:%M:%SZ'',
        indexed = None,
        description = ''btc_parser_app mempool-watch - one row per sanctioned input/output per tx state change (seen/confirmed/replaced/removed/unconfirmed, docs chapter 11)''\<rparr>,
      \<lparr>st_name = ''btc:prices'', columns = PRICE_COLUMNS, time_field = ''date_unix'', time_format = ''%s'',
        indexed = None,
        description = ''live-polled + Kraken-imported BTC/USD/EUR minute prices (docs chapter 6.4/6.6) - date_unix is the price's own timestamp, not the poll time''\<rparr>]"

text \<open>
  \<open>_check_index_consistency\<close>: the errors as the field, the sourcetype that indexes it and, where
  another sourcetype is involved, that one.
\<close>

definition check_index_consistency :: "sourcetype list \<Rightarrow> (string \<times> string \<times> string option) list" where
  "check_index_consistency sts =
     concat (map (\<lambda>st. case indexed st of None \<Rightarrow> []
       | Some fs \<Rightarrow> concat (map (\<lambda>f.
           (if f \<notin> set (columns st) then [(f, st_name st, None)] else [])
           @ concat (map (\<lambda>other.
               if f \<in> set (columns other) \<and> f \<notin> set (indexed_fields other)
               then [(f, st_name st, Some (st_name other))] else []) sts)) fs)) sts)"

section \<open>The rows have these columns\<close>

lemma map_fst_count_cells [simp]: "map fst (count_cells d) = map fst d"
  by (simp add: count_cells_def split_beta)

lemma type_keys_columns: "type_keys p = script_type_columns p"
  by (simp add: type_keys_def script_type_columns_def type_key_def)

lemma keys_sum_types: "map fst (sum_types p f ts) = script_type_columns p"
proof -
  have "map fst (fold (\<lambda>t tot. map (\<lambda>(k, n). (k, n + count_of k (f t))) tot) ts d) = map fst d" for d
    by (rule fold_keeps [where g = "map fst"]) (simp add: split_beta)
  then show ?thesis by (simp add: sum_types_def type_keys_columns [symmetric] type_keys_def)
qed

lemma keys_tx_event:
  assumes "map fst (ts_vin_types st) = script_type_columns ''vin_type''"
    and "map fst (ts_vout_types st) = script_type_columns ''vout_type''"
  shows "map fst (tx_event cx t vi vo st) = TRANSACTION_COLUMNS"
  using assms by (simp add: tx_event_def TRANSACTION_COLUMNS_def)

lemma keys_block_event: "map fst (block_event nm b m s cw wp ts) = BLOCK_COLUMNS"
  by (simp add: block_event_def Let_def BLOCK_COLUMNS_def keys_sum_types)

lemma keys_input_event: "map fst (input_event cx i v) = INPUT_COLUMNS"
  by (simp add: input_event_def Let_def INPUT_COLUMNS_def split: prod.splits)

lemma keys_output_event: "map fst (output_event cx i v) = OUTPUT_COLUMNS"
  by (simp add: output_event_def OUTPUT_COLUMNS_def)

lemma aggregate_transaction_columns:
  assumes "aggregate_transaction c h ht tm i t = Inr a"
  shows "map fst (ta_event a) = TRANSACTION_COLUMNS \<and> (\<forall>r \<in> set (ta_inputs a). map fst r = INPUT_COLUMNS)
       \<and> (\<forall>r \<in> set (ta_outputs a). map fst r = OUTPUT_COLUMNS)"
proof -
  obtain cdd where a: "ta_stats a = stats_of t (run_vins (tx_ctx_of h ht tm i t) (vins_of t)) (run_vouts (tx_ctx_of h ht tm i t) (vouts_of t)) cdd"
    "ta_event a = tx_event (tx_ctx_of h ht tm i t) t (run_vins (tx_ctx_of h ht tm i t) (vins_of t))
       (run_vouts (tx_ctx_of h ht tm i t) (vouts_of t)) (ta_stats a)"
    "ta_inputs a = map (\<lambda>(i', v). input_event (tx_ctx_of h ht tm i t) i' v) (enumerate0 (vins_of t))"
    "ta_outputs a = map (\<lambda>(i', v). output_event (tx_ctx_of h ht tm i t) i' v) (enumerate0 (vouts_of t))"
    using aggregate_transaction_ok [OF assms] .
  have "map fst (ts_vin_types (ta_stats a)) = script_type_columns ''vin_type''"
    "map fst (ts_vout_types (ta_stats a)) = script_type_columns ''vout_type''"
    using run_vins_types [of "tx_ctx_of h ht tm i t" "vins_of t"] run_vouts_types [of "tx_ctx_of h ht tm i t" "vouts_of t"]
    by (simp_all add: a(1) counts_total_def type_keys_columns)
  with a keys_tx_event show ?thesis by (auto simp: keys_input_event keys_output_event)
qed

text \<open>
  C19. Every exported row has exactly the columns of the export schema, in its order: the block
  row, each transaction row, each input row and each output row of any block that is aggregated
  without an error (positional extraction downstream depends on it).
\<close>

theorem rows_match_schema:
  assumes "aggregate_block nm c pm b = Inr r"
  shows "map fst (ba_block r) = BLOCK_COLUMNS
       \<and> (\<forall>row \<in> set (ba_txs r). map fst row = TRANSACTION_COLUMNS)
       \<and> (\<forall>row \<in> set (ba_inputs r). map fst row = INPUT_COLUMNS)
       \<and> (\<forall>row \<in> set (ba_outputs r). map fst row = OUTPUT_COLUMNS)"
proof -
  obtain h ht tm tas m s cw wp where "bk_hash b = Some h" "bk_height b = Some ht" "bk_time b = Some tm" and r:
    "list_all2 (\<lambda>x a. aggregate_transaction c h ht tm (int (fst x)) (snd x) = Inr a) (enumerate0 (txs_of b)) tas"
    "ba_block r = block_event nm b m s cw wp (map ta_stats tas)" "ba_txs r = map ta_event tas"
    "ba_inputs r = concat (map ta_inputs tas)" "ba_outputs r = concat (map ta_outputs tas)"
    using aggregate_block_ok [OF assms] .
  have c: "map fst (ta_event a) = TRANSACTION_COLUMNS \<and> (\<forall>row \<in> set (ta_inputs a). map fst row = INPUT_COLUMNS)
       \<and> (\<forall>row \<in> set (ta_outputs a). map fst row = OUTPUT_COLUMNS)" if "a \<in> set tas" for a
    using block_txs [OF r(1) that] aggregate_transaction_columns by metis
  then show ?thesis unfolding r(2-5) by (simp add: keys_block_event)
qed

theorem rows_match_schema_witness:
  "\<exists>r. aggregate_block sample_nums mainnet_config None sample_block = Inr r \<and> map fst (ba_block r) = BLOCK_COLUMNS"
  using sample_block_ok rows_match_schema by blast

text \<open>
  The schema passes its own consistency check: every column listed as indexed is a column of
  its sourcetype, and a column listed so in one sourcetype is indexed in every sourcetype that
  has it; columns are distinct in every sourcetype, and each time column is one of them.
\<close>

theorem schema_consistent:
  "check_index_consistency SOURCETYPES = []
   \<and> list_all (\<lambda>st. distinct (columns st) \<and> time_field st \<in> set (columns st)) SOURCETYPES"
  by code_simp

text \<open>
  The rule as the module's docstring states it does not hold: a field indexed in one sourcetype
  is not indexed in every sourcetype that has the column. The size column is indexed for blocks,
  where every column is, and not for transactions; the check only looks at sourcetypes that list
  their indexed columns.
\<close>

theorem indexed_field_not_everywhere:
  "\<exists>st \<in> set SOURCETYPES. \<exists>other \<in> set SOURCETYPES.
     ''size'' \<in> set (indexed_fields st) \<and> ''size'' \<in> set (columns other) \<and> ''size'' \<notin> set (indexed_fields other)"
  by code_simp

end
