(* ===== verification/Catchup.thy ===== *)
theory Catchup
  imports Block_Parser
begin

text \<open>
  btc_parser_app/rpc/catchup.py: a fetched block as rows to export, and the pool that fetches
  blocks ahead of the writer. A worker process runs \<open>fetch\<close> at a time of its own; the result of
  the \<open>n\<close>th submission is \<open>fetch n height\<close>, so that nothing is assumed about when it ran.
\<close>

section \<open>Parsed blocks\<close>

definition PREFETCH_PER_WORKER :: int where
  "PREFETCH_PER_WORKER = 4"

record parsed_block =
  pb_height :: int
  pb_hash :: string
  pb_prev :: string
  pb_time :: int
  pb_event :: row
  pb_frames :: "(string, row list) pydict"

definition build_parsed_block ::
    "nums \<Rightarrow> parse_config \<Rightarrow> pool_matcher option \<Rightarrow> block \<Rightarrow> exn + parsed_block" where
  "build_parsed_block nm c pm b =
     bindE (aggregate_block nm c pm b) (\<lambda>a.
     bindE (key ''height'' (bk_height b)) (\<lambda>h.
     bindE (key ''hash'' (bk_hash b)) (\<lambda>bh.
     bindE (bindE (row_get (ba_block a) ''time'') py_int) (\<lambda>t.
       Inr \<lparr>pb_height = h, pb_hash = bh, pb_prev = or_else (bk_previousblockhash b) '''',
            pb_time = t, pb_event = ba_block a,
            pb_frames = [(''transactions'', ba_txs a), (''inputs'', ba_inputs a), (''outputs'', ba_outputs a)]\<rparr>))))"

text \<open>\<open>_fetch_and_parse\<close>: the worker checks the height of what it got.\<close>

definition fetch_and_parse ::
    "(int \<Rightarrow> exn + string) \<Rightarrow> (string \<Rightarrow> exn + parsed_block) \<Rightarrow> int \<Rightarrow> exn + parsed_block" where
  "fetch_and_parse get_block_hash parse_block height =
     bindE (get_block_hash height) (\<lambda>bh. bindE (parse_block bh) (\<lambda>p.
       if pb_height p \<noteq> height then Inl (RuntimeError ''getblock returned another height'') else Inr p))"

section \<open>The generator\<close>

text \<open>
  The state of a suspended generator: the results of the submitted futures still pending, oldest
  first, the heights not submitted yet, how many were submitted, and whether it has started and
  ended.
\<close>

record 'p gen =
  g_pending :: "(exn + 'p) list"
  g_rest :: "int list"
  g_submitted :: nat
  g_started :: bool
  g_ended :: bool

definition gen_init :: "int list \<Rightarrow> 'p gen" where
  "gen_init heights = \<lparr>g_pending = [], g_rest = heights, g_submitted = 0, g_started = False, g_ended = False\<rparr>"

definition gen_submit :: "(nat \<Rightarrow> int \<Rightarrow> exn + 'p) \<Rightarrow> 'p gen \<Rightarrow> 'p gen" where
  "gen_submit fetch g =
     (case g_rest g of [] \<Rightarrow> g
      | h # hs \<Rightarrow> g\<lparr>g_pending := g_pending g @ [fetch (g_submitted g) h], g_rest := hs,
                    g_submitted := g_submitted g + 1\<rparr>)"

text \<open>The first loop: submit until the window is full or the heights are used up.\<close>

definition gen_start :: "(nat \<Rightarrow> int \<Rightarrow> exn + 'p) \<Rightarrow> nat \<Rightarrow> 'p gen \<Rightarrow> 'p gen" where
  "gen_start fetch window g =
     (if g_started g then g else (gen_submit fetch ^^ max 1 window) (g\<lparr>g_started := True\<rparr>))"

text \<open>\<open>next(gen)\<close>: None is StopIteration; an exception of a worker ends the generator.\<close>

definition gen_next :: "(nat \<Rightarrow> int \<Rightarrow> exn + 'p) \<Rightarrow> nat \<Rightarrow> 'p gen \<Rightarrow> (exn + 'p) option \<times> 'p gen" where
  "gen_next fetch window g =
     (if g_ended g then (None, g)
      else let g1 = gen_start fetch window g in
           case g_pending g1 of
             [] \<Rightarrow> (None, g1\<lparr>g_ended := True\<rparr>)
           | r # rs \<Rightarrow>
               let g2 = g1\<lparr>g_pending := rs\<rparr> in
               (case r of
                  Inl e \<Rightarrow> (Some (Inl e), g2\<lparr>g_ended := True\<rparr>)
                | Inr p \<Rightarrow> (Some (Inr p), gen_submit fetch g2)))"

text \<open>The first \<open>n\<close> results of a generator, up to the end or the first exception.\<close>

fun gen_take :: "(nat \<Rightarrow> int \<Rightarrow> exn + 'p) \<Rightarrow> nat \<Rightarrow> nat \<Rightarrow> 'p gen \<Rightarrow> (exn + 'p) list" where
  "gen_take fetch window 0 g = []"
| "gen_take fetch window (Suc n) g =
     (case gen_next fetch window g of
        (None, g') \<Rightarrow> []
      | (Some r, g') \<Rightarrow> r # gen_take fetch window n g')"

text \<open>What the sequential loop would see: the results in height order, up to the first exception.\<close>

fun until_error :: "(exn + 'p) list \<Rightarrow> (exn + 'p) list" where
  "until_error [] = []"
| "until_error (r # rs) = (case r of Inl e \<Rightarrow> [r] | Inr p \<Rightarrow> r # until_error rs)"

section \<open>Order and bound of the prefetch\<close>

text \<open>
  A running generator over \<open>heights\<close>: its pending futures are the submissions \<open>done\<close> to
  \<open>g_submitted\<close>, never more than the window, and it leaves none unsubmitted while there is room.
\<close>

definition gen_ok :: "(nat \<Rightarrow> int \<Rightarrow> exn + 'p) \<Rightarrow> nat \<Rightarrow> int list \<Rightarrow> nat \<Rightarrow> 'p gen \<Rightarrow> bool" where
  "gen_ok fetch window heights done g \<longleftrightarrow>
     done \<le> g_submitted g \<and> g_submitted g \<le> length heights \<and>
     g_rest g = drop (g_submitted g) heights \<and>
     g_pending g = map (\<lambda>i. fetch i (heights ! i)) [done..<g_submitted g] \<and>
     length (g_pending g) \<le> max 1 window \<and> \<not> g_ended g"

lemma gen_ok_submit:
  assumes ok: "gen_ok fetch window heights k g" and room: "length (g_pending g) < max 1 window"
  shows "gen_ok fetch window heights k (gen_submit fetch g)"
proof (cases "g_rest g")
  case Nil
  with ok show ?thesis by (simp add: gen_submit_def)
next
  case (Cons h hs)
  let ?n = "g_submitted g"
  have r: "drop ?n heights = h # hs" using Cons ok by (simp add: gen_ok_def)
  then have n: "?n < length heights" by (cases "?n < length heights") auto
  then have h: "heights ! ?n = h" "hs = drop (Suc ?n) heights"
    using r Cons_nth_drop_Suc [OF n] by simp_all
  have e: "gen_submit fetch g = g\<lparr>g_pending := g_pending g @ [fetch ?n h], g_rest := hs, g_submitted := ?n + 1\<rparr>"
    using Cons by (simp add: gen_submit_def)
  show ?thesis using ok room n h unfolding e gen_ok_def by simp
qed

lemma gen_submit_Nil: "g_rest g = [] \<Longrightarrow> gen_submit fetch g = g"
  by (simp add: gen_submit_def)

lemma gen_submit_Cons: "g_rest g \<noteq> [] \<Longrightarrow> length (g_pending (gen_submit fetch g)) = length (g_pending g) + 1"
  by (cases "g_rest g") (simp_all add: gen_submit_def)

lemma gen_ok_iterate:
  "gen_ok fetch window heights k g \<Longrightarrow> length (g_pending g) + j \<le> max 1 window \<Longrightarrow>
   gen_ok fetch window heights k ((gen_submit fetch ^^ j) g)
   \<and> (g_rest ((gen_submit fetch ^^ j) g) = [] \<or> length (g_pending ((gen_submit fetch ^^ j) g)) = length (g_pending g) + j)"
proof (induction j)
  case (Suc j)
  then have ih: "gen_ok fetch window heights k ((gen_submit fetch ^^ j) g)"
    "g_rest ((gen_submit fetch ^^ j) g) = [] \<or> length (g_pending ((gen_submit fetch ^^ j) g)) = length (g_pending g) + j"
    by simp_all
  let ?g = "(gen_submit fetch ^^ j) g"
  show ?case
  proof (cases "g_rest ?g")
    case Nil
    with ih show ?thesis by (simp add: gen_submit_Nil)
  next
    case (Cons h hs)
    with ih Suc.prems have "length (g_pending ?g) < max 1 window" by simp
    with gen_ok_submit [OF ih(1)] Cons ih(2) gen_submit_Cons [of ?g fetch] show ?thesis by simp
  qed
qed simp

text \<open>A started generator is never starved: it has a pending future, or nothing is left.\<close>

definition gen_fed :: "'p gen \<Rightarrow> bool" where
  "gen_fed g \<longleftrightarrow> g_pending g \<noteq> [] \<or> g_rest g = []"

lemma gen_start_ok:
  assumes "\<not> g_started g" "gen_ok fetch window heights 0 g" "g_submitted g = 0"
  shows "gen_ok fetch window heights 0 (gen_start fetch window g) \<and> gen_fed (gen_start fetch window g)"
proof -
  let ?g = "g\<lparr>g_started := True\<rparr>"
  have "gen_ok fetch window heights 0 ?g" "g_pending ?g = []" using assms by (simp_all add: gen_ok_def)
  from gen_ok_iterate [OF this(1), of "max 1 window"] this(2) assms(1) show ?thesis
    by (auto simp: gen_start_def gen_fed_def)
qed

lemma started_submit [simp]: "g_started (gen_submit fetch g) = g_started g"
  by (simp add: gen_submit_def split: list.splits)

lemma started_iterate [simp]: "g_started ((gen_submit fetch ^^ j) g) = g_started g"
  by (induction j) simp_all

text \<open>The results of a started generator, from the oldest pending one on.\<close>

lemma gen_take_started:
  "gen_ok fetch window heights k g \<Longrightarrow> gen_fed g \<Longrightarrow> g_started g \<Longrightarrow> length heights - k \<le> n \<Longrightarrow>
   gen_take fetch window n g = until_error (map (\<lambda>i. fetch i (heights ! i)) [k..<length heights])"
proof (induction n arbitrary: g k)
  case 0
  then show ?case by simp
next
  case (Suc n)
  have st: "gen_start fetch window g = g" "\<not> g_ended g" using Suc.prems by (simp_all add: gen_start_def gen_ok_def)
  show ?case
  proof (cases "g_pending g")
    case Nil
    with Suc.prems have "length heights \<le> k" by (auto simp: gen_fed_def gen_ok_def)
    with Nil st show ?thesis by (simp add: gen_next_def)
  next
    case (Cons r rs)
    with Suc.prems(1) have m: "r # rs = map (\<lambda>i. fetch i (heights ! i)) [k..<g_submitted g]"
      and le: "g_submitted g \<le> length heights" by (simp_all add: gen_ok_def)
    then have k: "k < g_submitted g" "g_submitted g \<le> length heights" by (cases "k < g_submitted g"; simp)+
    with m have r: "r = fetch k (heights ! k)" "rs = map (\<lambda>i. fetch i (heights ! i)) [Suc k..<g_submitted g]"
      by (simp_all add: upt_conv_Cons)
    let ?g = "g\<lparr>g_pending := rs\<rparr>"
    have ok: "gen_ok fetch window heights (Suc k) ?g" "length rs < max 1 window"
      using Suc.prems(1) Cons k r by (auto simp: gen_ok_def)
    have up: "[k..<length heights] = k # [Suc k..<length heights]" using k by (simp add: upt_conv_Cons)
    show ?thesis
    proof (cases r)
      case (Inl e)
      with Cons st have "gen_next fetch window g = (Some (Inl e), ?g\<lparr>g_ended := True\<rparr>)" by (simp add: gen_next_def)
      moreover have "gen_take fetch window n (?g\<lparr>g_ended := True\<rparr>) = []" by (cases n) (simp_all add: gen_next_def)
      ultimately show ?thesis using Inl r(1) by (simp add: up)
    next
      case (Inr p)
      have ok': "gen_ok fetch window heights (Suc k) (gen_submit fetch ?g)" using gen_ok_submit [OF ok(1)] ok(2) by simp
      have "gen_fed (gen_submit fetch ?g)"
        using ok(1) by (auto simp: gen_fed_def gen_submit_def split: list.splits)
      with Suc.IH [OF ok'] Suc.prems have
        "gen_take fetch window n (gen_submit fetch ?g) = until_error (map (\<lambda>i. fetch i (heights ! i)) [Suc k..<length heights])"
        by simp
      with Cons st Inr r(1) show ?thesis by (simp add: up gen_next_def)
    qed
  qed
qed

section \<open>One result at a time\<close>

text \<open>A generator over \<open>heights\<close> that has handed out the results of the first \<open>k\<close>.\<close>

definition gen_at :: "(nat \<Rightarrow> int \<Rightarrow> exn + 'p) \<Rightarrow> nat \<Rightarrow> int list \<Rightarrow> nat \<Rightarrow> 'p gen \<Rightarrow> bool" where
  "gen_at fetch window heights k g \<longleftrightarrow>
     gen_ok fetch window heights k g \<and>
     (if g_started g then gen_fed g else k = 0 \<and> g_submitted g = 0)"

lemma gen_at_init: "gen_at fetch window heights 0 (gen_init heights)"
  by (simp add: gen_at_def gen_ok_def gen_init_def)

lemma gen_at_next:
  assumes g: "gen_at fetch window heights k g" and k: "k < length heights" and f: "fetch k (heights ! k) = Inr p"
  obtains g' where "gen_next fetch window g = (Some (Inr p), g')" "gen_at fetch window heights (Suc k) g'"
proof -
  let ?g = "gen_start fetch window g"
  have s: "gen_ok fetch window heights k ?g \<and> gen_fed ?g" "g_started ?g"
    using g gen_start_ok [of g fetch window heights] by (auto simp: gen_at_def gen_start_def split: if_splits)
  have ne: "\<not> g_ended g" using g by (simp add: gen_at_def gen_ok_def)
  show thesis
  proof (cases "g_pending ?g")
    case Nil
    with s k show thesis by (auto simp: gen_fed_def gen_ok_def)
  next
    case (Cons r rs)
    with s(1) have m: "r # rs = map (\<lambda>i. fetch i (heights ! i)) [k..<g_submitted ?g]" by (simp add: gen_ok_def)
    then have k': "k < g_submitted ?g" by (cases "k < g_submitted ?g") auto
    with m f have r: "r = Inr p" "rs = map (\<lambda>i. fetch i (heights ! i)) [Suc k..<g_submitted ?g]"
      by (simp_all add: upt_conv_Cons)
    let ?h = "?g\<lparr>g_pending := rs\<rparr>"
    have ok: "gen_ok fetch window heights (Suc k) ?h" "length rs < max 1 window"
      using s(1) Cons k' r by (auto simp: gen_ok_def)
    have "gen_fed (gen_submit fetch ?h)"
      using ok(1) by (auto simp: gen_fed_def gen_submit_def split: list.splits)
    with gen_ok_submit [OF ok(1)] ok(2) s(2) have "gen_at fetch window heights (Suc k) (gen_submit fetch ?h)"
      by (simp add: gen_at_def)
    moreover have "gen_next fetch window g = (Some (Inr p), gen_submit fetch ?h)"
      using ne Cons r by (simp add: gen_next_def Let_def)
    ultimately show thesis by (intro that)
  qed
qed

section \<open>Properties\<close>

text \<open>
  C29. The pool hands blocks back exactly as the sequential loop would meet them: whatever the
  number of workers and whenever each fetch ran, taking results from the generator gives one
  result per height, in height order, ending at the first failure, which is raised at the height
  it belongs to after every earlier block was handed over.
\<close>

theorem prefetch_in_order:
  fixes fetch :: "nat \<Rightarrow> int \<Rightarrow> exn + 'p"
  assumes "length heights \<le> n"
  shows "gen_take fetch window n (gen_init heights)
         = until_error (map (\<lambda>i. fetch i (heights ! i)) [0..<length heights])"
proof (cases n)
  case 0
  with assms show ?thesis by simp
next
  case (Suc m)
  let ?g = "gen_start fetch window (gen_init heights)"
  have "gen_ok fetch window heights 0 (gen_init heights)" by (simp add: gen_ok_def gen_init_def)
  then have ok: "gen_ok fetch window heights 0 ?g" "gen_fed ?g"
    using gen_start_ok [of "gen_init heights" fetch window heights] by (simp_all add: gen_init_def)
  have st: "g_started ?g" by (simp add: gen_start_def gen_init_def)
  then have "gen_start fetch window ?g = ?g" by (simp add: gen_start_def)
  moreover have "\<not> g_ended ?g" using ok by (simp add: gen_ok_def)
  moreover have "\<not> g_ended (gen_init heights :: 'p gen)" by (simp add: gen_init_def)
  ultimately have "gen_next fetch window (gen_init heights) = gen_next fetch window ?g" by (simp add: gen_next_def)
  then have "gen_take fetch window n (gen_init heights) = gen_take fetch window n ?g" by (simp add: Suc)
  with gen_take_started [OF ok st, of n] assms show ?thesis by simp
qed

theorem prefetch_in_order_witness:
  "gen_take (\<lambda>i h. if h = 12 then Inl (RpcCliError ''down'') else Inr h) 2 4 (gen_init [10, 11, 12, 13])
   = [Inr 10, Inr 11, Inl (RpcCliError ''down'')]"
  using prefetch_in_order [of "[10, 11, 12, 13]" 4 "\<lambda>i h. if h = 12 then Inl (RpcCliError ''down'') else Inr (h :: int)" 2]
  by (simp add: upt_rec)

end
