(* ===== verification/Ingest.thy ===== *)
theory Ingest
  imports Catchup Part_Writer Reorg_State
begin

text \<open>
  btc_parser_app/rpc/ingest.py: the ingest loop over the node, the index, the canonical flags, the
  part sequencers and the disk. The node is an oracle: its answer to the \<open>n\<close>th call is a function
  of \<open>n\<close>, so that it may change its chain, or fail, between any two calls; the workers of the
  prefetch pool have oracles of their own, indexed by the submission; the stop signal is an
  oracle of the \<open>n\<close>th time it is looked at.
\<close>

section \<open>Environment and state\<close>

record node =
  nd_block_count :: "nat \<Rightarrow> exn + int"
  nd_block_hash :: "nat \<Rightarrow> int \<Rightarrow> exn + string"
  nd_header_time :: "nat \<Rightarrow> string \<Rightarrow> exn + int"
  nd_block :: "nat \<Rightarrow> string \<Rightarrow> exn + block"
  nd_worker_hash :: "nat \<Rightarrow> int \<Rightarrow> exn + string"
  nd_worker_block :: "nat \<Rightarrow> string \<Rightarrow> exn + block"

record env =
  e_write :: csv_write
  e_read :: csv_read
  e_read_index :: csv_read
  e_read_blocks :: csv_read
  e_float_text :: "rat \<Rightarrow> string"
  e_nums :: nums
  e_node :: node
  e_stop :: "nat \<Rightarrow> bool"
  e_now :: "nat \<Rightarrow> string"

record rpc_config =
  parsing :: parse_config
  batch_size :: int
  reorg_confirmations :: int
  max_reorg_depth :: nat
  catchup_workers :: int
  output_dir :: string
  state_dir :: string

definition current_path :: "rpc_config \<Rightarrow> path" where
  "current_path c = (state_dir c, ''current.csv'')"

definition latest_path :: "rpc_config \<Rightarrow> path" where
  "latest_path c = (state_dir c, ''latest.csv'')"

definition reorg_dir :: "rpc_config \<Rightarrow> string" where
  "reorg_dir c = state_dir c @ ''/reorg''"

record ingest =
  disk :: disk
  index :: index_store
  flags :: status_store
  seqs :: "(string, part_seq) pydict"
  buffers :: "(string, row list) pydict"
  calls :: nat
  polls :: nat

type_synonym 'a step = "(ingest, 'a) action"

text \<open>One RPC call, one look at the stop signal.\<close>

definition rpc :: "(nat \<Rightarrow> exn + 'a) \<Rightarrow> 'a step" where
  "rpc answer s = (answer (calls s), s\<lparr>calls := calls s + 1\<rparr>)"

definition get_block_count :: "env \<Rightarrow> int step" where
  "get_block_count e = rpc (nd_block_count (e_node e))"

definition get_block_hash :: "env \<Rightarrow> int \<Rightarrow> string step" where
  "get_block_hash e h = rpc (\<lambda>n. nd_block_hash (e_node e) n h)"

definition get_header_time :: "env \<Rightarrow> string \<Rightarrow> int step" where
  "get_header_time e b = rpc (\<lambda>n. nd_header_time (e_node e) n b)"

definition stop_is_set :: "env \<Rightarrow> bool step" where
  "stop_is_set e s = (Inr (e_stop e (polls s)), s\<lparr>polls := polls s + 1\<rparr>)"

definition on_disk :: "(disk \<Rightarrow> disk) \<Rightarrow> unit step" where
  "on_disk f = updA (\<lambda>s. s\<lparr>disk := f (disk s)\<rparr>)"

definition on_index :: "(index_store \<Rightarrow> index_store) \<Rightarrow> unit step" where
  "on_index f = updA (\<lambda>s. s\<lparr>index := f (index s)\<rparr>)"

definition on_flags :: "(status_store \<Rightarrow> status_store) \<Rightarrow> unit step" where
  "on_flags f = updA (\<lambda>s. s\<lparr>flags := f (flags s)\<rparr>)"

definition flush_index :: "env \<Rightarrow> unit step" where
  "flush_index e = updA (\<lambda>s. let (ix, d) = index_flush (e_write e) (index s, disk s) in s\<lparr>index := ix, disk := d\<rparr>)"

definition flush_flags :: "env \<Rightarrow> unit step" where
  "flush_flags e = updA (\<lambda>s. let (fs, d) = status_flush (e_write e) (flags s, disk s) in s\<lparr>flags := fs, disk := d\<rparr>)"

text \<open>\<open>write_pointer\<close> with a hash that may be None.\<close>

definition put_pointer :: "env \<Rightarrow> path \<Rightarrow> int \<Rightarrow> string option \<Rightarrow> unit step" where
  "put_pointer e p h b =
     on_disk (write_single_row_csv (e_write e) p [(''height'', CInt h), (''blockhash'', opt_cell CStr b)])"

section \<open>One height\<close>

text \<open>\<open>batch_buffers[key].append(...)\<close>; an empty frame adds nothing.\<close>

definition add_rows :: "string \<Rightarrow> row list \<Rightarrow> (string, row list) pydict \<Rightarrow> (string, row list) pydict" where
  "add_rows k rows bs = map (\<lambda>(k', b). (k', if k' = k then b @ rows else b)) bs"

definition buffer_export :: "parsed_block \<Rightarrow> int option \<Rightarrow> unit step" where
  "buffer_export p prev_time =
     updA (\<lambda>s.
       let event = AList.update ''time_since_prev_block_sec''
                     (opt_cell CInt (map_option (\<lambda>t. pb_time p - t) prev_time)) (pb_event p);
           bs = fold (\<lambda>(k, rows). add_rows k rows) (pb_frames p) (add_rows ''blocks'' [event] (buffers s))
       in s\<lparr>buffers := bs,
            index := index_add (pb_height p) (pb_hash p) (pb_prev p) CURRENT_INDEX_SCHEMA_VERSION (index s)\<rparr>)"

definition parse_block :: "env \<Rightarrow> rpc_config \<Rightarrow> pool_matcher option \<Rightarrow> string \<Rightarrow> parsed_block step" where
  "parse_block e c pm b =
     bindA (rpc (\<lambda>n. nd_block (e_node e) n b)) (\<lambda>bk.
       liftA (build_parsed_block (e_nums e) (parsing c) pm bk))"

definition process_height ::
    "env \<Rightarrow> rpc_config \<Rightarrow> pool_matcher option \<Rightarrow> int \<Rightarrow> int option \<Rightarrow> (string \<times> int) step" where
  "process_height e c pm height prev_time =
     bindA (get_block_hash e height) (\<lambda>b.
     bindA (getA (\<lambda>s. needs_export (index s) b)) (\<lambda>needed.
     bindA (if \<not> needed then get_header_time e b
            else bindA (parse_block e c pm b) (\<lambda>p.
                 thenA (buffer_export p prev_time) (ret (pb_time p)))) (\<lambda>t.
     thenA (on_flags (set_canonical_if_present height b True)) (ret (b, t)))))"

definition process_prefetched :: "parsed_block \<Rightarrow> int option \<Rightarrow> (string \<times> int) step" where
  "process_prefetched p prev_time =
     bindA (getA (\<lambda>s. needs_export (index s) (pb_hash p))) (\<lambda>needed.
     thenA (if needed then buffer_export p prev_time else ret ()) (
     thenA (on_flags (set_canonical_if_present (pb_height p) (pb_hash p) True))
       (ret (pb_hash p, pb_time p))))"

section \<open>Reorg recovery\<close>

text \<open>
  The walk back: \<open>room\<close> is how many more blocks may be detached before the limit, \<open>detached\<close> the
  blocks so far, newest last, \<open>live\<close> the hashes fetched on the way. The result is the ancestor's
  height and hash, the detached blocks and the fetched hashes.
\<close>

fun walk_back ::
    "env \<Rightarrow> nat \<Rightarrow> (int \<times> string) list \<Rightarrow> (int, string) pydict \<Rightarrow> int \<Rightarrow> string \<Rightarrow>
     (int \<times> string \<times> (int \<times> string) list \<times> (int, string) pydict) step" where
  "walk_back e 0 detached live height blockhash = raise (RuntimeError ''exceeded max_reorg_depth'')"
| "walk_back e (Suc room) detached live height blockhash =
     bindA (getA (\<lambda>s. index_get (index s) blockhash)) (\<lambda>row.
       case row of
         None \<Rightarrow> raise (RuntimeError ''unindexed block'')
       | Some r \<Rightarrow>
           if height \<le> 0 \<or> ix_prev r = '''' then raise (RuntimeError ''no earlier block on record'')
           else bindA (get_block_hash e (height - 1)) (\<lambda>l.
             let live' = AList.update (height - 1) l live;
                 detached' = detached @ [(height, blockhash)] in
             if l = ix_prev r then ret (height - 1, l, detached', live')
             else walk_back e room detached' live' (height - 1) (ix_prev r)))"

text \<open>The live hashes of the attached range; an empty one is fetched again.\<close>

fun attached_rows :: "env \<Rightarrow> (int, string) pydict \<Rightarrow> int list \<Rightarrow> row list step" where
  "attached_rows e live [] = ret []"
| "attached_rows e live (h # hs) =
     bindA (case map_of live h of
              Some l \<Rightarrow> if l = '''' then get_block_hash e h else ret l
            | None \<Rightarrow> get_block_hash e h) (\<lambda>l.
     bindA (attached_rows e live hs) (\<lambda>rows.
       ret ([(''action'', CStr ''attached''), (''height'', CInt h), (''blockhash'', CStr l)] # rows)))"

definition detached_rows :: "(int \<times> string) list \<Rightarrow> row list" where
  "detached_rows ds =
     map (\<lambda>(h, b). [(''action'', CStr ''detached''), (''height'', CInt h), (''blockhash'', CStr b)]) ds"

definition recover_from_reorg :: "env \<Rightarrow> rpc_config \<Rightarrow> int \<Rightarrow> string \<Rightarrow> (int \<times> string) step" where
  "recover_from_reorg e c current_height current_hash =
     bindA (walk_back e (max_reorg_depth c) [] [] current_height current_hash)
       (\<lambda>(ancestor_height, ancestor_hash, detached, live).
     thenA (forA (rev detached) (\<lambda>(h, b). on_flags (set_canonical h b False))) (
     bindA (attached_rows e live [ancestor_height + 1..current_height]) (\<lambda>attached.
     thenA (flush_flags e) (
     thenA (updA (\<lambda>s. s\<lparr>disk := snd (write_reorg_log (e_write e) (reorg_dir c) (e_now e (calls s))
                (ancestor_height + 1) current_height (detached_rows (rev detached) @ attached) (disk s))\<rparr>))
       (ret (ancestor_height, ancestor_hash))))))"

section \<open>Draining and checkpoints\<close>

definition drain_one :: "env \<Rightarrow> bool \<Rightarrow> string \<Rightarrow> ingest \<Rightarrow> ingest" where
  "drain_one e atomic k s =
     (case (map_of (seqs s) k, map_of (buffers s) k) of
        (Some q, Some rows) \<Rightarrow>
          let (q', d) = (if atomic then write_atomic else write_batched) (e_write e) rows (q, disk s)
          in s\<lparr>seqs := AList.update k q' (seqs s), disk := d, buffers := AList.update k [] (buffers s)\<rparr>
      | _ \<Rightarrow> s)"

definition drain :: "env \<Rightarrow> bool \<Rightarrow> unit step" where
  "drain e atomic = updA (\<lambda>s. fold (drain_one e atomic) (map fst (seqs s)) s)"

text \<open>The four steps of a checkpoint, in the code's order.\<close>

definition checkpoint :: "env \<Rightarrow> rpc_config \<Rightarrow> bool \<Rightarrow> int \<Rightarrow> string option \<Rightarrow> unit step" where
  "checkpoint e c atomic h b =
     thenA (drain e atomic) (thenA (flush_index e) (thenA (flush_flags e) (put_pointer e (current_path c) h b)))"

section \<open>One pass\<close>

text \<open>The variables of the loop over the heights.\<close>

record loop =
  lp_prefetched :: "parsed_block gen option"
  lp_prev_time :: "int option"
  lp_last_hash :: "string option"
  lp_last_height :: int
  lp_processed :: int

definition window_of :: "rpc_config \<Rightarrow> nat" where
  "window_of c = nat (PREFETCH_PER_WORKER * catchup_workers c)"

text \<open>
  The body for one height: None is \<open>break\<close>. A prefetched block that does not build on the last
  one ends the pass.
\<close>

definition worker_fetch :: "env \<Rightarrow> rpc_config \<Rightarrow> pool_matcher option \<Rightarrow> nat \<Rightarrow> int \<Rightarrow> exn + parsed_block" where
  "worker_fetch e c pm n height =
     fetch_and_parse (nd_worker_hash (e_node e) n)
       (\<lambda>b. bindE (nd_worker_block (e_node e) n b) (build_parsed_block (e_nums e) (parsing c) pm)) height"

definition take_prefetched ::
    "env \<Rightarrow> rpc_config \<Rightarrow> pool_matcher option \<Rightarrow> parsed_block gen \<Rightarrow> loop \<Rightarrow> (loop \<times> string \<times> int) option step" where
  "take_prefetched e c pm g lp =
     (let (res, g') = gen_next (worker_fetch e c pm) (window_of c) g in
      case res of
        None \<Rightarrow> raise (RuntimeError ''StopIteration'')
      | Some (Inl x) \<Rightarrow> raise x
      | Some (Inr p) \<Rightarrow>
          if lp_last_hash lp \<noteq> None \<and> lp_last_hash lp \<noteq> Some (pb_prev p) then ret None
          else bindA (process_prefetched p (lp_prev_time lp)) (\<lambda>(b, t).
                 ret (Some (lp\<lparr>lp_prefetched := Some g'\<rparr>, b, t))))"

definition visit_height ::
    "env \<Rightarrow> rpc_config \<Rightarrow> pool_matcher option \<Rightarrow> bool \<Rightarrow> int \<Rightarrow> int \<Rightarrow> loop \<Rightarrow> loop option step" where
  "visit_height e c pm atomic parallel_end height lp =
     bindA (stop_is_set e) (\<lambda>stop.
       if stop then ret None
       else bindA (case lp_prefetched lp of
                     Some g \<Rightarrow>
                       if height \<le> parallel_end then take_prefetched e c pm g lp
                       else bindA (process_height e c pm height (lp_prev_time lp)) (\<lambda>(b, t). ret (Some (lp, b, t)))
                   | None \<Rightarrow>
                       bindA (process_height e c pm height (lp_prev_time lp)) (\<lambda>(b, t). ret (Some (lp, b, t))))
              (\<lambda>r. case r of None \<Rightarrow> ret None
                 | Some (lp1, b, t) \<Rightarrow>
                     let lp2 = lp1\<lparr>lp_last_hash := Some b, lp_prev_time := Some t, lp_last_height := height,
                                   lp_processed := lp_processed lp1 + 1,
                                   lp_prefetched := (if height = parallel_end then None else lp_prefetched lp1)\<rparr>
                     in thenA (if atomic \<or> lp_processed lp2 mod batch_size c = 0
                               then checkpoint e c atomic height (Some b) else ret ())
                          (ret (Some lp2))))"

text \<open>
  The loop, and its variables when it ends or breaks. The batch size is positive, which the
  configuration checks.
\<close>

fun visit_heights ::
    "env \<Rightarrow> rpc_config \<Rightarrow> pool_matcher option \<Rightarrow> bool \<Rightarrow> int \<Rightarrow> int list \<Rightarrow> loop \<Rightarrow> loop step" where
  "visit_heights e c pm atomic parallel_end [] lp = ret lp"
| "visit_heights e c pm atomic parallel_end (h # hs) lp =
     bindA (visit_height e c pm atomic parallel_end h lp) (\<lambda>r.
       case r of None \<Rightarrow> ret lp | Some lp' \<Rightarrow> visit_heights e c pm atomic parallel_end hs lp')"

text \<open>The bootstrap on the index and the disk of the process.\<close>

definition seed_step :: "env \<Rightarrow> (int \<times> string) option step" where
  "seed_step e s =
     (case map_of (seqs s) ''blocks'' of
        None \<Rightarrow> (Inl (KeyError ''blocks''), s)
      | Some q \<Rightarrow>
          (case seed_index_from_blocks_csv (e_write e) (e_read_blocks e) (e_float_text e)
                  (state_base q) (export_base q) (index s, disk s) of
             (r, (ix, d)) \<Rightarrow> (r, s\<lparr>index := ix, disk := d\<rparr>)))"

text \<open>Where the pass starts: the stored pointer, or what the blocks on disk tell; then a reorg check.\<close>

definition starting_point :: "env \<Rightarrow> rpc_config \<Rightarrow> (int \<times> string option) step" where
  "starting_point e c =
     bindA (bindA (getA disk) (\<lambda>d. liftA (read_pointer (e_read e) (e_float_text e) d (current_path c)))) (\<lambda>stored.
     bindA (case stored of
              Some cur \<Rightarrow> ret (Some cur)
            | None \<Rightarrow> seed_step e) (\<lambda>cur.
       case cur of
         None \<Rightarrow> ret (- 1, None)
       | Some (h, b) \<Rightarrow>
           bindA (get_block_hash e h) (\<lambda>live.
             if live \<noteq> b then bindA (recover_from_reorg e c h b) (\<lambda>(h', b'). ret (h', Some b'))
             else ret (h, Some b))))"

definition rewind_stale :: "int \<times> string option \<Rightarrow> (int \<times> string option) step" where
  "rewind_stale cur s =
     (let (stale, ix) = earliest_stale (index s); s' = s\<lparr>index := ix\<rparr> in
      case stale of
        Some r \<Rightarrow>
          if ix_height r - 1 < fst cur
          then (Inr (ix_height r - 1, if ix_prev r = '''' then None else Some (ix_prev r)), s')
          else (Inr cur, s')
      | None \<Rightarrow> (Inr cur, s'))"

definition empty_buffers :: "unit step" where
  "empty_buffers = updA (\<lambda>s. s\<lparr>buffers := map (\<lambda>(k, q). (k, [])) (seqs s)\<rparr>)"

definition catch_up :: "env \<Rightarrow> rpc_config \<Rightarrow> pool_matcher option \<Rightarrow> int \<Rightarrow> int \<Rightarrow> int \<Rightarrow> string option \<Rightarrow> bool step" where
  "catch_up e c pm tip latest_height current_height current_hash =
     bindA (case current_hash of None \<Rightarrow> ret None
            | Some b \<Rightarrow> bindA (get_header_time e b) (\<lambda>t. ret (Some t))) (\<lambda>prev_time.
       let atomic = (latest_height - current_height \<le> max (reorg_confirmations c) 1);
           parallel_end = min latest_height (tip - int (max_reorg_depth c));
           prefetched = (if catchup_workers c > 1 \<and> \<not> atomic
                           \<and> parallel_end - current_height > PREFETCH_PER_WORKER * catchup_workers c
                         then Some (gen_init [current_height + 1..parallel_end]) else None);
           lp = \<lparr>lp_prefetched = prefetched, lp_prev_time = prev_time, lp_last_hash = current_hash,
                 lp_last_height = current_height, lp_processed = 0\<rparr>
       in thenA empty_buffers (
          bindA (visit_heights e c pm atomic parallel_end [current_height + 1..latest_height] lp) (\<lambda>lp'.
          thenA (drain e atomic) (
          thenA (flush_index e) (
          thenA (flush_flags e) (
          thenA (case lp_last_hash lp' of None \<Rightarrow> ret ()
                 | Some b \<Rightarrow> put_pointer e (current_path c) (lp_last_height lp') (Some b))
            (ret (lp_last_height lp' \<ge> latest_height))))))))"

definition run_one_pass :: "env \<Rightarrow> rpc_config \<Rightarrow> pool_matcher option \<Rightarrow> bool step" where
  "run_one_pass e c pm =
     bindA (get_block_count e) (\<lambda>tip.
       let latest_height = tip - reorg_confirmations c in
       if latest_height < 0 then ret True
       else bindA (get_block_hash e latest_height) (\<lambda>latest_hash.
            thenA (put_pointer e (latest_path c) latest_height (Some latest_hash)) (
            bindA (starting_point e c) (\<lambda>cur.
            bindA (rewind_stale cur) (\<lambda>(current_height, current_hash).
              if current_height \<ge> latest_height
              then thenA (put_pointer e (current_path c) current_height current_hash)
                     (thenA (flush_flags e) (ret True))
              else catch_up e c pm tip latest_height current_height current_hash)))))"

section \<open>The process\<close>

text \<open>
  One iteration of \<open>run_rpc_ingest\<close>'s loop: an RPC failure discards what is staged and the loop
  goes on (None); any other exception ends the process.
\<close>

definition ingest_cycle :: "env \<Rightarrow> rpc_config \<Rightarrow> pool_matcher option \<Rightarrow> bool option step" where
  "ingest_cycle e c pm =
     catchA (bindA (run_one_pass e c pm) (\<lambda>caught_up. ret (Some caught_up))) is_rpc_cli_error
       (\<lambda>_. thenA (on_index discard_pending) (ret None))"

text \<open>
  The loop for at most \<open>n\<close> iterations; \<open>matcher\<close> is the pool matcher in force in each. After a pass
  that did not fail the signal is looked at again before the wait.
\<close>

fun run_cycles :: "env \<Rightarrow> rpc_config \<Rightarrow> (nat \<Rightarrow> pool_matcher option) \<Rightarrow> nat \<Rightarrow> unit step" where
  "run_cycles e c matcher 0 = ret ()"
| "run_cycles e c matcher (Suc n) =
     bindA (stop_is_set e) (\<lambda>stop.
       if stop then ret ()
       else bindA (ingest_cycle e c (matcher n)) (\<lambda>passed.
            bindA (if passed = None then ret False else stop_is_set e) (\<lambda>stop.
            if stop then ret () else run_cycles e c matcher n)))"

definition sequencer_names :: "string list" where
  "sequencer_names = [''blocks'', ''transactions'', ''inputs'', ''outputs'']"

definition csv_base :: "string \<Rightarrow> string \<Rightarrow> base" where
  "csv_base dir n = \<lparr>b_dir = dir @ ''/'' @ n, b_stem = n, b_suffix = ''.csv''\<rparr>"

text \<open>The construction at the start of \<open>run_rpc_ingest\<close>, on a disk.\<close>

definition sequencer :: "env \<Rightarrow> rpc_config \<Rightarrow> disk \<Rightarrow> string \<Rightarrow> exn + string \<times> part_seq" where
  "sequencer e c d n =
     bindE (seq_init (e_read e) (csv_base (state_dir c) n) (csv_base (output_dir c) n)
              (state_dir c, n @ ''_part_seq.csv'') MAX_PART_BYTES d) (\<lambda>q. Inr (n, q))"

definition ingest_init :: "env \<Rightarrow> rpc_config \<Rightarrow> disk \<Rightarrow> exn + ingest" where
  "ingest_init e c d =
     bindE (index_init (e_read_index e) d (csv_base (state_dir c) ''index'')) (\<lambda>ix.
     bindE (status_load (e_read e) (e_float_text e) d (state_dir c, ''block_status.csv'')) (\<lambda>fs.
     bindE (mapE (sequencer e c d) sequencer_names) (\<lambda>qs.
       Inr \<lparr>disk = d, index = ix, flags = fs, seqs = qs, buffers = [], calls = 0, polls = 0\<rparr>)))"

end
