(* ===== verification/Ingest_Safety.thy ===== *)
theory Ingest_Safety
  imports Ingest Part_Crash
begin

text \<open>
  The order in which the ingest makes a block durable: its rows are written before its index row,
  and never again after it. Both are invariants of the log of effects of the whole process, kept
  by every step whether it returns or raises.
\<close>

section \<open>What an effect says of a block\<close>

text \<open>A row of the blocks CSV, under the state or the export base, with this hash.\<close>

definition writes_block :: "rpc_config \<Rightarrow> path \<Rightarrow> row list \<Rightarrow> string \<Rightarrow> bool" where
  "writes_block c p rows b \<longleftrightarrow>
     fst p \<in> {state_dir c @ ''/blocks'', output_dir c @ ''/blocks''} \<and>
     (\<exists>r \<in> set rows. map_of r ''hash'' = Some (CStr b))"

fun exports_hash :: "rpc_config \<Rightarrow> effect \<Rightarrow> string \<Rightarrow> bool" where
  "exports_hash c (EAppend p h rows) b = writes_block c p rows b"
| "exports_hash c (EReplace p rows) b = writes_block c p rows b"
| "exports_hash c _ b = False"

text \<open>An index row at the current version for this hash.\<close>

fun marks :: "rpc_config \<Rightarrow> effect \<Rightarrow> string \<Rightarrow> bool" where
  "marks c (EAppend p h rows) b \<longleftrightarrow>
     fst p = state_dir c @ ''/index'' \<and>
     (\<exists>r \<in> set rows. map_of r ''blockhash'' = Some (CStr b) \<and>
                      map_of r ''schema_version'' = Some (CInt CURRENT_INDEX_SCHEMA_VERSION))"
| "marks c _ b = False"

definition exported :: "rpc_config \<Rightarrow> effect list \<Rightarrow> string set" where
  "exported c l = {b. \<exists>e \<in> set l. exports_hash c e b}"

definition marked :: "rpc_config \<Rightarrow> effect list \<Rightarrow> string set" where
  "marked c l = {b. \<exists>e \<in> set l. marks c e b}"

definition quiet :: "rpc_config \<Rightarrow> effect \<Rightarrow> bool" where
  "quiet c e \<longleftrightarrow> (\<forall>b. \<not> exports_hash c e b \<and> \<not> marks c e b)"

definition current_blocks :: "index_store \<Rightarrow> string set" where
  "current_blocks ix = {b. \<exists>r. map_of (by_hash ix) b = Some r \<and> \<not> ix_version r < CURRENT_INDEX_SCHEMA_VERSION}"

text \<open>
  The order in a log, for a process whose index knew the blocks \<open>K\<close> when it started: a block is
  marked after it was exported, and exported neither after it was marked nor if it is in \<open>K\<close>.
\<close>

definition in_order :: "rpc_config \<Rightarrow> string set \<Rightarrow> effect list \<Rightarrow> bool" where
  "in_order c K l \<longleftrightarrow>
     (\<forall>k < length l. {b. marks c (l ! k) b} \<subseteq> exported c (take k l) \<and>
                     {b. exports_hash c (l ! k) b} \<inter> (K \<union> marked c (take k l)) = {})"

lemma exported_simps [simp]:
  "exported c [] = {}" "exported c (l @ [e]) = exported c l \<union> {b. exports_hash c e b}"
  by (auto simp: exported_def)

lemma marked_simps [simp]:
  "marked c [] = {}" "marked c (l @ [e]) = marked c l \<union> {b. marks c e b}"
  by (auto simp: marked_def)

lemma in_order_Nil [simp]: "in_order c K []"
  by (simp add: in_order_def)

lemma in_order_snoc [simp]:
  "in_order c K (l @ [e]) \<longleftrightarrow>
     in_order c K l \<and> {b. marks c e b} \<subseteq> exported c l \<and> {b. exports_hash c e b} \<inter> (K \<union> marked c l) = {}"
  by (auto simp: in_order_def less_Suc_eq nth_append)

lemma quiet_sets: "quiet c e \<Longrightarrow> {b. marks c e b} = {}" "quiet c e \<Longrightarrow> {b. exports_hash c e b} = {}"
  by (simp_all add: quiet_def)

lemma slash_neq: "x @ ''/blocks'' \<noteq> y @ ''/index''" "x @ ''/index'' \<noteq> y @ ''/blocks''"
  by (auto dest: arg_cong [where f = "\<lambda>s. take 1 (rev s)"])

section \<open>The invariant\<close>

text \<open>Of the index and the disk.\<close>

definition store_ok :: "rpc_config \<Rightarrow> string set \<Rightarrow> index_store \<times> disk \<Rightarrow> bool" where
  "store_ok c K sd \<longleftrightarrow>
     (case sd of (ix, d) \<Rightarrow>
        ix_path ix = csv_base (state_dir c) ''index'' \<and> in_order c K (log d) \<and>
        K \<union> marked c (log d) = current_blocks ix \<and> distinct (map fst (pending ix)) \<and>
        (\<forall>(b, r) \<in> set (pending ix). ix_hash r = b \<and> b \<notin> current_blocks ix \<and>
                                  ix_version r \<le> CURRENT_INDEX_SCHEMA_VERSION))"

text \<open>What is staged at the current version, and what is buffered.\<close>

definition staged :: "index_store \<Rightarrow> string set" where
  "staged ix = {b. \<exists>r. (b, r) \<in> set (pending ix) \<and> \<not> ix_version r < CURRENT_INDEX_SCHEMA_VERSION}"

definition buffered :: "ingest \<Rightarrow> string set" where
  "buffered s = {b. \<exists>rows. map_of (buffers s) ''blocks'' = Some rows
                          \<and> (\<exists>r \<in> set rows. map_of r ''hash'' = Some (CStr b))}"

definition seqs_ok :: "rpc_config \<Rightarrow> (string, part_seq) pydict \<Rightarrow> bool" where
  "seqs_ok c qs \<longleftrightarrow>
     map fst qs = sequencer_names \<and>
     (\<forall>(k, q) \<in> set qs. state_base q = csv_base (state_dir c) k \<and> export_base q = csv_base (output_dir c) k)"

definition base_ok :: "rpc_config \<Rightarrow> string set \<Rightarrow> ingest \<Rightarrow> bool" where
  "base_ok c K s \<longleftrightarrow> store_ok c K (index s, disk s) \<and> seqs_ok c (seqs s)"

text \<open>Between passes and after a drain all that is staged is exported; inside a pass it may also be buffered.\<close>

definition settled :: "rpc_config \<Rightarrow> string set \<Rightarrow> ingest \<Rightarrow> bool" where
  "settled c K s \<longleftrightarrow> base_ok c K s \<and> staged (index s) \<subseteq> exported c (log (disk s))"

definition in_pass :: "rpc_config \<Rightarrow> string set \<Rightarrow> ingest \<Rightarrow> bool" where
  "in_pass c K s \<longleftrightarrow>
     base_ok c K s \<and> map fst (buffers s) = sequencer_names \<and>
     staged (index s) \<subseteq> exported c (log (disk s)) \<union> buffered s \<and>
     buffered s \<inter> current_blocks (index s) = {}"

section \<open>The index\<close>

lemma current_add [simp]: "current_blocks (index_add h b p v ix) = current_blocks ix"
  by (simp add: current_blocks_def index_add_def split: option.splits)

lemma path_add [simp]: "ix_path (index_add h b p v ix) = ix_path ix"
  by (simp add: index_add_def split: option.splits)

lemma known_current: "b \<in> current_blocks ix \<Longrightarrow> \<exists>r. index_known ix b = Some r \<and> \<not> ix_version r < CURRENT_INDEX_SCHEMA_VERSION"
  by (auto simp: current_blocks_def index_known_def)

lemma not_current: "needs_export ix b \<Longrightarrow> b \<notin> current_blocks ix"
  using known_current [of b ix] by (auto simp: needs_export_def)

lemma in_pending_add:
  "(k, r) \<in> set (pending (index_add h b p v ix)) \<Longrightarrow>
   (k, r) \<in> set (pending ix) \<or> (k = b \<and> r = make_index_row h b p v \<and> (\<forall>r'. index_known ix b = Some r' \<longrightarrow> ix_version r' < v))"
  by (auto simp: index_add_def split: option.splits if_splits dest!: in_update)

lemma store_ok_add:
  assumes "store_ok c K (ix, d)" "v \<le> CURRENT_INDEX_SCHEMA_VERSION"
  shows "store_ok c K (index_add h b p v ix, d)"
proof -
  have "distinct (map fst (pending (index_add h b p v ix)))"
    using assms(1) by (auto simp: store_ok_def index_add_def distinct_update split: option.splits)
  moreover have "ix_hash r = k \<and> k \<notin> current_blocks ix \<and> ix_version r \<le> CURRENT_INDEX_SCHEMA_VERSION" if "(k, r) \<in> set (pending (index_add h b p v ix))" for k r
    using in_pending_add [OF that] assms known_current [of b ix]
    by (fastforce simp: store_ok_def make_index_row_def)
  ultimately show ?thesis using assms(1) by (auto simp: store_ok_def)
qed

lemma staged_add:
  "staged (index_add h b p v ix) \<subseteq> staged ix \<union> (if v < CURRENT_INDEX_SCHEMA_VERSION then {} else {b})"
  by (auto simp: staged_def make_index_row_def dest!: in_pending_add)

lemma store_ok_quiet:
  "store_ok c K (ix, d) \<Longrightarrow> quiet c e \<Longrightarrow> store_ok c K (ix, do_effect W e d)"
  by (simp add: store_ok_def quiet_sets)

lemma store_ok_discard: "store_ok c K (ix, d) \<Longrightarrow> store_ok c K (discard_pending ix, d)"
  by (simp add: store_ok_def discard_pending_def current_blocks_def)

lemma store_ok_earliest: "store_ok c K (ix, d) \<Longrightarrow> store_ok c K (snd (earliest_stale ix), d)"
  by (simp add: store_ok_def earliest_stale_def current_blocks_def split: list.splits)

lemma staged_earliest: "staged (snd (earliest_stale ix)) = staged ix"
  by (simp add: staged_def earliest_stale_def split: list.splits)

lemma marks_append_index:
  "{b. marks c (EAppend (part_path (csv_base (state_dir c) ''index'') n) h (map (index_cells \<circ> snd) ps)) b}
   = {b. \<exists>k r. (k, r) \<in> set ps \<and> ix_hash r = b \<and> ix_version r = CURRENT_INDEX_SCHEMA_VERSION}"
  by (force simp: csv_base_def index_cells_def)

lemma exports_append_index:
  "exports_hash c (EAppend (part_path (csv_base dir ''index'') n) h rows) b = False"
  using slash_neq by (simp add: writes_block_def csv_base_def)

lemma current_flush:
  assumes "distinct (map fst (pending ix))" "\<forall>(b, r) \<in> set (pending ix). b \<notin> current_blocks ix"
  shows "current_blocks (ix\<lparr>ix_part := n, by_hash := dict_update (by_hash ix) (pending ix), pending := []\<rparr>)
         = current_blocks ix \<union> staged ix"
proof (rule set_eqI)
  fix b
  show "b \<in> current_blocks (ix\<lparr>ix_part := n, by_hash := dict_update (by_hash ix) (pending ix), pending := []\<rparr>)
        \<longleftrightarrow> b \<in> current_blocks ix \<union> staged ix"
  proof (cases "map_of (pending ix) b")
    case None
    then have "(b, r) \<notin> set (pending ix)" for r by (auto simp: map_of_eq_None_iff intro: rev_image_eqI)
    with None assms show ?thesis by (simp add: current_blocks_def staged_def map_of_dict_update map_add_def)
  next
    case (Some r)
    then have r: "(b, r) \<in> set (pending ix)" by (rule map_of_SomeD)
    with assms have "b \<notin> current_blocks ix" "(b, r') \<in> set (pending ix) \<longleftrightarrow> r' = r" for r'
      by (auto simp: eq_key_imp_eq_value)
    with Some assms show ?thesis by (auto simp: current_blocks_def staged_def map_of_dict_update map_add_def)
  qed
qed

text \<open>A flush of an index all of whose staged blocks are exported.\<close>

lemma store_ok_flush:
  assumes ok: "store_ok c K (ix, d)" and st: "staged ix \<subseteq> exported c (log d)"
  shows "store_ok c K (index_flush W (ix, d)) \<and> staged (fst (index_flush W (ix, d))) = {}
       \<and> current_blocks (fst (index_flush W (ix, d))) = current_blocks ix \<union> staged ix
       \<and> exported c (log (snd (index_flush W (ix, d)))) = exported c (log d)"
proof (cases "pending ix = []")
  case True
  with ok show ?thesis by (simp add: index_flush_def staged_def)
next
  case False
  obtain n x where t: "flush_target d (ix_path ix) (ix_part ix) = (n, x)" by force
  let ?ix = "ix\<lparr>ix_part := n, by_hash := dict_update (by_hash ix) (pending ix), pending := []\<rparr>"
  let ?e = "EAppend (part_path (ix_path ix) n) (\<not> x) (map (index_cells \<circ> snd) (pending ix))"
  have f: "index_flush W (ix, d) = (?ix, do_effect W ?e d)"
    using False by (simp add: index_flush_def t)
  have p: "ix_path ix = csv_base (state_dir c) ''index''" "in_order c K (log d)"
    "K \<union> marked c (log d) = current_blocks ix" "distinct (map fst (pending ix))"
    "\<forall>(b, r) \<in> set (pending ix). ix_hash r = b \<and> b \<notin> current_blocks ix \<and> ix_version r \<le> CURRENT_INDEX_SCHEMA_VERSION"
    using ok by (simp_all add: store_ok_def)
  have cb: "current_blocks ?ix = current_blocks ix \<union> staged ix"
    by (rule current_flush) (use p in auto)
  have m: "{b. marks c ?e b} = staged ix"
    unfolding p(1) marks_append_index using p(5) by (force simp: staged_def)
  have x: "{b. exports_hash c ?e b} = {}" unfolding p(1) by (simp only: exports_append_index) simp
  have "store_ok c K (?ix, do_effect W ?e d)"
    using p m x st cb by (auto simp: store_ok_def simp del: exports_hash.simps marks.simps)
  with f x cb show ?thesis by (simp add: staged_def del: exports_hash.simps)
qed

section \<open>Writing the buffers\<close>

text \<open>Every other effect of a sequencer is a rename or a counter file, which say nothing of a block.\<close>

lemma quiet_rename [simp]: "quiet c (ERename p q)"
  by (simp add: quiet_def)

lemma quiet_counter: "quiet c (counter_effect q n o')"
  by (simp add: quiet_def counter_effect_def state_row_def writes_block_def)

lemma quiet_close: "e \<in> set (close_effects q d) \<Longrightarrow> quiet c e"
  by (auto simp: close_effects_def rename_effects_def quiet_counter split: if_splits)

lemma store_ok_quiets:
  "store_ok c K (ix, d) \<Longrightarrow> (\<And>e. e \<in> set es \<Longrightarrow> quiet c e) \<Longrightarrow>
   store_ok c K (ix, do_effects W es d) \<and> exported c (log (do_effects W es d)) = exported c (log d)"
proof (induction es arbitrary: d)
  case (Cons e es)
  then have "store_ok c K (ix, do_effect W e d)" "quiet c e" by (simp_all add: store_ok_quiet)
  with Cons.IH [of "do_effect W e d"] Cons.prems show ?case by (simp add: quiet_sets)
qed simp

definition write_rows :: "bool \<Rightarrow> csv_write \<Rightarrow> row list \<Rightarrow> part_seq \<times> disk \<Rightarrow> part_seq \<times> disk" where
  "write_rows atomic = (if atomic then write_atomic else write_batched)"

text \<open>The one effect of a write that carries its rows, between effects that carry none.\<close>

lemma write_rows_effects:
  assumes "rows \<noteq> []"
  obtains q' pre e post where
    "write_rows atomic W rows (q, d) = (q', do_effects W (pre @ [e] @ post) d)"
    "state_base q' = state_base q" "export_base q' = export_base q"
    "\<forall>x \<in> set pre \<union> set post. \<forall>c. quiet c x"
    "(\<exists>n h. e = EAppend (part_path (state_base q) n) h rows) \<or> (\<exists>n. e = EReplace (part_path (export_base q) n) rows)"
proof (cases "atomic \<or> needs_new_part q d")
  case True
  let ?post = "if atomic then [] else [counter_effect q (current_part q + 1) True]"
  let ?pre = "close_effects q d @ (if atomic then [counter_effect q (current_part q + 1) False] else [])"
  let ?d = "do_effects W (close_effects q d) d"
  let ?p = "part_path (state_base q) (current_part q + 1)"
  let ?e = "if atomic then EReplace (part_path (export_base q) (current_part q + 1)) rows
            else EAppend ?p (\<not> file_nonempty ?d ?p) rows"
  let ?q = "q\<lparr>current_part := current_part q + 1, part_is_open := \<not> atomic\<rparr>"
  have "write_rows atomic W rows (q, d) = (?q, do_effects W (?pre @ [?e] @ ?post) d)"
    using True assms
    by (auto simp: write_rows_def write_atomic_def write_batched_def open_next_part_def close_if_open_effects
        append_rows_def persist_effect do_effects_append counter_effect_def Let_def)
  moreover have "\<forall>x \<in> set ?pre \<union> set ?post. \<forall>c. quiet c x" by (auto simp: quiet_close quiet_counter)
  ultimately show thesis
    by (intro that [of ?q ?pre ?e ?post]) (auto simp: part_path_dir)
next
  case False
  let ?p = "part_path (state_base q) (current_part q)"
  have "write_rows atomic W rows (q, d)
        = (q, do_effects W ([] @ [EAppend ?p (\<not> file_nonempty d ?p) rows]
                              @ [counter_effect q (current_part q) (part_is_open q)]) d)"
    using False assms by (simp add: write_rows_def write_batched_def append_rows_def persist_effect)
  then show thesis
    by (intro that [of q "[]" "EAppend ?p (\<not> file_nonempty d ?p) rows"
          "[counter_effect q (current_part q) (part_is_open q)]"]) (auto simp: quiet_counter)
qed

lemma write_rows_none: "write_rows atomic W [] sd = sd"
  by (simp add: write_rows_def write_atomic_def write_batched_def)

text \<open>The hashes of the rows of one buffer.\<close>

definition hashes :: "row list \<Rightarrow> string set" where
  "hashes rows = {b. \<exists>r \<in> set rows. map_of r ''hash'' = Some (CStr b)}"

lemma path_last: "x @ ''/'' @ k = y @ ''/'' @ k' \<Longrightarrow> CHR ''/'' \<notin> set k \<Longrightarrow> CHR ''/'' \<notin> set k' \<Longrightarrow> k = k'"
proof -
  assume e: "x @ ''/'' @ k = y @ ''/'' @ k'" and n: "CHR ''/'' \<notin> set k" "CHR ''/'' \<notin> set k'"
  have t: "takeWhile (\<lambda>c. c \<noteq> CHR ''/'') (rev (z @ ''/'' @ l)) = rev l" if "CHR ''/'' \<notin> set l" for z l :: string
    using that by (auto simp: takeWhile_append)
  from e n t [of k x] t [of k' y] show "k = k'" by simp
qed

lemma name_dirs:
  assumes "k \<in> set sequencer_names"
  shows "x @ ''/'' @ k \<noteq> y @ ''/index''" "x @ ''/'' @ k = y @ ''/blocks'' \<Longrightarrow> k = ''blocks''"
proof -
  have "CHR ''/'' \<notin> set k" "k \<noteq> ''index''" using assms by (auto simp: sequencer_names_def)
  with path_last [of x k y "''index''"] path_last [of x k y "''blocks''"]
  show "x @ ''/'' @ k \<noteq> y @ ''/index''" "x @ ''/'' @ k = y @ ''/blocks'' \<Longrightarrow> k = ''blocks''" by auto
qed

text \<open>A write of the rows of sequencer \<open>k\<close>: only the blocks sequencer exports_hash blocks.\<close>

lemma store_ok_write:
  assumes ok: "store_ok c K (ix, d)" and k: "k \<in> set sequencer_names"
    and q: "state_base q = csv_base (state_dir c) k" "export_base q = csv_base (output_dir c) k"
    and free: "k = ''blocks'' \<Longrightarrow> hashes rows \<inter> current_blocks ix = {}"
    and w: "write_rows atomic W rows (q, d) = (q', d')"
  shows "store_ok c K (ix, d')
       \<and> exported c (log d') = exported c (log d) \<union> (if k = ''blocks'' then hashes rows else {})
       \<and> state_base q' = state_base q \<and> export_base q' = export_base q"
proof (cases "rows = []")
  case True
  with ok w show ?thesis by (simp add: write_rows_none hashes_def)
next
  case False
  then obtain q1 pre e post where e: "write_rows atomic W rows (q, d) = (q1, do_effects W (pre @ [e] @ post) d)"
    "state_base q1 = state_base q" "export_base q1 = export_base q"
    "\<forall>x \<in> set pre \<union> set post. \<forall>c. quiet c x"
    "(\<exists>n h. e = EAppend (part_path (state_base q) n) h rows) \<or> (\<exists>n. e = EReplace (part_path (export_base q) n) rows)"
    by (rule write_rows_effects)
  have m: "{b. marks c e b} = {}" using e(5) name_dirs(1) [OF k] by (auto simp: q csv_base_def)
  have x: "{b. exports_hash c e b} = (if k = ''blocks'' then hashes rows else {})"
    using e(5) name_dirs(2) [OF k] by (auto simp: q csv_base_def writes_block_def hashes_def)
  let ?d1 = "do_effects W pre d"
  have 1: "store_ok c K (ix, ?d1)" "exported c (log ?d1) = exported c (log d)"
    using store_ok_quiets [OF ok, of pre W] e(4) by simp_all
  have 2: "store_ok c K (ix, do_effect W e ?d1)"
    using 1 m x free by (cases "k = ''blocks''") (auto simp: store_ok_def)
  with store_ok_quiets [OF 2, of post W] e m x 1 w show ?thesis by (simp add: do_effects_append)
qed

lemma seqs_okD:
  assumes "seqs_ok c qs" "k \<in> set sequencer_names"
  obtains q where "map_of qs k = Some q" "state_base q = csv_base (state_dir c) k" "export_base q = csv_base (output_dir c) k"
proof -
  from assms have "k \<in> fst ` set qs" by (simp add: seqs_ok_def flip: set_map)
  then obtain q where q: "map_of qs k = Some q" by (metis map_of_eq_None_iff option.exhaust)
  then have "(k, q) \<in> set qs" by (rule map_of_SomeD)
  with assms q that show thesis by (auto simp: seqs_ok_def)
qed

lemma seqs_ok_update:
  "seqs_ok c qs \<Longrightarrow> k \<in> set sequencer_names \<Longrightarrow> state_base q = csv_base (state_dir c) k \<Longrightarrow>
   export_base q = csv_base (output_dir c) k \<Longrightarrow> seqs_ok c (AList.update k q qs)"
  by (auto simp: seqs_ok_def keys_update dest!: in_update)

lemma drain_one_ok:
  assumes ok: "base_ok c K s" and b: "map fst (buffers s) = sequencer_names"
    and free: "buffered s \<inter> current_blocks (index s) = {}" and k: "k \<in> set sequencer_names"
  shows "base_ok c K (drain_one e a k s) \<and> map fst (buffers (drain_one e a k s)) = sequencer_names \<and>
         index (drain_one e a k s) = index s \<and>
         exported c (log (disk (drain_one e a k s))) = exported c (log (disk s)) \<union> (if k = ''blocks'' then buffered s else {}) \<and>
         buffered (drain_one e a k s) = (if k = ''blocks'' then {} else buffered s)"
proof -
  obtain q where q: "map_of (seqs s) k = Some q" "state_base q = csv_base (state_dir c) k" "export_base q = csv_base (output_dir c) k"
    using ok k by (auto simp: base_ok_def elim: seqs_okD)
  from b k have "k \<in> fst ` set (buffers s)" by (simp flip: set_map)
  then obtain rows where r: "map_of (buffers s) k = Some rows" by (metis map_of_eq_None_iff option.exhaust)
  have h: "k = ''blocks'' \<Longrightarrow> hashes rows = buffered s" using r by (simp add: hashes_def buffered_def)
  obtain q' d' where w: "write_rows a (e_write e) rows (q, disk s) = (q', d')" by force
  have st: "store_ok c K (index s, disk s)" using ok by (simp add: base_ok_def)
  have 1: "store_ok c K (index s, d')"
    "exported c (log d') = exported c (log (disk s)) \<union> (if k = ''blocks'' then buffered s else {})"
    "state_base q' = state_base q" "export_base q' = export_base q"
    using store_ok_write [OF st k q(2,3) _ w] h free by auto
  have d: "drain_one e a k s = s\<lparr>seqs := AList.update k q' (seqs s), disk := d', buffers := AList.update k [] (buffers s)\<rparr>"
    using w by (simp add: drain_one_def q r write_rows_def)
  have "seqs_ok c (AList.update k q' (seqs s))"
    by (rule seqs_ok_update) (use ok k q 1 in \<open>auto simp: base_ok_def\<close>)
  moreover have "k \<in> set (map fst (buffers s))" using b k by simp
  ultimately show ?thesis unfolding d using 1 b by (auto simp: base_ok_def keys_update buffered_def)
qed

lemma drain_ok:
  assumes "in_pass c K s"
  shows "settled c K (snd (drain e a s)) \<and> in_pass c K (snd (drain e a s)) \<and> fst (drain e a s) = Inr ()
       \<and> index (snd (drain e a s)) = index s \<and> buffered (snd (drain e a s)) = {}"
proof -
  let ?P = "\<lambda>t. base_ok c K t \<and> map fst (buffers t) = sequencer_names \<and> index t = index s \<and>
                staged (index s) \<subseteq> exported c (log (disk t)) \<and> buffered t = {}"
  have step: "?P (drain_one e a k t)" if "?P t" "k \<in> set sequencer_names" for t k
    using that drain_one_ok [of c K t k e a] by auto
  have rest: "?P (fold (drain_one e a) ks t)" if "?P t" "set ks \<subseteq> set sequencer_names" for ks t
    using that step by (induction ks arbitrary: t) auto
  have keys: "map fst (seqs s) = ''blocks'' # [''transactions'', ''inputs'', ''outputs'']"
    using assms by (simp add: in_pass_def base_ok_def seqs_ok_def sequencer_names_def)
  have "?P (drain_one e a ''blocks'' s)"
    using assms drain_one_ok [of c K s "''blocks''" e a] by (auto simp: in_pass_def sequencer_names_def)
  from rest [OF this, of "[''transactions'', ''inputs'', ''outputs'']"]
  have "?P (fold (drain_one e a) (map fst (seqs s)) s)"
    by (simp add: keys sequencer_names_def)
  then show ?thesis by (auto simp: drain_def settled_def in_pass_def)
qed

section \<open>Steps that neither export nor index\<close>

lemma settled_frame [simp]:
  "settled c K (s\<lparr>calls := n\<rparr>) = settled c K s" "settled c K (s\<lparr>polls := n\<rparr>) = settled c K s"
  "settled c K (s\<lparr>flags := f\<rparr>) = settled c K s" "settled c K (s\<lparr>buffers := bs\<rparr>) = settled c K s"
  by (simp_all add: settled_def base_ok_def)

lemma in_pass_frame [simp]:
  "in_pass c K (s\<lparr>calls := n\<rparr>) = in_pass c K s" "in_pass c K (s\<lparr>polls := n\<rparr>) = in_pass c K s"
  "in_pass c K (s\<lparr>flags := f\<rparr>) = in_pass c K s"
  by (simp_all add: in_pass_def base_ok_def buffered_def)

lemma settled_effect: "settled c K s \<Longrightarrow> quiet c x \<Longrightarrow> settled c K (s\<lparr>disk := do_effect W x (disk s)\<rparr>)"
  by (simp add: settled_def base_ok_def store_ok_quiet quiet_sets)

lemma in_pass_effect: "in_pass c K s \<Longrightarrow> quiet c x \<Longrightarrow> in_pass c K (s\<lparr>disk := do_effect W x (disk s)\<rparr>)"
  by (simp add: in_pass_def base_ok_def store_ok_quiet quiet_sets buffered_def)

definition silent :: "rpc_config \<Rightarrow> 'a step \<Rightarrow> bool" where
  "silent c m \<longleftrightarrow> (\<forall>K. keeps (settled c K) m \<and> keeps (in_pass c K) m)"

lemma silentI: "(\<And>K. keeps (settled c K) m) \<Longrightarrow> (\<And>K. keeps (in_pass c K) m) \<Longrightarrow> silent c m"
  by (simp add: silent_def)

lemma silent_settled: "silent c m \<Longrightarrow> keeps (settled c K) m"
  by (simp add: silent_def)

lemma silent_in_pass: "silent c m \<Longrightarrow> keeps (in_pass c K) m"
  by (simp add: silent_def)

lemma silent_bind: "silent c m \<Longrightarrow> (\<And>x. silent c (f x)) \<Longrightarrow> silent c (bindA m f)"
  by (simp add: silent_def keeps_bindA)

lemma silent_then: "silent c m \<Longrightarrow> silent c k \<Longrightarrow> silent c (thenA m k)"
  by (simp add: silent_def keeps_thenA)

lemma silent_basic:
  "silent c (ret x)" "silent c (raise y)" "silent c (getA g)" "silent c (liftA r)"
  by (simp_all add: silent_def keeps_intros)

lemma silent_for: "(\<And>x. x \<in> set xs \<Longrightarrow> silent c (body x)) \<Longrightarrow> silent c (forA xs body)"
  by (simp add: silent_def keeps_forA)

lemma silent_rpc: "silent c (rpc a)"
  by (simp add: silent_def keeps_def rpc_def)

lemma silent_stop: "silent c (stop_is_set e)"
  by (simp add: silent_def keeps_def stop_is_set_def)

lemma silent_on_flags: "silent c (on_flags f)"
  by (simp add: silent_def keeps_def on_flags_def)

lemma quiet_flags: "quiet c (EReplace p (map status_cells xs))"
  by (auto simp: quiet_def writes_block_def status_cells_def)

lemma silent_flush_flags: "silent c (flush_flags e)"
proof -
  have "(settled c K s \<longrightarrow> settled c K (snd (flush_flags e s))) \<and> (in_pass c K s \<longrightarrow> in_pass c K (snd (flush_flags e s)))" for K s
  proof -
    let ?s = "s\<lparr>flags := fst (status_flush (e_write e) (flags s, disk s))\<rparr>"
    have f: "snd (flush_flags e s) = (if dirty (flags s)
      then ?s\<lparr>disk := do_effect (e_write e) (EReplace (bs_path (flags s)) (map status_cells (sort_key fst (entries (flags s))))) (disk ?s)\<rparr>
      else ?s)"
      by (simp add: flush_flags_def status_flush_def)
    show ?thesis
      using settled_effect [of c K ?s] in_pass_effect [of c K ?s] quiet_flags unfolding f by simp
  qed
  then show ?thesis by (simp add: silent_def keeps_def)
qed

lemma silent_put_pointer: "silent c (put_pointer e p h b)"
proof -
  have "quiet c (EReplace p [[(''height'', CInt h), (''blockhash'', opt_cell CStr b)]])"
    by (simp add: quiet_def writes_block_def)
  then show ?thesis
    by (simp add: silent_def keeps_def put_pointer_def on_disk_def write_single_row_csv_def settled_effect in_pass_effect)
qed

lemmas silent_intros = silent_bind silent_then silent_basic silent_for silent_rpc silent_stop silent_on_flags
  silent_flush_flags silent_put_pointer

section \<open>A parsed block\<close>

definition exports_itself :: "parsed_block \<Rightarrow> bool" where
  "exports_itself p \<longleftrightarrow>
     map_of (pb_event p) ''hash'' = Some (CStr (pb_hash p)) \<and> ''blocks'' \<notin> fst ` set (pb_frames p)"

lemma build_parsed_block_Inr:
  assumes "build_parsed_block nm c pm b = Inr p"
  shows "exports_itself p \<and> bk_hash b = Some (pb_hash p)"
proof -
  obtain a h bh t where a: "aggregate_block nm c pm b = Inr a" "key ''hash'' (bk_hash b) = Inr bh"
    and p: "p = \<lparr>pb_height = h, pb_hash = bh, pb_prev = or_else (bk_previousblockhash b) '''',
            pb_time = t, pb_event = ba_block a,
            pb_frames = [(''transactions'', ba_txs a), (''inputs'', ba_inputs a), (''outputs'', ba_outputs a)]\<rparr>"
    using assms by (auto simp: build_parsed_block_def bindE_Inr)
  from a(2) have bh: "bk_hash b = Some bh" by (simp add: key_def split: option.splits)
  from a(1) obtain m s w sub ts where "ba_block a = block_event nm b m sub w s ts"
    by (auto simp: aggregate_block_def bindE_Inr Let_def)
  with bh p show ?thesis by (simp add: exports_itself_def block_event_def Let_def)
qed

section \<open>One height\<close>

text \<open>What the code relies on the node for: \<open>getblock\<close> returns the block it was asked for.\<close>

definition node_law :: "env \<Rightarrow> bool" where
  "node_law e \<longleftrightarrow> (\<forall>n b bk. nd_block (e_node e) n b = Inr bk \<longrightarrow> bk_hash bk = Some b)"

lemma keys_add_rows [simp]: "map fst (add_rows k rows bs) = map fst bs"
  by (simp add: add_rows_def split_beta)

lemma map_of_add_rows: "map_of (add_rows k rows bs) k' = map_option (\<lambda>b. if k' = k then b @ rows else b) (map_of bs k')"
  by (induction bs) (auto simp: add_rows_def)

lemma fold_add_rows:
  "map fst (fold (\<lambda>(k, rows). add_rows k rows) fs bs) = map fst bs \<and>
   (k \<notin> fst ` set fs \<longrightarrow> map_of (fold (\<lambda>(k, rows). add_rows k rows) fs bs) k = map_of bs k)"
proof (induction fs arbitrary: bs)
  case (Cons f fs)
  obtain k' rows where "f = (k', rows)" by force
  with Cons [of "add_rows k' rows bs"] show ?case by (auto simp: map_of_add_rows option.map_ident)
qed simp

lemma buffer_export_ok:
  assumes p: "exports_itself p"
  shows "triple (\<lambda>s. in_pass c K s \<and> pb_hash p \<notin> current_blocks (index s)) (buffer_export p t) (\<lambda>_. in_pass c K) (in_pass c K)"
  unfolding buffer_export_def
proof (rule triple_upd)
  fix s
  assume s: "in_pass c K s \<and> pb_hash p \<notin> current_blocks (index s)"
  let ?ev = "AList.update ''time_since_prev_block_sec'' (opt_cell CInt (map_option (\<lambda>t. pb_time p - t) t)) (pb_event p)"
  let ?bs = "fold (\<lambda>(k, rows). add_rows k rows) (pb_frames p) (add_rows ''blocks'' [?ev] (buffers s))"
  let ?ix = "index_add (pb_height p) (pb_hash p) (pb_prev p) CURRENT_INDEX_SCHEMA_VERSION (index s)"
  let ?s = "s\<lparr>buffers := ?bs, index := ?ix\<rparr>"
  have keys: "map fst ?bs = sequencer_names" using s fold_add_rows [of "pb_frames p"] by (simp add: in_pass_def)
  have "map_of ?bs ''blocks'' = map_option (\<lambda>b. b @ [?ev]) (map_of (buffers s) ''blocks'')"
    using p fold_add_rows [of "pb_frames p" _ "''blocks''"] by (simp add: exports_itself_def map_of_add_rows)
  moreover have "map_of (buffers s) ''blocks'' \<noteq> None"
    using s by (simp add: in_pass_def map_of_eq_None_iff sequencer_names_def flip: set_map)
  moreover have "map_of ?ev ''hash'' = Some (CStr (pb_hash p))" using p by (simp add: exports_itself_def)
  ultimately have b: "buffered ?s = buffered s \<union> {pb_hash p}" by (auto simp: buffered_def)
  have "store_ok c K (?ix, disk s)" using s by (intro store_ok_add) (auto simp: in_pass_def base_ok_def)
  moreover have "staged ?ix \<subseteq> staged (index s) \<union> {pb_hash p}"
    using staged_add [of "pb_height p" "pb_hash p" "pb_prev p" CURRENT_INDEX_SCHEMA_VERSION "index s"] by simp
  ultimately have "in_pass c K ?s" using s b keys by (auto simp: in_pass_def base_ok_def)
  then show "in_pass c K (let event = ?ev;
       bs = fold (\<lambda>(k, rows). add_rows k rows) (pb_frames p) (add_rows ''blocks'' [event] (buffers s))
     in s\<lparr>buffers := bs, index := ?ix\<rparr>)"
    by (simp only: Let_def)
qed

lemma process_height_ok:
  assumes law: "node_law e"
  shows "keeps (in_pass c K) (process_height e c' pm h t)"
proof -
  let ?I = "in_pass c K"
  have parse: "triple (\<lambda>s. ?I s \<and> b \<notin> current_blocks (index s)) (parse_block e c' pm b)
      (\<lambda>p s. (?I s \<and> pb_hash p \<notin> current_blocks (index s)) \<and> exports_itself p) ?I" for b
  proof (rule tripleI)
    fix s x s' assume "?I s \<and> b \<notin> current_blocks (index s)" "parse_block e c' pm b s = (Inl x, s')"
    then show "?I s'" by (auto simp: parse_block_def bindA_def rpc_def split: sum.splits)
  next
    fix s p s' assume s: "?I s \<and> b \<notin> current_blocks (index s)" and r: "parse_block e c' pm b s = (Inr p, s')"
    then obtain bk where bk: "nd_block (e_node e) (calls s) b = Inr bk" "s' = s\<lparr>calls := calls s + 1\<rparr>"
      "build_parsed_block (e_nums e) (parsing c') pm bk = Inr p"
      by (auto simp: parse_block_def bindA_def rpc_def split: sum.splits)
    with law build_parsed_block_Inr [OF bk(3)] have "pb_hash p = b" "exports_itself p" by (auto simp: node_law_def)
    with s bk show "(?I s' \<and> pb_hash p \<notin> current_blocks (index s')) \<and> exports_itself p" by simp
  qed
  have export: "triple (\<lambda>s. (?I s \<and> pb_hash p \<notin> current_blocks (index s)) \<and> exports_itself p)
      (thenA (buffer_export p t) (ret (pb_time p))) (\<lambda>_. ?I) ?I" for p
  proof (cases "exports_itself p")
    case True
    then show ?thesis
      by (intro triple_then [where R = ?I]) (auto intro: triple_ret triple_pre [OF _ buffer_export_ok])
  qed (simp add: triple_def)
  have silent: "triple ?I m (\<lambda>_. ?I) ?I" if "silent c m" for m :: "'x step"
    using silent_in_pass [OF that] by (rule triple_keeps)
  have "triple ?I (process_height e c' pm h t) (\<lambda>_. ?I) ?I"
    unfolding process_height_def
  proof (rule triple_bind [where R = "\<lambda>_. ?I"])
    show "triple ?I (get_block_hash e h) (\<lambda>_. ?I) ?I" by (auto simp: get_block_hash_def intro!: silent silent_intros)
    fix b
    let ?R = "\<lambda>needed s. ?I s \<and> (needed \<longrightarrow> b \<notin> current_blocks (index s))"
    have 1: "triple ?I (getA (\<lambda>s. needs_export (index s) b)) ?R ?I" by (simp add: triple_def not_current)
    have 2: "triple (?R needed) (if \<not> needed then get_header_time e b
            else bindA (parse_block e c' pm b) (\<lambda>p. thenA (buffer_export p t) (ret (pb_time p)))) (\<lambda>_. ?I) ?I" for needed
    proof (cases needed)
      case True
      then show ?thesis by (auto intro: triple_bind [OF parse export])
    next
      case False
      then show ?thesis by (auto simp: get_header_time_def intro!: silent silent_intros)
    qed
    show "triple ?I (bindA (getA (\<lambda>s. needs_export (index s) b)) (\<lambda>needed.
     bindA (if \<not> needed then get_header_time e b
            else bindA (parse_block e c' pm b) (\<lambda>p. thenA (buffer_export p t) (ret (pb_time p)))) (\<lambda>t.
     thenA (on_flags (set_canonical_if_present h b True)) (ret (b, t))))) (\<lambda>_. ?I) ?I"
      by (rule triple_bind [OF 1], rule triple_bind [OF 2]) (auto intro!: silent silent_intros)
  qed
  then show ?thesis by (rule keeps_triple)
qed

section \<open>Checkpoints and the loop over the heights\<close>

lemma settled_base: "settled c K s \<Longrightarrow> base_ok c K s"
  by (simp add: settled_def)

lemma in_pass_base: "in_pass c K s \<Longrightarrow> base_ok c K s"
  by (simp add: in_pass_def)

text \<open>After a drain: both invariants, and nothing is buffered.\<close>

definition drained :: "rpc_config \<Rightarrow> string set \<Rightarrow> ingest \<Rightarrow> bool" where
  "drained c K s \<longleftrightarrow> settled c K s \<and> in_pass c K s \<and> buffered s = {}"

lemma drain_drained: "triple (in_pass c K) (drain e a) (\<lambda>_. drained c K) X"
  using drain_ok [of c K _ e a] by (force simp: drained_def intro!: tripleI)

lemma flush_index_drained: "triple (drained c K) (flush_index e) (\<lambda>_. drained c K) X"
  unfolding flush_index_def
proof (rule triple_upd)
  fix s assume s: "drained c K s"
  then have "store_ok c K (index s, disk s)" "staged (index s) \<subseteq> exported c (log (disk s))"
    by (simp_all add: drained_def settled_def base_ok_def)
  moreover have "buffered (s\<lparr>index := ix, disk := d\<rparr>) = {}" for ix d
    using s by (simp add: drained_def buffered_def)
  ultimately show "drained c K (let (ix, d) = index_flush (e_write e) (index s, disk s) in s\<lparr>index := ix, disk := d\<rparr>)"
    using s store_ok_flush [of c K "index s" "disk s" "e_write e"]
    by (cases "index_flush (e_write e) (index s, disk s)")
      (simp add: drained_def settled_def in_pass_def base_ok_def)
qed

lemma silent_drained: "silent c m \<Longrightarrow> (\<And>s. buffers (snd (m s)) = buffers s) \<Longrightarrow> keeps (drained c K) m"
  by (simp add: silent_def keeps_def drained_def buffered_def)

lemma flush_flags_buffers: "buffers (snd (flush_flags e s)) = buffers s"
  by (simp add: flush_flags_def status_flush_def split: prod.splits)

lemma put_pointer_buffers: "buffers (snd (put_pointer e p h b s)) = buffers s"
  by (simp add: put_pointer_def on_disk_def)

lemma flush_flags_drained: "triple (drained c K) (flush_flags e) (\<lambda>_. drained c K) (base_ok c K)"
  by (intro triple_keeps silent_drained silent_flush_flags flush_flags_buffers) (simp add: drained_def settled_base)

lemma put_pointer_drained: "triple (drained c K) (put_pointer e p h b) (\<lambda>_. drained c K) (base_ok c K)"
  by (intro triple_keeps silent_drained silent_put_pointer put_pointer_buffers) (simp add: drained_def settled_base)

lemma checkpoint_drained: "triple (in_pass c K) (checkpoint e c' a h b) (\<lambda>_. drained c K) (base_ok c K)"
  unfolding checkpoint_def
  by (intro triple_then [OF drain_drained] triple_then [OF flush_index_drained]
      triple_then [OF flush_flags_drained] put_pointer_drained)

text \<open>What the prefetch generator has pending was parsed by the workers.\<close>

definition gen_good :: "parsed_block gen \<Rightarrow> bool" where
  "gen_good g \<longleftrightarrow> (\<forall>p. Inr p \<in> set (g_pending g) \<longrightarrow> exports_itself p)"

lemma worker_fetch_good: "worker_fetch e c pm n h = Inr p \<Longrightarrow> exports_itself p"
  by (auto simp: worker_fetch_def fetch_and_parse_def bindE_Inr dest!: build_parsed_block_Inr split: if_splits)

lemma gen_submit_good: "gen_good g \<Longrightarrow> gen_good (gen_submit (worker_fetch e c pm) g)"
  by (auto simp: gen_good_def gen_submit_def dest: worker_fetch_good sym split: list.splits)

lemma gen_start_good: "gen_good g \<Longrightarrow> gen_good (gen_start (worker_fetch e c pm) w g)"
proof -
  have "gen_good x \<Longrightarrow> gen_good ((gen_submit (worker_fetch e c pm) ^^ n) x)" for n x
    by (induction n) (simp_all add: gen_submit_good)
  moreover assume g: "gen_good g"
  moreover have "gen_good (g\<lparr>g_started := True\<rparr>)" using g by (simp add: gen_good_def)
  ultimately show ?thesis by (simp add: gen_start_def)
qed

lemma gen_next_good:
  assumes g: "gen_good g" and n: "gen_next (worker_fetch e c pm) w g = (r, g')"
  shows "gen_good g' \<and> (\<forall>p. r = Some (Inr p) \<longrightarrow> exports_itself p)"
proof (cases "g_ended g")
  case True
  with g n show ?thesis by (auto simp: gen_next_def)
next
  case False
  let ?g = "gen_start (worker_fetch e c pm) w g"
  have s: "gen_good ?g" by (rule gen_start_good [OF g])
  show ?thesis
  proof (cases "g_pending ?g")
    case Nil
    with n s False show ?thesis by (auto simp: gen_next_def gen_good_def)
  next
    case (Cons x xs)
    have "gen_good (?g\<lparr>g_pending := xs\<rparr>)" "\<forall>p. x = Inr p \<longrightarrow> exports_itself p"
      using s Cons by (auto simp: gen_good_def)
    with n Cons False show ?thesis
      by (cases x) (auto simp: gen_next_def Let_def gen_submit_good, simp_all add: gen_good_def)
  qed
qed

definition loop_good :: "loop \<Rightarrow> bool" where
  "loop_good lp \<longleftrightarrow> (\<forall>g. lp_prefetched lp = Some g \<longrightarrow> gen_good g)"

lemma keeps_in_pass: "keeps (in_pass c K) m \<Longrightarrow> triple (in_pass c K) m (\<lambda>_. in_pass c K) (base_ok c K)"
  by (erule triple_keeps) (rule in_pass_base)

lemma process_prefetched_ok:
  assumes p: "exports_itself p"
  shows "keeps (in_pass c K) (process_prefetched p t)"
proof (rule keeps_triple)
  let ?I = "in_pass c K"
  let ?R = "\<lambda>needed s. ?I s \<and> (needed \<longrightarrow> pb_hash p \<notin> current_blocks (index s))"
  have 1: "triple ?I (getA (\<lambda>s. needs_export (index s) (pb_hash p))) ?R ?I" by (simp add: triple_def not_current)
  have 2: "triple (?R needed) (if needed then buffer_export p t else ret ()) (\<lambda>_. ?I) ?I" for needed
    using buffer_export_ok [OF p, of c K t] by (cases needed) (auto intro: triple_ret)
  have 3: "triple ?I (thenA (on_flags f) (ret x)) (\<lambda>_. ?I) ?I" for f and x :: "string \<times> int"
    by (rule triple_keeps) (auto intro!: silent_in_pass silent_intros)
  show "triple ?I (process_prefetched p t) (\<lambda>_. ?I) ?I"
    unfolding process_prefetched_def by (rule triple_bind [OF 1], rule triple_then [OF 2 3])
qed

lemma triple_case:
  "(x = None \<Longrightarrow> triple P m Q X) \<Longrightarrow> (\<And>y. x = Some y \<Longrightarrow> triple P (f y) Q X) \<Longrightarrow>
   triple P (case x of None \<Rightarrow> m | Some y \<Rightarrow> f y) Q X"
  by (cases x) simp_all

lemma take_prefetched_ok:
  assumes g: "gen_good g"
  shows "triple (in_pass c K) (take_prefetched e c' pm g lp)
           (\<lambda>r s. in_pass c K s \<and> (\<forall>lp' b t. r = Some (lp', b, t) \<longrightarrow> loop_good lp')) (base_ok c K)"
proof -
  obtain r g' where n: "gen_next (worker_fetch e c' pm) (window_of c') g = (r, g')" by force
  note good = gen_next_good [OF g n]
  have body: "triple (in_pass c K) (bindA (process_prefetched p (lp_prev_time lp)) (\<lambda>(b, t). ret (Some (lp\<lparr>lp_prefetched := Some g'\<rparr>, b, t))))
     (\<lambda>r s. in_pass c K s \<and> (\<forall>lp' b t. r = Some (lp', b, t) \<longrightarrow> loop_good lp')) (base_ok c K)" if "r = Some (Inr p)" for p
    using good that
    by (intro triple_bind [OF keeps_in_pass [OF process_prefetched_ok]]) (auto simp: loop_good_def split: prod.split intro!: triple_ret)
  show ?thesis
    using body by (auto simp: take_prefetched_def n split: option.split sum.split intro!: triple_raise triple_ret in_pass_base)
qed

lemma visit_height_ok:
  assumes law: "node_law e" and lp: "loop_good lp"
  shows "triple (in_pass c K) (visit_height e c' pm a n h lp)
           (\<lambda>r s. in_pass c K s \<and> (\<forall>lp'. r = Some lp' \<longrightarrow> loop_good lp')) (base_ok c K)"
proof -
  let ?Q = "\<lambda>r s. in_pass c K s \<and> (\<forall>lp' b t. r = Some (lp', b, t :: int) \<longrightarrow> loop_good lp')"
  let ?Q' = "\<lambda>r s. in_pass c K s \<and> (\<forall>lp'. r = Some lp' \<longrightarrow> loop_good lp')"
  let ?one = "bindA (process_height e c' pm h (lp_prev_time lp)) (\<lambda>(b, t). ret (Some (lp, b, t)))"
  have one: "triple (in_pass c K) ?one ?Q (base_ok c K)"
    using lp by (intro triple_bind [OF keeps_in_pass [OF process_height_ok [OF law]]]) (auto intro!: triple_ret split: prod.split)
  let ?take = "case lp_prefetched lp of
                     Some g \<Rightarrow> if h \<le> n then take_prefetched e c' pm g lp else ?one
                   | None \<Rightarrow> ?one"
  have take: "triple (in_pass c K) ?take ?Q (base_ok c K)"
    using lp one take_prefetched_ok [of _ c K e c' pm lp] by (auto simp: loop_good_def split: option.split)
  have chk: "triple (in_pass c K) (thenA (if x then checkpoint e c' a h b else ret ()) (ret (Some lp2))) ?Q' (base_ok c K)"
    if "loop_good lp2" for x b lp2
  proof (rule triple_then [where R = "in_pass c K"])
    show "triple (in_pass c K) (if x then checkpoint e c' a h b else ret ()) (\<lambda>_. in_pass c K) (base_ok c K)"
      using triple_weaken [OF checkpoint_drained, where Q' = "\<lambda>_. in_pass c K" and P' = "in_pass c K"]
      by (auto simp: drained_def intro: triple_ret)
    show "triple (in_pass c K) (ret (Some lp2)) ?Q' (base_ok c K)" using that by (auto intro: triple_ret)
  qed
  have rest: "triple (?Q r) (case r of None \<Rightarrow> ret None
                 | Some (lp1, b, t) \<Rightarrow>
                     let lp2 = lp1\<lparr>lp_last_hash := Some b, lp_prev_time := Some t, lp_last_height := h,
                                   lp_processed := lp_processed lp1 + 1,
                                   lp_prefetched := (if h = n then None else lp_prefetched lp1)\<rparr>
                     in thenA (if a \<or> lp_processed lp2 mod batch_size c' = 0
                               then checkpoint e c' a h (Some b) else ret ())
                          (ret (Some lp2))) ?Q' (base_ok c K)" for r
  proof (cases r)
    case None
    then show ?thesis by (auto intro: triple_ret)
  next
    case (Some x)
    obtain lp1 b t where x: "x = (lp1, b, t)" by (metis prod_cases3)
    show ?thesis
    proof (cases "loop_good lp1")
      case True
      then show ?thesis unfolding Some x Let_def option.case prod.case
        by (intro triple_pre [OF _ chk]) (auto simp: loop_good_def)
    next
      case False
      then show ?thesis by (simp add: triple_def Some x)
    qed
  qed
  have stop: "triple (in_pass c K) (stop_is_set e) (\<lambda>_. in_pass c K) (base_ok c K)"
    by (intro keeps_in_pass silent_in_pass silent_stop)
  have "triple (in_pass c K) (if s then ret None else bindA ?take (\<lambda>r. case r of None \<Rightarrow> ret None
                 | Some (lp1, b, t) \<Rightarrow>
                     let lp2 = lp1\<lparr>lp_last_hash := Some b, lp_prev_time := Some t, lp_last_height := h,
                                   lp_processed := lp_processed lp1 + 1,
                                   lp_prefetched := (if h = n then None else lp_prefetched lp1)\<rparr>
                     in thenA (if a \<or> lp_processed lp2 mod batch_size c' = 0
                               then checkpoint e c' a h (Some b) else ret ())
                          (ret (Some lp2)))) ?Q' (base_ok c K)" for s
    using triple_bind [OF take rest] by (auto intro: triple_ret)
  from triple_bind [OF stop this] show ?thesis unfolding visit_height_def .
qed

lemma visit_heights_ok:
  assumes law: "node_law e"
  shows "loop_good lp \<Longrightarrow>
    triple (in_pass c K) (visit_heights e c' pm a n hs lp) (\<lambda>_. in_pass c K) (base_ok c K)"
proof (induction hs arbitrary: lp)
  case Nil
  then show ?case by (simp add: triple_def)
next
  case (Cons h hs)
  have "triple (\<lambda>s. in_pass c K s \<and> (\<forall>lp'. r = Some lp' \<longrightarrow> loop_good lp'))
      (case r of None \<Rightarrow> ret lp | Some lp' \<Rightarrow> visit_heights e c' pm a n hs lp') (\<lambda>_. in_pass c K) (base_ok c K)" for r
    using Cons.IH by (cases r; cases "\<forall>lp'. r = Some lp' \<longrightarrow> loop_good lp'") (auto intro: triple_ret simp: triple_def)
  from triple_bind [OF visit_height_ok [OF law Cons.prems] this] show ?case by simp
qed

section \<open>A pass\<close>

abbreviation no_hash :: "row list \<Rightarrow> bool" where
  "no_hash rows \<equiv> \<forall>r \<in> set rows. map_of r ''hash'' = None"

lemma quiet_replace: "no_hash rows \<Longrightarrow> quiet c (EReplace p rows)"
  by (simp add: quiet_def writes_block_def)

lemma silent_walk_back: "silent c (walk_back e n ds live h b)"
proof (induction e n ds live h b rule: walk_back.induct)
  case (1 e ds live h b)
  show ?case by (simp only: walk_back.simps silent_basic)
next
  case (2 e n ds live h b)
  show ?case unfolding walk_back.simps get_block_hash_def Let_def
    by (intro silent_bind silent_basic) (auto split: option.split intro!: silent_intros 2)
qed

lemma silent_triple: "silent c m \<Longrightarrow> triple (settled c K) m (\<lambda>_. settled c K) (base_ok c K)"
  by (rule triple_keeps [OF silent_settled]) (auto intro: settled_base)

lemma attached_rows_ok:
  "triple (settled c K) (attached_rows e live hs) (\<lambda>rows s. settled c K s \<and> no_hash rows) (settled c K)"
proof (induction hs)
  case Nil
  then show ?case by (simp add: triple_def)
next
  case (Cons h hs)
  have 1: "triple (settled c K) (case map_of live h of Some l \<Rightarrow> if l = '''' then get_block_hash e h else ret l
            | None \<Rightarrow> get_block_hash e h) (\<lambda>_. settled c K) (settled c K)"
    by (intro triple_keeps silent_settled) (auto simp: get_block_hash_def silent_intros split: option.split)
  have 2: "triple (\<lambda>s. settled c K s \<and> no_hash rows)
     (ret ([(''action'', CStr ''attached''), (''height'', CInt h), (''blockhash'', CStr l)] # rows))
     (\<lambda>rows s. settled c K s \<and> no_hash rows) (settled c K)" for l rows
    by (rule triple_ret) auto
  show ?case unfolding attached_rows.simps by (intro triple_bind [OF 1] triple_bind [OF Cons.IH] 2)
qed

lemma recover_ok: "triple (settled c K) (recover_from_reorg e c' h b) (\<lambda>_. settled c K) (base_ok c K)"
proof -
  note keep = silent_triple
  have log: "triple (\<lambda>s. settled c K s \<and> no_hash att)
     (thenA (flush_flags e) (
      thenA (updA (\<lambda>s. s\<lparr>disk := snd (write_reorg_log (e_write e) (reorg_dir c') (e_now e (calls s)) lo hi
                                       (detached_rows ds @ att) (disk s))\<rparr>)) (ret x)))
     (\<lambda>_. settled c K) (base_ok c K)" for att lo hi ds and x :: "int \<times> string"
  proof (rule triple_cond)
    assume "no_hash att"
    then have "no_hash (detached_rows ds @ att)" by (auto simp: detached_rows_def)
    then have "triple (settled c K) (updA (\<lambda>s. s\<lparr>disk := snd (write_reorg_log (e_write e) (reorg_dir c') (e_now e (calls s)) lo hi
                                       (detached_rows ds @ att) (disk s))\<rparr>)) (\<lambda>_. settled c K) (base_ok c K)"
      by (intro triple_upd) (simp add: write_reorg_log_def Let_def settled_effect quiet_replace)
    then show "triple (settled c K)
       (thenA (flush_flags e) (
        thenA (updA (\<lambda>s. s\<lparr>disk := snd (write_reorg_log (e_write e) (reorg_dir c') (e_now e (calls s)) lo hi
                                         (detached_rows ds @ att) (disk s))\<rparr>)) (ret x)))
       (\<lambda>_. settled c K) (base_ok c K)"
      by (intro triple_then [OF keep [OF silent_flush_flags]] triple_then) (auto intro: triple_ret)
  qed
  have att: "triple (settled c K) (attached_rows e live hs) (\<lambda>rows s. settled c K s \<and> no_hash rows) (base_ok c K)" for live hs
    by (rule triple_weaken [OF attached_rows_ok]) (auto intro: settled_base)
  have rest: "triple (settled c K) (thenA (forA (rev ds) (\<lambda>(h, b). on_flags (set_canonical h b False))) (
       bindA (attached_rows e live [ah + 1..h]) (\<lambda>attached.
       thenA (flush_flags e) (
       thenA (updA (\<lambda>s. s\<lparr>disk := snd (write_reorg_log (e_write e) (reorg_dir c') (e_now e (calls s))
                (ah + 1) h (detached_rows (rev ds) @ attached) (disk s))\<rparr>))
       (ret (ah, ab)))))) (\<lambda>_. settled c K) (base_ok c K)" for ah and ab :: string and ds live
    by (rule triple_then [OF keep [OF silent_for] triple_bind [OF att log]]) (auto intro: silent_on_flags)
  show ?thesis unfolding recover_from_reorg_def
    by (rule triple_bind [OF keep [OF silent_walk_back]]) (simp only: rest split: prod.split, simp)
qed

text \<open>The bootstrap stages rows of version 1 and flushes them.\<close>

definition store_settled :: "rpc_config \<Rightarrow> string set \<Rightarrow> index_store \<times> disk \<Rightarrow> bool" where
  "store_settled c K sd \<longleftrightarrow> store_ok c K sd \<and> staged (fst sd) \<subseteq> exported c (log (snd sd))"

lemma seed_row_keeps: "keeps (store_settled c K) (seed_row r)"
proof -
  have "store_settled c K (index_add h b p 1 ix, d)" if "store_settled c K (ix, d)" for ix d h b p
    using that store_ok_add [of c K ix d 1] staged_add [of h b p 1 ix]
    by (auto simp: store_settled_def CURRENT_INDEX_SCHEMA_VERSION_def)
  then show ?thesis unfolding seed_row_def by (auto intro!: keeps_intros keeps_updA)
qed

lemma seed_keeps: "keeps (store_settled c K) (seed_index_from_blocks_csv W RB ft sb eb)"
proof -
  have "store_settled c K (index_flush W (ix, d))" if "store_settled c K (ix, d)" for ix d
    using that store_ok_flush [of c K ix d W] by (simp add: store_settled_def)
  then have "keeps (store_settled c K) (updA (index_flush W))" by (auto intro!: keeps_updA)
  then show ?thesis unfolding seed_index_from_blocks_csv_def
    by (auto intro!: keeps_bindA keeps_thenA keeps_forA keeps_ret keeps_getA keeps_liftA seed_row_keeps split: prod.split)
qed

lemma seed_step_ok: "keeps (settled c K) (seed_step e)"
proof (rule keepsI)
  fix s assume s: "settled c K s"
  show "settled c K (snd (seed_step e s))"
  proof (cases "map_of (seqs s) ''blocks''")
    case None
    with s show ?thesis by (simp add: seed_step_def)
  next
    case (Some q)
    obtain r ix d where r: "seed_index_from_blocks_csv (e_write e) (e_read_blocks e) (e_float_text e)
                  (state_base q) (export_base q) (index s, disk s) = (r, (ix, d))" by (metis prod_cases3)
    have "store_settled c K (index s, disk s)" using s by (simp add: settled_def base_ok_def store_settled_def)
    with keepsD [OF seed_keeps, of c K "(index s, disk s)" "e_write e" "e_read_blocks e" "e_float_text e"
        "state_base q" "export_base q"] have "store_settled c K (ix, d)" by (simp add: r)
    with s Some r show ?thesis by (simp add: seed_step_def settled_def base_ok_def store_settled_def)
  qed
qed

lemma starting_point_ok: "triple (settled c K) (starting_point e c') (\<lambda>_. settled c K) (base_ok c K)"
proof -
  note keep = silent_triple
  have 1: "triple (settled c K) (bindA (getA disk) (\<lambda>d. liftA (read_pointer (e_read e) (e_float_text e) d (current_path c'))))
     (\<lambda>_. settled c K) (base_ok c K)"
    by (intro keep silent_intros)
  have 2: "triple (settled c K) (case stored of Some cur \<Rightarrow> ret (Some cur) | None \<Rightarrow> seed_step e) (\<lambda>_. settled c K) (base_ok c K)"
    for stored
    by (cases stored) (auto intro: triple_ret triple_keeps seed_step_ok settled_base)
  have 3: "triple (settled c K) (case cur of
         None \<Rightarrow> ret (- 1, None)
       | Some (h, b) \<Rightarrow>
           bindA (get_block_hash e h) (\<lambda>live.
             if live \<noteq> b then bindA (recover_from_reorg e c' h b) (\<lambda>(h', b'). ret (h', Some b'))
             else ret (h, Some b))) (\<lambda>_. settled c K) (base_ok c K)" for cur
  proof (cases cur)
    case (Some x)
    obtain h b where "x = (h, b)" by force
    moreover have "triple (settled c K) (get_block_hash e h) (\<lambda>_. settled c K) (base_ok c K)"
      by (auto simp: get_block_hash_def intro!: keep silent_rpc)
    ultimately show ?thesis
      using Some by (auto intro!: triple_bind [where R = "\<lambda>_. settled c K"] triple_ret recover_ok split: prod.split)
  qed (auto intro: triple_ret)
  from triple_bind [OF 1 triple_bind [OF 2 3]] show ?thesis
    by (simp only: starting_point_def)
qed

lemma rewind_ok: "keeps (settled c K) (rewind_stale cur)"
proof (rule keepsI)
  fix s assume "settled c K s"
  moreover obtain r ix where e: "earliest_stale (index s) = (r, ix)" by force
  ultimately have "settled c K (s\<lparr>index := ix\<rparr>)"
    using store_ok_earliest [of c K "index s" "disk s"] staged_earliest [of "index s"]
    by (simp add: settled_def base_ok_def)
  then show "settled c K (snd (rewind_stale cur s))"
    by (auto simp: rewind_stale_def e Let_def split: option.split)
qed

lemma empty_buffers_ok: "triple (settled c K) empty_buffers (\<lambda>_. in_pass c K) X"
  unfolding empty_buffers_def
proof (rule triple_upd)
  fix s assume s: "settled c K s"
  have "map_of (map (\<lambda>(k, q). (k, [])) (seqs s)) ''blocks'' = Some rows \<Longrightarrow> rows = []" for rows :: "row list"
    by (auto dest!: map_of_SomeD)
  then have "buffered (s\<lparr>buffers := map (\<lambda>(k, q). (k, [])) (seqs s)\<rparr>) = {}" by (auto simp: buffered_def)
  then show "in_pass c K (s\<lparr>buffers := map (\<lambda>(k, q). (k, [])) (seqs s)\<rparr>)"
    using s by (simp add: in_pass_def settled_def base_ok_def seqs_ok_def o_def split_beta)
qed

lemma catch_up_ok:
  assumes law: "node_law e"
  shows "triple (settled c K) (catch_up e c' pm tip lh ch cb) (\<lambda>_. settled c K) (base_ok c K)"
proof -
  have time: "silent c (case cb of None \<Rightarrow> ret None | Some b \<Rightarrow> bindA (get_header_time e b) (\<lambda>t. ret (Some t)))"
    by (auto simp: get_header_time_def silent_intros split: option.split)
  have close: "triple (in_pass c K) (thenA (drain e a) (thenA (flush_index e) (thenA (flush_flags e) (
          thenA (case lp_last_hash lp of None \<Rightarrow> ret ()
                 | Some b \<Rightarrow> put_pointer e (current_path c') (lp_last_height lp) (Some b))
            (ret (lp_last_height lp \<ge> lh)))))) (\<lambda>_. settled c K) (base_ok c K)" for a lp
  proof (intro triple_then [OF drain_drained] triple_then [OF flush_index_drained] triple_then [OF flush_flags_drained])
    show "triple (drained c K) (thenA (case lp_last_hash lp of None \<Rightarrow> ret ()
                 | Some b \<Rightarrow> put_pointer e (current_path c') (lp_last_height lp) (Some b))
            (ret (lp_last_height lp \<ge> lh))) (\<lambda>_. settled c K) (base_ok c K)"
    proof (rule triple_then [where R = "drained c K"])
      show "triple (drained c K) (ret (lp_last_height lp \<ge> lh)) (\<lambda>_. settled c K) (base_ok c K)"
        by (rule triple_ret) (simp add: drained_def)
    qed (auto intro: triple_ret put_pointer_drained split: option.split)
  qed
  show ?thesis
    unfolding catch_up_def Let_def
    by (rule triple_bind [OF silent_triple [OF time]], rule triple_then [OF empty_buffers_ok],
        rule triple_bind [OF visit_heights_ok [OF law] close]) (simp add: loop_good_def gen_good_def gen_init_def)
qed

lemma run_one_pass_ok:
  assumes law: "node_law e"
  shows "triple (settled c K) (run_one_pass e c' pm) (\<lambda>_. settled c K) (base_ok c K)"
proof -
  note keep = silent_triple
  have at: "triple (settled c K) (if ch \<ge> lh
              then thenA (put_pointer e (current_path c') ch cb) (thenA (flush_flags e) (ret True))
              else catch_up e c' pm tip lh ch cb) (\<lambda>_. settled c K) (base_ok c K)" for ch lh cb tip
    using catch_up_ok [OF law] by (auto intro!: keep silent_intros)
  have "triple (settled c K) (rewind_stale cur) (\<lambda>_. settled c K) (base_ok c K)" for cur
    by (rule triple_keeps [OF rewind_ok settled_base])
  then have go: "triple (settled c K) (thenA (put_pointer e (latest_path c') lh (Some lb)) (
            bindA (starting_point e c') (\<lambda>cur.
            bindA (rewind_stale cur) (\<lambda>(ch, cb).
              if ch \<ge> lh
              then thenA (put_pointer e (current_path c') ch cb) (thenA (flush_flags e) (ret True))
              else catch_up e c' pm tip lh ch cb)))) (\<lambda>_. settled c K) (base_ok c K)" for lb lh tip
    by (intro triple_then [OF keep [OF silent_put_pointer]] triple_bind [OF starting_point_ok] triple_bind)
      (auto intro: at)
  have "triple (settled c K) (if tip - k < 0 then ret True else bindA (get_block_hash e (tip - k)) (\<lambda>lb.
            thenA (put_pointer e (latest_path c') (tip - k) (Some lb)) (
            bindA (starting_point e c') (\<lambda>cur.
            bindA (rewind_stale cur) (\<lambda>(ch, cb).
              if ch \<ge> tip - k
              then thenA (put_pointer e (current_path c') ch cb) (thenA (flush_flags e) (ret True))
              else catch_up e c' pm tip (tip - k) ch cb))))) (\<lambda>_. settled c K) (base_ok c K)" for tip k
    by (auto intro!: triple_ret triple_bind [OF keep go] simp: get_block_hash_def silent_rpc)
  then show ?thesis unfolding run_one_pass_def Let_def get_block_count_def
    by (rule triple_bind [OF keep [OF silent_rpc]])
qed

lemma ingest_cycle_ok:
  assumes law: "node_law e"
  shows "triple (settled c K) (ingest_cycle e c' pm) (\<lambda>_. settled c K) (base_ok c K)"
proof (rule tripleI)
  have d: "settled c K (s\<lparr>index := discard_pending (index s)\<rparr>)" if "base_ok c K s" for s
    using that store_ok_discard [of c K "index s" "disk s"]
    by (simp add: settled_def base_ok_def staged_def) (simp add: discard_pending_def)
  have p: "triple (settled c K) (bindA (run_one_pass e c' pm) (\<lambda>x. ret (Some x))) (\<lambda>_. settled c K) (base_ok c K)"
    by (intro triple_bind [OF run_one_pass_ok [OF law]] triple_ret)
  fix s assume s: "settled c K s"
  { fix y s' assume r: "ingest_cycle e c' pm s = (Inr y, s')"
    then show "settled c K s'"
      using s triple_Inr [OF p s] triple_Inl [OF p s] d
      by (auto simp: ingest_cycle_def catchA_def thenA_def bindA_def on_index_def split: prod.splits sum.splits if_splits) }
  fix x s' assume "ingest_cycle e c' pm s = (Inl x, s')"
  then show "base_ok c K s'"
    using s triple_Inl [OF p s]
    by (auto simp: ingest_cycle_def catchA_def thenA_def bindA_def on_index_def split: prod.splits sum.splits if_splits)
qed

lemma run_cycles_ok:
  assumes law: "node_law e"
  shows "triple (settled c K) (run_cycles e c' matcher n) (\<lambda>_. settled c K) (base_ok c K)"
proof (induction n)
  case 0
  then show ?case by (simp add: triple_def)
next
  case (Suc n)
  note keep = silent_triple
  have 1: "triple (settled c K) (bindA (if p = None then ret False else stop_is_set e) (\<lambda>stop.
            if stop then ret () else run_cycles e c' matcher n)) (\<lambda>_. settled c K) (base_ok c K)" for p :: "bool option"
    using Suc by (intro triple_bind [OF keep]) (auto intro: triple_ret silent_intros)
  have 2: "triple (settled c K) (if stop then ret () else bindA (ingest_cycle e c' (matcher n)) (\<lambda>passed.
            bindA (if passed = None then ret False else stop_is_set e) (\<lambda>stop.
            if stop then ret () else run_cycles e c' matcher n))) (\<lambda>_. settled c K) (base_ok c K)" for stop
    using triple_bind [OF ingest_cycle_ok [OF law] 1] by (auto intro: triple_ret)
  then show ?case unfolding run_cycles.simps by (rule triple_bind [OF keep [OF silent_stop]])
qed

section \<open>The start of the process\<close>

lemma load_rows_frame: "load_rows rs ix = Inr ix' \<Longrightarrow> ix_path ix' = ix_path ix \<and> pending ix' = pending ix"
  by (induction rs arbitrary: ix) (auto simp: bindE_Inr register_def)

lemma load_parts_frame: "load_parts RI d ps ix = Inr ix' \<Longrightarrow> ix_path ix' = ix_path ix \<and> pending ix' = pending ix"
  by (induction ps arbitrary: ix) (auto simp: bindE_Inr dest: load_rows_frame split: if_splits)

lemma index_init_frame: "index_init RI d b = Inr ix \<Longrightarrow> ix_path ix = b \<and> pending ix = []"
  by (auto simp: index_init_def index_load_def dest: load_parts_frame split: if_splits)

lemma sequencer_Inr:
  "sequencer e c d n = Inr (k, q) \<Longrightarrow> k = n \<and> state_base q = csv_base (state_dir c) n \<and> export_base q = csv_base (output_dir c) n"
  by (auto simp: sequencer_def seq_init_def bindE_Inr Let_def split_beta)

lemma sequencers_ok:
  assumes "mapE (sequencer e c d) sequencer_names = Inr qs"
  shows "seqs_ok c qs"
proof -
  have l: "list_all2 (\<lambda>n x. sequencer e c d n = Inr x) sequencer_names qs" using assms by (simp add: mapE_Inr)
  have "list_all2 (\<lambda>n x. sequencer e c d n = Inr x) ns xs \<Longrightarrow> map fst xs = ns" for ns xs
    by (induction rule: list_all2_induct) (auto dest: sequencer_Inr)
  with l have k: "map fst qs = sequencer_names" by simp
  have "\<exists>n. sequencer e c d n = Inr x" if "x \<in> set qs" for x
    using l that by (auto simp: list_all2_conv_all_nth in_set_conv_nth)
  then have "state_base q = csv_base (state_dir c) k \<and> export_base q = csv_base (output_dir c) k" if "(k, q) \<in> set qs" for k q
    using that by (blast dest: sequencer_Inr)
  with k show ?thesis by (auto simp: seqs_ok_def)
qed

lemma ingest_init_disk:
  assumes "ingest_init e c d = Inr s"
  shows "disk s = d"
proof -
  from assms obtain ix fs qs where "s = \<lparr>disk = d, index = ix, flags = fs, seqs = qs, buffers = [], calls = 0, polls = 0\<rparr>"
    unfolding ingest_init_def bindE_Inr by blast
  then show ?thesis by simp
qed

lemma ingest_init_settled:
  assumes "ingest_init e c d = Inr s" "log d = []"
  shows "settled c (current_blocks (index s)) s"
proof -
  from assms(1) obtain ix fs qs where i: "index_init (e_read_index e) d (csv_base (state_dir c) ''index'') = Inr ix"
    "mapE (sequencer e c d) sequencer_names = Inr qs"
    and s: "s = \<lparr>disk = d, index = ix, flags = fs, seqs = qs, buffers = [], calls = 0, polls = 0\<rparr>"
    unfolding ingest_init_def bindE_Inr by blast
  from index_init_frame [OF i(1)] sequencers_ok [OF i(2)] assms(2) s
  show ?thesis by (simp add: settled_def base_ok_def store_ok_def staged_def)
qed

lemma run_cycles_in_order:
  assumes "ingest_init e c d = Inr s" "log d = []" "node_law e"
  shows "in_order c (current_blocks (index s)) (log (disk (snd (run_cycles e c matcher n s))))"
proof -
  note t = run_cycles_ok [OF assms(3), of c "current_blocks (index s)" c matcher n]
  note s = ingest_init_settled [OF assms(1,2)]
  have "base_ok c (current_blocks (index s)) (snd (run_cycles e c matcher n s))"
    by (cases "run_cycles e c matcher n s"; cases "fst (run_cycles e c matcher n s)")
      (auto dest: triple_Inl [OF t s] triple_Inr [OF t s] settled_base)
  then show ?thesis by (simp add: base_ok_def store_ok_def)
qed

end
