(* ===== verification/Ingest_Progress.thy ===== *)
theory Ingest_Progress
  imports Ingest_Safety
begin

text \<open>
  The ingest makes progress: over a node that answers and keeps its chain, one pass exports and
  indexes every height up to the tip less the confirmations, sequentially or with prefetching
  workers, and leaves the pointer there.
\<close>

section \<open>A steady node\<close>

text \<open>
  Every call succeeds, whenever it is made, and tells of one chain up to \<open>tip\<close>; its blocks have the
  documented shape, so that they parse. Nobody asks the process to stop.
\<close>

definition steady ::
    "env \<Rightarrow> rpc_config \<Rightarrow> pool_matcher option \<Rightarrow> int \<Rightarrow> (int \<Rightarrow> string) \<Rightarrow> (int \<Rightarrow> block) \<Rightarrow> bool" where
  "steady e c pm tip live chain \<longleftrightarrow>
     (\<forall>n. nd_block_count (e_node e) n = Inr tip \<and> \<not> e_stop e n) \<and>
     (\<forall>n h. 0 \<le> h \<and> h \<le> tip \<longrightarrow>
        nd_block_hash (e_node e) n h = Inr (live h) \<and> nd_worker_hash (e_node e) n h = Inr (live h) \<and>
        nd_block (e_node e) n (live h) = Inr (chain h) \<and> nd_worker_block (e_node e) n (live h) = Inr (chain h) \<and>
        (\<exists>t. nd_header_time (e_node e) n (live h) = Inr t)) \<and>
     (\<forall>h. 0 \<le> h \<and> h \<le> tip \<longrightarrow>
        bk_hash (chain h) = Some (live h) \<and> bk_height (chain h) = Some h \<and>
        bk_previousblockhash (chain h) = (if h = 0 then None else Some (live (h - 1))) \<and>
        (\<exists>p. build_parsed_block (e_nums e) (parsing c) pm (chain h) = Inr p))"

lemma steady_block:
  assumes "steady e c pm tip live chain" "0 \<le> h" "h \<le> tip"
  obtains p where "build_parsed_block (e_nums e) (parsing c) pm (chain h) = Inr p"
    "pb_hash p = live h" "pb_height p = h" "h = 0 \<or> pb_prev p = live (h - 1)" "exports_itself p"
    "\<And>n. worker_fetch e c pm n h = Inr p"
proof -
  from assms obtain p where p: "build_parsed_block (e_nums e) (parsing c) pm (chain h) = Inr p"
    by (auto simp: steady_def)
  have b: "bk_hash (chain h) = Some (live h)" "bk_height (chain h) = Some h"
    "bk_previousblockhash (chain h) = (if h = 0 then None else Some (live (h - 1)))"
    and w: "\<And>n. nd_worker_hash (e_node e) n h = Inr (live h)" "\<And>n. nd_worker_block (e_node e) n (live h) = Inr (chain h)"
    using assms by (auto simp: steady_def)
  have q: "pb_hash p = live h" "exports_itself p" using build_parsed_block_Inr [OF p] b by simp_all
  have h: "pb_height p = h" "h = 0 \<or> pb_prev p = live (h - 1)"
    using p b by (auto simp: build_parsed_block_def bindE_Inr key_def or_else_def split: if_splits)
  have "worker_fetch e c pm n h = Inr p" for n
    using w p h by (simp add: worker_fetch_def fetch_and_parse_def)
  with p q h show thesis by (intro that) auto
qed

section \<open>What the index knows\<close>

definition known_blocks :: "index_store \<Rightarrow> string set" where
  "known_blocks ix =
     current_blocks ix \<union> {b. \<exists>r. map_of (pending ix) b = Some r \<and> \<not> ix_version r < CURRENT_INDEX_SCHEMA_VERSION}"

lemma known_add: "insert b (known_blocks ix) \<subseteq> known_blocks (index_add h b p CURRENT_INDEX_SCHEMA_VERSION ix)"
  by (auto simp: known_blocks_def current_blocks_def index_add_def index_known_def make_index_row_def split: option.splits)

lemma known_exported: "\<not> needs_export ix b \<Longrightarrow> b \<in> known_blocks ix"
  by (auto simp: needs_export_def index_known_def known_blocks_def current_blocks_def split: option.splits)

lemma known_staged: "known_blocks ix \<subseteq> current_blocks ix \<union> staged ix"
  by (auto simp: known_blocks_def staged_def dest: map_of_SomeD)

lemma current_known: "current_blocks ix \<subseteq> known_blocks ix"
  by (simp add: known_blocks_def)

lemma index_drain [simp]: "index (snd (drain e a s)) = index s"
proof -
  have "index (drain_one e a k s) = index s" for k s
    by (auto simp: drain_one_def split: option.split prod.split)
  then have "index (fold (drain_one e a) ks s) = index s" for ks by (induction ks arbitrary: s) simp_all
  then show ?thesis by (simp add: drain_def)
qed

lemma index_flush_flags [simp]: "index (snd (flush_flags e s)) = index s"
  by (simp add: flush_flags_def status_flush_def split: prod.split)

lemma index_put_pointer [simp]: "index (snd (put_pointer e p h b s)) = index s"
  by (simp add: put_pointer_def on_disk_def)

lemma drain_Inr: "drain e a s = (Inr (), snd (drain e a s))"
  by (simp add: drain_def)

lemma flush_index_Inr: "flush_index e s = (Inr (), snd (flush_index e s))"
  by (simp add: flush_index_def)

lemma flush_flags_Inr: "flush_flags e s = (Inr (), snd (flush_flags e s))"
  by (simp add: flush_flags_def)

lemma put_pointer_Inr: "put_pointer e p h b s = (Inr (), snd (put_pointer e p h b s))"
  by (simp add: put_pointer_def on_disk_def)

lemma then_Inr: "m s = (Inr (), s') \<Longrightarrow> thenA m k s = k s'"
  by (simp add: thenA_def bindA_def)

lemma then_put_pointer: "thenA (put_pointer e p h b) k s = k (snd (put_pointer e p h b s))"
  by (rule then_Inr [OF put_pointer_Inr])

lemma flush_index_known:
  assumes "drained c K s"
  shows "known_blocks (index s) \<subseteq> current_blocks (index (snd (flush_index e s)))"
proof -
  have ok: "store_ok c K (index s, disk s)" "staged (index s) \<subseteq> exported c (log (disk s))"
    using assms by (simp_all add: drained_def settled_def base_ok_def)
  have "index (snd (flush_index e s)) = fst (index_flush (e_write e) (index s, disk s))"
    by (simp add: flush_index_def split: prod.split)
  with store_ok_flush [OF ok, of "e_write e"] known_staged [of "index s"] show ?thesis by simp
qed

text \<open>The three flushes before the pointer is written.\<close>

definition flushes :: "env \<Rightarrow> bool \<Rightarrow> ingest \<Rightarrow> ingest" where
  "flushes e a s = snd (flush_flags e (snd (flush_index e (snd (drain e a s)))))"

lemma then_flushes:
  "thenA (drain e a) (thenA (flush_index e) (thenA (flush_flags e) k)) s = k (flushes e a s)"
  unfolding flushes_def
  by (subst then_Inr [OF drain_Inr], subst then_Inr [OF flush_index_Inr], subst then_Inr [OF flush_flags_Inr]) (rule refl)

lemma flushes_known:
  assumes "in_pass c K s"
  shows "known_blocks (index s) \<subseteq> current_blocks (index (flushes e a s)) \<and> drained c K (flushes e a s)"
proof -
  let ?d = "snd (drain e a s)" and ?i = "snd (flush_index e (snd (drain e a s)))"
  have 1: "drained c K ?d" using triple_Inr [OF drain_drained assms drain_Inr] .
  have 2: "drained c K ?i" using triple_Inr [OF flush_index_drained 1 flush_index_Inr] .
  have 3: "drained c K (flushes e a s)"
    using triple_Inr [OF flush_flags_drained 2 flush_flags_Inr] by (simp add: flushes_def)
  with flush_index_known [OF 1, of e] show ?thesis by (simp add: flushes_def)
qed

lemma checkpoint_known:
  assumes "in_pass c K s"
  obtains s' where "checkpoint e c' a h b s = (Inr (), s')" "in_pass c K s'" "known_blocks (index s) \<subseteq> known_blocks (index s')"
proof -
  let ?s = "snd (put_pointer e (current_path c') h b (flushes e a s))"
  have r: "checkpoint e c' a h b s = (Inr (), ?s)"
    unfolding checkpoint_def then_flushes by (rule put_pointer_Inr)
  moreover from triple_Inr [OF checkpoint_drained assms r] have "in_pass c K ?s" by (simp add: drained_def)
  moreover have "known_blocks (index s) \<subseteq> known_blocks (index ?s)"
    using flushes_known [OF assms, of e a] current_known by fastforce
  ultimately show thesis by (rule that)
qed

section \<open>One height\<close>

text \<open>What every step of the loop over the heights keeps: the invariant of the pass, and what is known.\<close>

definition advances :: "rpc_config \<Rightarrow> string set \<Rightarrow> ingest \<Rightarrow> ingest \<Rightarrow> bool" where
  "advances c K s s' \<longleftrightarrow> in_pass c K s' \<and> known_blocks (index s) \<subseteq> known_blocks (index s')"

lemma advances_trans: "advances c K s s' \<Longrightarrow> advances c K s' s'' \<Longrightarrow> advances c K s s''"
  by (auto simp: advances_def)

lemma process_height_steady:
  assumes st: "steady e c pm tip live chain" and h: "0 \<le> h" "h \<le> tip" and law: "node_law e" and s: "in_pass c K s"
  obtains s' t' where "process_height e c pm h t s = (Inr (live h, t'), s')" "advances c K s s'"
    "live h \<in> known_blocks (index s')"
proof -
  have n: "\<And>n. nd_block_hash (e_node e) n h = Inr (live h)" "\<And>n. nd_block (e_node e) n (live h) = Inr (chain h)"
    "\<And>n. \<exists>t. nd_header_time (e_node e) n (live h) = Inr t" using st h by (auto simp: steady_def)
  obtain p where p: "build_parsed_block (e_nums e) (parsing c) pm (chain h) = Inr p" "pb_hash p = live h"
    by (rule steady_block [OF st h])
  obtain s' t' where r: "process_height e c pm h t s = (Inr (live h, t'), s')"
    and k: "known_blocks (index s) \<subseteq> known_blocks (index s')" "live h \<in> known_blocks (index s')"
  proof (cases "needs_export (index s) (live h)")
    case True
    let ?ix = "index_add (pb_height p) (pb_hash p) (pb_prev p) CURRENT_INDEX_SCHEMA_VERSION (index s)"
    obtain s' where "process_height e c pm h t s = (Inr (live h, pb_time p), s')" "index s' = ?ix"
      using True n(1,2) p(1)
      by (simp add: process_height_def get_block_hash_def rpc_def bindA_def thenA_def parse_block_def
          buffer_export_def on_flags_def Let_def)
    with known_add [of "live h" "index s" "pb_height p" "pb_prev p"] p(2) show thesis
      by (intro that [of "pb_time p" s']) auto
  next
    case False
    obtain t' where "nd_header_time (e_node e) (Suc (calls s)) (live h) = Inr t'" using n(3) by blast
    then obtain s' where "process_height e c pm h t s = (Inr (live h, t'), s')" "index s' = index s"
      using False n(1)
      by (simp add: process_height_def get_block_hash_def get_header_time_def rpc_def bindA_def thenA_def on_flags_def)
    with known_exported [OF False] show thesis by (intro that [of t' s']) auto
  qed
  moreover have "in_pass c K s'" using keepsD [OF process_height_ok [OF law] s, of c pm h t] r by simp
  ultimately show thesis by (intro that) (auto simp: advances_def)
qed

lemma process_prefetched_steady:
  assumes p: "exports_itself p" and s: "in_pass c K s"
  obtains s' where "process_prefetched p t s = (Inr (pb_hash p, pb_time p), s')" "advances c K s s'"
    "pb_hash p \<in> known_blocks (index s')"
proof -
  obtain s' where r: "process_prefetched p t s = (Inr (pb_hash p, pb_time p), s')"
    and k: "insert (pb_hash p) (known_blocks (index s)) \<subseteq> known_blocks (index s')"
  proof (cases "needs_export (index s) (pb_hash p)")
    case True
    obtain s' where "process_prefetched p t s = (Inr (pb_hash p, pb_time p), s')"
      "index s' = index_add (pb_height p) (pb_hash p) (pb_prev p) CURRENT_INDEX_SCHEMA_VERSION (index s)"
      using True by (simp add: process_prefetched_def bindA_def thenA_def buffer_export_def on_flags_def Let_def)
    with known_add [of "pb_hash p" "index s" "pb_height p" "pb_prev p"] show thesis by (intro that [of s']) auto
  next
    case False
    obtain s' where "process_prefetched p t s = (Inr (pb_hash p, pb_time p), s')" "index s' = index s"
      using False by (simp add: process_prefetched_def bindA_def thenA_def on_flags_def)
    with known_exported [OF False] show thesis by (intro that [of s']) auto
  qed
  moreover have "in_pass c K s'" using keepsD [OF process_prefetched_ok [OF p, of c K t] s] r by simp
  ultimately show thesis by (intro that) (auto simp: advances_def)
qed

section \<open>The loop\<close>

text \<open>
  The variables of the loop after height \<open>h\<close>, in a pass that started above \<open>h0\<close>: the last hash is the
  chain's, and a prefetch generator, while there is one, has handed out the heights up to \<open>h\<close>.
\<close>

definition loop_at ::
    "env \<Rightarrow> rpc_config \<Rightarrow> pool_matcher option \<Rightarrow> (int \<Rightarrow> string) \<Rightarrow> int \<Rightarrow> int \<Rightarrow> int \<Rightarrow> loop \<Rightarrow> bool" where
  "loop_at e c pm live h0 n h lp \<longleftrightarrow>
     lp_last_height lp = h \<and> lp_last_hash lp = (if h < 0 then None else Some (live h)) \<and>
     (\<forall>g. lp_prefetched lp = Some g \<longrightarrow>
        h < n \<and> gen_at (worker_fetch e c pm) (window_of c) [h0 + 1..n] (nat (h - h0)) g)"

lemma gen_at_good: "gen_at (worker_fetch e c pm) w hs k g \<Longrightarrow> gen_good g"
  by (auto simp: gen_at_def gen_ok_def gen_good_def dest: worker_fetch_good sym)

lemma take_prefetched_steady:
  assumes st: "steady e c pm tip live chain" and h: "- 1 \<le> h0" "h0 \<le> h" "h < n" "n \<le> tip"
    and s: "in_pass c K s" and lp: "loop_at e c pm live h0 n h lp" and g: "lp_prefetched lp = Some g"
  obtains g' s' t' where
    "take_prefetched e c pm g lp s = (Inr (Some (lp\<lparr>lp_prefetched := Some g'\<rparr>, live (h + 1), t')), s')"
    "gen_at (worker_fetch e c pm) (window_of c) [h0 + 1..n] (nat (h + 1 - h0)) g'"
    "advances c K s s'" "live (h + 1) \<in> known_blocks (index s')"
proof -
  let ?hs = "[h0 + 1..n]" and ?k = "nat (h - h0)"
  have h1: "0 \<le> h + 1" "h + 1 \<le> tip" using h by simp_all
  obtain p where p: "pb_hash p = live (h + 1)" "h + 1 = 0 \<or> pb_prev p = live (h + 1 - 1)" "exports_itself p"
    "\<And>i. worker_fetch e c pm i (h + 1) = Inr p" using steady_block [OF st h1] by blast
  have k: "?k < length ?hs" "?hs ! ?k = h + 1" "Suc ?k = nat (h + 1 - h0)" using h by simp_all
  have ga: "gen_at (worker_fetch e c pm) (window_of c) ?hs ?k g" using lp g by (simp add: loop_at_def)
  obtain g' where g': "gen_next (worker_fetch e c pm) (window_of c) g = (Some (Inr p), g')"
    "gen_at (worker_fetch e c pm) (window_of c) ?hs (Suc ?k) g'"
    by (rule gen_at_next [OF ga k(1)]) (use p(4) k(2) in auto)
  obtain s' where s': "process_prefetched p (lp_prev_time lp) s = (Inr (pb_hash p, pb_time p), s')"
    "advances c K s s'" "pb_hash p \<in> known_blocks (index s')"
    by (rule process_prefetched_steady [OF p(3) s])
  have "lp_last_hash lp = None \<or> lp_last_hash lp = Some (pb_prev p)" using lp p(2) by (auto simp: loop_at_def)
  then have "take_prefetched e c pm g lp s = (Inr (Some (lp\<lparr>lp_prefetched := Some g'\<rparr>, live (h + 1), pb_time p)), s')"
    using g'(1) s'(1) p(1) by (auto simp: take_prefetched_def bindA_def)
  with g'(2) s' k(3) p(1) show thesis by (intro that) auto
qed

lemma visit_height_steady:
  assumes st: "steady e c pm tip live chain" and law: "node_law e" and h: "- 1 \<le> h0" "h0 \<le> h" "h < tip" "n \<le> tip"
    and s: "in_pass c K s" and lp: "loop_at e c pm live h0 n h lp"
  obtains lp' s' where "visit_height e c pm a n (h + 1) lp s = (Inr (Some lp'), s')"
    "loop_at e c pm live h0 n (h + 1) lp'" "advances c K s s'" "live (h + 1) \<in> known_blocks (index s')"
proof -
  let ?s = "s\<lparr>polls := polls s + 1\<rparr>"
  let ?m = "case lp_prefetched lp of
     Some g \<Rightarrow> if h + 1 \<le> n then take_prefetched e c pm g lp
               else bindA (process_height e c pm (h + 1) (lp_prev_time lp)) (\<lambda>(b, t). ret (Some (lp, b, t)))
   | None \<Rightarrow> bindA (process_height e c pm (h + 1) (lp_prev_time lp)) (\<lambda>(b, t). ret (Some (lp, b, t)))"
  have s1: "in_pass c K ?s" using s by simp
  obtain lp1 s1 t1 where m: "?m ?s = (Inr (Some (lp1, live (h + 1), t1)), s1)"
    and l1: "\<forall>g. lp_prefetched lp1 = Some g \<longrightarrow> h < n \<and>
               gen_at (worker_fetch e c pm) (window_of c) [h0 + 1..n] (nat (h + 1 - h0)) g"
    and a1: "advances c K ?s s1" "live (h + 1) \<in> known_blocks (index s1)"
  proof (cases "lp_prefetched lp")
    case None
    have h1: "0 \<le> h + 1" "h + 1 \<le> tip" using h by simp_all
    obtain s' t' where "process_height e c pm (h + 1) (lp_prev_time lp) ?s = (Inr (live (h + 1), t'), s')"
      "advances c K ?s s'" "live (h + 1) \<in> known_blocks (index s')"
      by (rule process_height_steady [OF st h1 law s1])
    with None show thesis by (intro that [of lp t' s']) (simp_all add: bindA_def)
  next
    case (Some g)
    then have n: "h < n" using lp by (simp add: loop_at_def)
    obtain g' s' t' where
      "take_prefetched e c pm g lp ?s = (Inr (Some (lp\<lparr>lp_prefetched := Some g'\<rparr>, live (h + 1), t')), s')"
      "gen_at (worker_fetch e c pm) (window_of c) [h0 + 1..n] (nat (h + 1 - h0)) g'"
      "advances c K ?s s'" "live (h + 1) \<in> known_blocks (index s')"
      by (rule take_prefetched_steady [OF st h(1,2) n h(4) s1 lp Some])
    with Some n show thesis by (intro that [of "lp\<lparr>lp_prefetched := Some g'\<rparr>" t' s']) simp_all
  qed
  let ?lp = "lp1\<lparr>lp_last_hash := Some (live (h + 1)), lp_prev_time := Some t1, lp_last_height := h + 1,
                lp_processed := lp_processed lp1 + 1,
                lp_prefetched := (if h + 1 = n then None else lp_prefetched lp1)\<rparr>"
  have lp': "loop_at e c pm live h0 n (h + 1) ?lp" using l1 h by (auto simp: loop_at_def)
  have i1: "in_pass c K s1" using a1 by (simp add: advances_def)
  obtain s2 where s2: "thenA (if a \<or> lp_processed ?lp mod batch_size c = 0
      then checkpoint e c a (h + 1) (Some (live (h + 1))) else ret ()) (ret (Some ?lp)) s1 = (Inr (Some ?lp), s2)"
    "advances c K s1 s2"
  proof (cases "a \<or> lp_processed ?lp mod batch_size c = 0")
    case True
    obtain s2 where "checkpoint e c a (h + 1) (Some (live (h + 1))) s1 = (Inr (), s2)" "in_pass c K s2"
      "known_blocks (index s1) \<subseteq> known_blocks (index s2)" by (rule checkpoint_known [OF i1])
    with True show thesis by (intro that [of s2]) (simp_all only: if_True then_Inr ret_apply advances_def simp_thms)
  next
    case False
    with i1 show thesis by (intro that [of s1]) (simp_all add: thenA_def bindA_def advances_def)
  qed
  have "visit_height e c pm a n (h + 1) lp s = (Inr (Some ?lp), s2)"
    unfolding visit_height_def stop_is_set_def
    using st m s2(1) by (simp add: bindA_def steady_def Let_def)
  moreover have "advances c K s s2" using a1(1) s2(2) by (auto simp: advances_def)
  moreover have "live (h + 1) \<in> known_blocks (index s2)" using a1(2) s2(2) by (auto simp: advances_def)
  ultimately show thesis using lp' by (intro that)
qed

lemma visit_heights_steady:
  assumes st: "steady e c pm tip live chain" and law: "node_law e" and h0: "- 1 \<le> h0" and n: "n \<le> tip" "l \<le> tip"
  shows "h0 \<le> h \<Longrightarrow> h \<le> l \<Longrightarrow> in_pass c K s \<Longrightarrow> loop_at e c pm live h0 n h lp \<Longrightarrow>
    \<exists>lp' s'. visit_heights e c pm a n [h + 1..l] lp s = (Inr lp', s') \<and> loop_at e c pm live h0 n l lp' \<and>
      advances c K s s' \<and> live ` {h + 1..l} \<subseteq> known_blocks (index s')"
proof (induction "nat (l - h)" arbitrary: h lp s)
  case 0
  then show ?case by (simp add: advances_def)
next
  case (Suc k)
  then have hl: "h < l" "h < tip" using n by simp_all
  then have up: "[h + 1..l] = (h + 1) # [h + 1 + 1..l]" by (simp add: upto_rec1)
  obtain lp1 s1 where 1: "visit_height e c pm a n (h + 1) lp s = (Inr (Some lp1), s1)"
    "loop_at e c pm live h0 n (h + 1) lp1" "advances c K s s1" "live (h + 1) \<in> known_blocks (index s1)"
    by (rule visit_height_steady [OF st law h0 Suc.prems(1) hl(2) n(1) Suc.prems(3,4)])
  have "in_pass c K s1" "k = nat (l - (h + 1))" "h0 \<le> h + 1" "h + 1 \<le> l"
    using 1(3) Suc.hyps(2) Suc.prems hl by (auto simp: advances_def)
  then obtain lp' s' where 2: "visit_heights e c pm a n [h + 1 + 1..l] lp1 s1 = (Inr lp', s')"
    "loop_at e c pm live h0 n l lp'" "advances c K s1 s'" "live ` {h + 1 + 1..l} \<subseteq> known_blocks (index s')"
    using Suc.hyps(1) [of "h + 1" s1 lp1] 1(2) by blast
  have "{h + 1..l} = insert (h + 1) {h + 1 + 1..l}" using hl by auto
  then have "live ` {h + 1..l} \<subseteq> known_blocks (index s')" using 1(4) 2(3,4) by (auto simp: advances_def)
  moreover have "visit_heights e c pm a n [h + 1..l] lp s = (Inr lp', s')"
    using 1(1) 2(1) by (simp add: up bindA_def)
  ultimately show ?case using 2(2) advances_trans [OF 1(3) 2(3)] by blast
qed

definition pointer_text :: "env \<Rightarrow> int \<Rightarrow> string \<Rightarrow> string" where
  "pointer_text e h b = e_write e True [[(''height'', CInt h), (''blockhash'', CStr b)]]"

lemma put_pointer_text: "map_of (files (disk (snd (put_pointer e p h (Some b) s)))) p = Some (pointer_text e h b)"
  by (simp add: put_pointer_def on_disk_def write_single_row_csv_def pointer_text_def)

lemma catch_up_steady:
  assumes st: "steady e c pm tip live chain" and law: "node_law e" and h0: "- 1 \<le> h0" "h0 < l" "l \<le> tip"
    and s: "settled c K s"
  obtains s' where "catch_up e c pm tip l h0 (if h0 < 0 then None else Some (live h0)) s = (Inr True, s')"
    "live ` {h0<..l} \<subseteq> current_blocks (index s')"
    "map_of (files (disk s')) (current_path c) = Some (pointer_text e l (live l))"
proof -
  let ?cb = "if h0 < 0 then None else Some (live h0)"
  let ?a = "l - h0 \<le> max (reorg_confirmations c) 1" and ?n = "min l (tip - int (max_reorg_depth c))"
  let ?g = "if catchup_workers c > 1 \<and> \<not> ?a \<and> ?n - h0 > PREFETCH_PER_WORKER * catchup_workers c
            then Some (gen_init [h0 + 1..?n]) else None"
  let ?lp = "\<lambda>t. \<lparr>lp_prefetched = ?g, lp_prev_time = t, lp_last_hash = ?cb, lp_last_height = h0, lp_processed = 0\<rparr>"
  obtain t s1 where t: "(case ?cb of None \<Rightarrow> ret None
            | Some b \<Rightarrow> bindA (get_header_time e b) (\<lambda>t. ret (Some t))) s = (Inr t, s1)" "settled c K s1"
  proof (cases "h0 < 0")
    case True
    with s that show thesis by simp
  next
    case False
    then have "0 \<le> h0 \<and> h0 \<le> tip" using h0 by simp
    then obtain t where "nd_header_time (e_node e) (calls s) (live h0) = Inr t"
      using st unfolding steady_def by blast
    with False s that [of "Some t" "s\<lparr>calls := calls s + 1\<rparr>"] show thesis
      by (simp add: get_header_time_def rpc_def bindA_def)
  qed
  let ?s2 = "s1\<lparr>buffers := map (\<lambda>(k, q). (k, [])) (seqs s1)\<rparr>"
  have s2: "empty_buffers s1 = (Inr (), ?s2)" "in_pass c K ?s2"
    using triple_Inr [OF empty_buffers_ok t(2)] by (simp_all add: empty_buffers_def)
  have n: "?n \<le> tip" using h0(3) by simp
  have "loop_at e c pm live h0 ?n h0 (?lp t)"
    using gen_at_init by (auto simp: loop_at_def PREFETCH_PER_WORKER_def)
  then obtain lp s3 where lp: "visit_heights e c pm ?a ?n [h0 + 1..l] (?lp t) ?s2 = (Inr lp, s3)"
    "loop_at e c pm live h0 ?n l lp" "advances c K ?s2 s3" "live ` {h0 + 1..l} \<subseteq> known_blocks (index s3)"
    using visit_heights_steady [OF st law h0(1) n h0(3) order_refl less_imp_le [OF h0(2)] s2(2), of "?lp t" ?a] by blast
  let ?s4 = "flushes e ?a s3"
  let ?s' = "snd (put_pointer e (current_path c) l (Some (live l)) ?s4)"
  have l: "lp_last_height lp = l" "lp_last_hash lp = Some (live l)" using lp(2) h0 by (simp_all add: loop_at_def)
  let ?t = "case ?cb of None \<Rightarrow> ret None | Some b \<Rightarrow> bindA (get_header_time e b) (\<lambda>t. ret (Some t))"
  let ?v = "visit_heights e c pm ?a ?n [h0 + 1..l] (?lp t)"
  have b: "bindA ?t f s = f t s1" "bindA ?v f' ?s2 = f' lp s3" for f f' :: "_ \<Rightarrow> bool step"
    using t(1) lp(1) by (simp_all only: bindA_def prod.case sum.case)
  have eb: "thenA empty_buffers k s1 = k ?s2" for k :: "bool step" by (rule then_Inr) (rule s2(1))
  have "catch_up e c pm tip l h0 ?cb s = (Inr True, ?s')"
    unfolding catch_up_def b(1) Let_def eb b(2) then_flushes
    by (simp add: l then_put_pointer)
  moreover have "live ` {h0<..l} \<subseteq> current_blocks (index ?s')"
  proof -
    have "in_pass c K s3" using lp(3) by (simp add: advances_def)
    then have "known_blocks (index s3) \<subseteq> current_blocks (index ?s')" using flushes_known by simp
    moreover have "{h0<..l} = {h0 + 1..l}" by auto
    ultimately show ?thesis using lp(4) by simp
  qed
  moreover note put_pointer_text [of e "current_path c" l "live l" ?s4]
  ultimately show thesis by (rule that)
qed

section \<open>A pass\<close>

text \<open>
  The state in which a process finds its data: a pointer to a block of the chain, or nothing at
  all, which counts as height -1.
\<close>

definition resumes_at :: "env \<Rightarrow> rpc_config \<Rightarrow> disk \<Rightarrow> (int \<Rightarrow> string) \<Rightarrow> int \<Rightarrow> bool" where
  "resumes_at e c d live h0 \<longleftrightarrow>
     (if h0 < 0
      then h0 = - 1 \<and> read_pointer (e_read e) (e_float_text e) d (current_path c) = Inr None \<and>
           existing_part_numbers d (csv_base (state_dir c) ''blocks'') = [] \<and>
           existing_part_numbers d (csv_base (output_dir c) ''blocks'') = []
      else read_pointer (e_read e) (e_float_text e) d (current_path c) = Inr (Some (h0, live h0)))"

lemma latest_is_no_part: "match_part (csv_base dir ''blocks'') (latest_path c) = None"
  and latest_is_no_base: "base_path (csv_base dir ''blocks'') \<noteq> latest_path c"
  by (simp_all add: match_part_def latest_path_def csv_base_def base_path_def)

lemma resumes_after_latest:
  assumes "resumes_at e c d live h0"
  shows "resumes_at e c (write_single_row_csv W (latest_path c) r d) live h0"
proof -
  let ?d = "write_single_row_csv W (latest_path c) r d"
  have m: "map_of (files ?d) = (map_of (files d))(latest_path c \<mapsto> W True [r])"
    by (simp add: write_single_row_csv_def)
  have p: "latest_path c \<noteq> current_path c" by (simp add: latest_path_def current_path_def)
  have "read_pointer R ft ?d (current_path c) = read_pointer R ft d (current_path c)" for R ft
    using p by (simp add: read_pointer_def read_single_row_csv_def path_exists_def st_size_def contents_def m)
  moreover have "existing_part_numbers ?d (csv_base dir ''blocks'') = existing_part_numbers d (csv_base dir ''blocks'')" for dir
    by (simp add: existing_keys write_single_row_csv_def keys_update latest_is_no_part latest_is_no_base map_filter_def)
  ultimately show ?thesis using assms by (simp add: resumes_at_def)
qed

lemma starting_point_steady:
  assumes st: "steady e c pm tip live chain" and h0: "h0 \<le> tip" and r: "resumes_at e c (disk s) live h0"
    and q: "seqs_ok c (seqs s)"
  obtains s' where "starting_point e c s = (Inr (h0, if h0 < 0 then None else Some (live h0)), s')"
    "index s' = index s" "disk s' = disk s" "seqs s' = seqs s"
proof (cases "h0 < 0")
  case True
  obtain b where b: "map_of (seqs s) ''blocks'' = Some b" "state_base b = csv_base (state_dir c) ''blocks''"
    "export_base b = csv_base (output_dir c) ''blocks''"
    by (rule seqs_okD [OF q, of "''blocks''"]) (auto simp: sequencer_names_def)
  have "seed_step e s = (Inr None, s)"
    using True r by (simp add: seed_step_def b seed_index_from_blocks_csv_def seed_parts_def resumes_at_def bindA_def)
  with True r have "starting_point e c s = (Inr (- 1, None), s)"
    by (simp add: starting_point_def resumes_at_def bindA_def)
  with True r show thesis by (intro that [of s]) (simp_all add: resumes_at_def)
next
  case False
  then have "nd_block_hash (e_node e) n h0 = Inr (live h0)" for n using st h0 by (simp add: steady_def)
  with False r have "starting_point e c s = (Inr (h0, Some (live h0)), s\<lparr>calls := calls s + 1\<rparr>)"
    by (simp add: starting_point_def resumes_at_def bindA_def get_block_hash_def rpc_def)
  with False show thesis by (intro that [of "s\<lparr>calls := calls s + 1\<rparr>"]) simp_all
qed

lemma run_one_pass_steady:
  assumes st: "steady e c pm tip live chain" and law: "node_law e" and s: "settled c K s"
    and r: "resumes_at e c (disk s) live h0" and conf: "0 \<le> reorg_confirmations c"
    and h0: "- 1 \<le> h0" "h0 < tip - reorg_confirmations c" and new: "stale_rows (index s) = []"
  obtains s' where "run_one_pass e c pm s = (Inr True, s')"
    "live ` {h0<..tip - reorg_confirmations c} \<subseteq> current_blocks (index s')"
    "map_of (files (disk s')) (current_path c)
       = Some (pointer_text e (tip - reorg_confirmations c) (live (tip - reorg_confirmations c)))"
proof -
  let ?l = "tip - reorg_confirmations c" and ?cb = "if h0 < 0 then None else Some (live h0)"
  have l: "\<not> ?l < 0" "?l \<le> tip" "h0 \<le> tip" using h0 conf by simp_all
  let ?s1 = "s\<lparr>calls := calls s + 1\<rparr>"
  let ?s2 = "?s1\<lparr>calls := calls ?s1 + 1\<rparr>"
  let ?s3 = "snd (put_pointer e (latest_path c) ?l (Some (live ?l)) ?s2)"
  have n: "nd_block_count (e_node e) (calls s) = Inr tip" "nd_block_hash (e_node e) (calls ?s1) ?l = Inr (live ?l)"
    using st l by (simp_all add: steady_def)
  have 1: "get_block_count e s = (Inr tip, ?s1)" "get_block_hash e ?l ?s1 = (Inr (live ?l), ?s2)"
    using n by (simp_all add: get_block_count_def get_block_hash_def rpc_def)
  have s3: "settled c K ?s3" using keepsD [OF silent_settled [OF silent_put_pointer], of c K ?s2] s by simp
  have r3: "resumes_at e c (disk ?s3) live h0"
    using resumes_after_latest [OF r] by (simp add: put_pointer_def on_disk_def)
  obtain s4 where s4: "starting_point e c ?s3 = (Inr (h0, ?cb), s4)" "index s4 = index ?s3" "disk s4 = disk ?s3" "seqs s4 = seqs ?s3"
    using starting_point_steady [OF st l(3) r3] s3 by (auto simp: settled_def base_ok_def)
  let ?s5 = "s4\<lparr>index := snd (earliest_stale (index s4))\<rparr>"
  have i4: "index s4 = index s" using s4(2) by simp
  then have "fst (earliest_stale (index s4)) = None" using new by (simp add: earliest_stale_def)
  then have s5: "rewind_stale (h0, ?cb) s4 = (Inr (h0, ?cb), ?s5)"
    by (cases "earliest_stale (index s4)") (simp add: rewind_stale_def Let_def)
  have s4': "settled c K s4" using s3 s4(2-4) by (simp add: settled_def base_ok_def)
  have s5': "settled c K ?s5" using keepsD [OF rewind_ok s4', of "(h0, ?cb)"] s5 by simp
  obtain s' where s': "catch_up e c pm tip ?l h0 ?cb ?s5 = (Inr True, s')"
    "live ` {h0<..?l} \<subseteq> current_blocks (index s')"
    "map_of (files (disk s')) (current_path c) = Some (pointer_text e ?l (live ?l))"
    by (rule catch_up_steady [OF st law h0 l(2) s5'])
  have "run_one_pass e c pm s = (Inr True, s')"
    using l h0(2) s'(1) unfolding run_one_pass_def
    by (simp add: bindA_def 1 [simplified] s4(1) [simplified] s5 then_put_pointer Let_def)
  with s' show thesis by (intro that)
qed

section \<open>A node with one block\<close>

text \<open>For the witnesses: an empty disk and a node whose chain is one block.\<close>

definition genesis :: block where
  "genesis = sample_block\<lparr>bk_hash := Some ''0a'', bk_height := Some 0, bk_previousblockhash := None\<rparr>"

definition sample_node :: node where
  "sample_node = \<lparr>nd_block_count = (\<lambda>n. Inr 0),
     nd_block_hash = (\<lambda>n h. if h = 0 then Inr ''0a'' else Inl (RpcError ''height'')),
     nd_header_time = (\<lambda>n b. Inr 5),
     nd_block = (\<lambda>n b. if b = ''0a'' then Inr genesis else Inl (RpcError ''block'')),
     nd_worker_hash = (\<lambda>n h. if h = 0 then Inr ''0a'' else Inl (RpcError ''height'')),
     nd_worker_block = (\<lambda>n b. if b = ''0a'' then Inr genesis else Inl (RpcError ''block''))\<rparr>"

definition sample_env :: env where
  "sample_env = \<lparr>e_write = (\<lambda>h rs. ''x''), e_read = (\<lambda>t. None), e_read_index = (\<lambda>t. None),
     e_read_blocks = (\<lambda>t. None), e_float_text = (\<lambda>q. ''''), e_nums = sample_nums, e_node = sample_node,
     e_stop = (\<lambda>n. False), e_now = (\<lambda>n. '''')\<rparr>"

definition sample_rpc_config :: rpc_config where
  "sample_rpc_config = \<lparr>parsing = mainnet_config, batch_size = 10, reorg_confirmations = 0,
     max_reorg_depth = 100, catchup_workers = 1, output_dir = ''out'', state_dir = ''state''\<rparr>"

definition sample_seq_of :: "string \<Rightarrow> part_seq" where
  "sample_seq_of n = \<lparr>state_base = csv_base ''state'' n, export_base = csv_base ''out'' n,
     seq_path = (''state'', n @ ''_part_seq.csv''), max_part_bytes = MAX_PART_BYTES,
     current_part = 0, part_is_open = False\<rparr>"

definition sample_start :: ingest where
  "sample_start = \<lparr>disk = \<lparr>files = [], log = []\<rparr>,
     index = \<lparr>ix_path = csv_base ''state'' ''index'', by_hash = [], pending = [], ix_part = 1, all_current = False\<rparr>,
     flags = \<lparr>bs_path = (''state'', ''block_status.csv''), entries = [], dirty = False\<rparr>,
     seqs = map (\<lambda>n. (n, sample_seq_of n)) sequencer_names, buffers = [], calls = 0, polls = 0\<rparr>"

lemma no_parts: "existing_part_numbers \<lparr>files = [], log = l\<rparr> b = []"
  by (simp add: existing_part_numbers_def path_exists_def map_filter_def)

lemma sample_init: "ingest_init sample_env sample_rpc_config \<lparr>files = [], log = []\<rparr> = Inr sample_start"
  by (simp add: ingest_init_def sample_env_def sample_rpc_config_def sample_start_def index_init_def
      index_load_def csv_parts_exist_def all_parts_def no_parts max_default_def status_load_def
      path_exists_def sequencer_def seq_init_def read_state_def read_single_row_csv_def initial_state_def
      sequencer_names_def sample_seq_of_def)

lemma sample_node_law: "node_law sample_env"
  by (simp add: node_law_def sample_env_def sample_node_def genesis_def)

lemma genesis_parsed: "\<exists>p. build_parsed_block sample_nums mainnet_config None genesis = Inr p"
proof -
  obtain a where "aggregate_block sample_nums mainnet_config None genesis = Inr a"
    using aggregate_block_total [of genesis "''0a''" 0 1700000000 mainnet_config sample_nums None]
    by (auto simp: genesis_def sample_block_def chainwork_ok_def mainnet_config_def)
  moreover from this have "row_get (ba_block a) ''time'' = Inr (CInt 1700000000)"
    by (auto simp: aggregate_block_def bindE_Inr Let_def block_event_def genesis_def sample_block_def row_get_def)
  ultimately show ?thesis by (simp add: build_parsed_block_def genesis_def sample_block_def key_def)
qed

lemma sample_steady: "steady sample_env sample_rpc_config None 0 (\<lambda>h. ''0a'') (\<lambda>h. genesis)"
proof -
  have "h = 0" if "0 \<le> h \<and> h \<le> 0" for h :: int using that by simp
  then show ?thesis using genesis_parsed
    by (auto simp: steady_def sample_env_def sample_node_def sample_rpc_config_def genesis_def)
qed

lemma sample_resumes: "resumes_at sample_env sample_rpc_config \<lparr>files = [], log = l\<rparr> (\<lambda>h. ''0a'') (- 1)"
  by (simp add: resumes_at_def no_parts read_pointer_def read_single_row_csv_def path_exists_def)

lemma sample_no_stale: "stale_rows (index sample_start) = []"
  by (simp add: stale_rows_def sample_start_def)

lemma sample_facts [simp]:
  "reorg_confirmations sample_rpc_config = 0" "disk sample_start = \<lparr>files = [], log = []\<rparr>"
  "current_path sample_rpc_config = (''state'', ''current.csv'')" "{-1<..0::int} = {0}"
  by (auto simp: sample_rpc_config_def sample_start_def current_path_def)

text \<open>One iteration of the process indexes the block.\<close>

definition sample_log :: "effect list" where
  "sample_log = log (disk (snd (run_cycles sample_env sample_rpc_config (\<lambda>n. None) 1 sample_start)))"

lemma sample_marked: "\<exists>k < length sample_log. marks sample_rpc_config (sample_log ! k) ''0a''"
proof -
  let ?s = "sample_start\<lparr>polls := 1\<rparr>"
  let ?K = "current_blocks (index sample_start)"
  have K: "?K = {}" by (simp add: current_blocks_def sample_start_def)
  have s: "settled sample_rpc_config ?K ?s" using ingest_init_settled [OF sample_init] by simp
  obtain s' where s': "run_one_pass sample_env sample_rpc_config None ?s = (Inr True, s')"
    "''0a'' \<in> current_blocks (index s')"
    using run_one_pass_steady [OF sample_steady sample_node_law s, of "- 1"] sample_resumes sample_no_stale
    by auto
  have "snd (run_cycles sample_env sample_rpc_config (\<lambda>n. None) 1 sample_start) = s'\<lparr>polls := polls s' + 1\<rparr>"
    using s'(1) by (simp add: bindA_def stop_is_set_def ingest_cycle_def catchA_def sample_env_def sample_start_def)
  moreover have "settled sample_rpc_config ?K s'"
    using triple_Inr [OF run_one_pass_ok [OF sample_node_law] s s'(1)] .
  ultimately have "''0a'' \<in> marked sample_rpc_config sample_log"
    using s'(2) K by (auto simp: sample_log_def settled_def base_ok_def store_ok_def)
  then show ?thesis by (auto simp: marked_def in_set_conv_nth)
qed

lemma sample_exported: "\<exists>k < length sample_log. exports_hash sample_rpc_config (sample_log ! k) ''0a''"
proof -
  obtain k where "k < length sample_log" "''0a'' \<in> exported sample_rpc_config (take k sample_log)"
    using sample_marked run_cycles_in_order [OF sample_init _ sample_node_law, of "\<lambda>n. None" 1]
    unfolding sample_log_def [symmetric] in_order_def by fastforce
  then obtain x where "x \<in> set sample_log" "exports_hash sample_rpc_config x ''0a''"
    by (auto simp: exported_def dest: in_set_takeD)
  then show ?thesis by (auto simp: in_set_conv_nth)
qed

section \<open>Properties\<close>

text \<open>
  C3. Progress: when the node answers and keeps its chain, the first pass of a process that finds a
  pointer into that chain, or no data at all, returns that it is caught up; every height above the
  pointer up to the tip less the confirmations is then in the index at the current version, and the
  pointer file holds that height with its hash. The number of catch-up workers does not matter.
\<close>

theorem pass_catches_up:
  assumes "ingest_init e c d = Inr s" "log d = []" "node_law e" "steady e c pm tip live chain"
    and "resumes_at e c d live h0" "0 \<le> reorg_confirmations c" "stale_rows (index s) = []"
    and "- 1 \<le> h0" "h0 < tip - reorg_confirmations c"
  shows "\<exists>s'. run_one_pass e c pm s = (Inr True, s') \<and>
      live ` {h0<..tip - reorg_confirmations c} \<subseteq> current_blocks (index s') \<and>
      map_of (files (disk s')) (current_path c)
        = Some (pointer_text e (tip - reorg_confirmations c) (live (tip - reorg_confirmations c)))"
proof -
  have "resumes_at e c (disk s) live h0" using assms(5) ingest_init_disk [OF assms(1)] by simp
  with run_one_pass_steady [OF assms(4,3) ingest_init_settled [OF assms(1,2)] _ assms(6,8,9,7)] show ?thesis by blast
qed


theorem pass_catches_up_witness:
  "\<exists>s'. run_one_pass sample_env sample_rpc_config None sample_start = (Inr True, s') \<and>
      ''0a'' \<in> current_blocks (index s') \<and> path_exists (disk s') (''state'', ''current.csv'')"
  using pass_catches_up [OF sample_init _ sample_node_law sample_steady sample_resumes _ sample_no_stale]
  by (auto simp: path_exists_def)

text \<open>
  C1. Write-ahead: in everything the process ever does to the disk, in this order, however the node
  behaves, wherever it stops or fails and hence wherever a crash cuts the log, a block is marked in
  the index as exported at the current version only after its row was written to the blocks CSV.
\<close>

theorem indexed_after_export:
  assumes "ingest_init e c d = Inr s" "log d = []" "node_law e"
    and l: "l = log (disk (snd (run_cycles e c matcher n s)))" and k: "k < length l" "marks c (l ! k) b"
  shows "\<exists>j < k. exports_hash c (l ! j) b"
proof -
  have "b \<in> exported c (take k l)"
    using run_cycles_in_order [OF assms(1-3), of matcher n] k unfolding l [symmetric] in_order_def by blast
  then obtain x where "x \<in> set (take k l)" "exports_hash c x b" by (auto simp: exported_def)
  then obtain j where "j < k" "exports_hash c (l ! j) b" by (auto simp: in_set_conv_nth)
  then show ?thesis by blast
qed



theorem indexed_after_export_witness:
  "\<exists>k j. j < k \<and> marks sample_rpc_config (sample_log ! k) ''0a'' \<and> exports_hash sample_rpc_config (sample_log ! j) ''0a''"
proof -
  obtain k where k: "k < length sample_log" "marks sample_rpc_config (sample_log ! k) ''0a''" using sample_marked by blast
  from indexed_after_export [OF sample_init _ sample_node_law sample_log_def k] k show ?thesis by auto
qed


end
