(* ===== verification/Ingest_Reorg.thy ===== *)
theory Ingest_Reorg
  imports Ingest_Progress
begin

text \<open>
  Reorg recovery: the walk back finds the highest height at which the stored chain and the live
  chain agree, marks exactly the blocks above it, and changes nothing when it gives up.
\<close>

section \<open>The stored chain\<close>

text \<open>The block \<open>k\<close> steps below \<open>b\<close>, as the index tells it.\<close>

fun below :: "index_store \<Rightarrow> string \<Rightarrow> nat \<Rightarrow> string" where
  "below ix b 0 = b"
| "below ix b (Suc k) = (case index_get ix (below ix b k) of None \<Rightarrow> '''' | Some r \<Rightarrow> ix_prev r)"

lemma below_shift: "index_get ix b = Some r \<Longrightarrow> below ix (ix_prev r) k = below ix b (Suc k)"
  by (induction k) simp_all

text \<open>
  The live chain \<open>live\<close> leaves the stored chain \<open>k\<close> blocks below height \<open>h\<close>, hash \<open>b\<close>: they agree there
  and nowhere above, and the index has every block on the way.
\<close>

definition forks_at :: "index_store \<Rightarrow> (int \<Rightarrow> string) \<Rightarrow> int \<Rightarrow> string \<Rightarrow> nat \<Rightarrow> bool" where
  "forks_at ix live h b k \<longleftrightarrow>
     0 < k \<and> int k \<le> h \<and> live (h - int k) = below ix b k \<and>
     (\<forall>j. 0 < j \<and> j < k \<longrightarrow> live (h - int j) \<noteq> below ix b j) \<and>
     (\<forall>j < k. index_get ix (below ix b j) \<noteq> None \<and> below ix b (Suc j) \<noteq> '''')"

definition tells :: "env \<Rightarrow> (int \<Rightarrow> string) \<Rightarrow> int \<Rightarrow> bool" where
  "tells e live h \<longleftrightarrow> (\<forall>n i. 0 \<le> i \<and> i \<le> h \<longrightarrow> nd_block_hash (e_node e) n i = Inr (live i))"

definition stored :: "index_store \<Rightarrow> int \<Rightarrow> string \<Rightarrow> nat \<Rightarrow> (int \<times> string) list" where
  "stored ix h b k = map (\<lambda>j. (h - int j, below ix b j)) [0..<k]"

lemma stored_Suc: "index_get ix b = Some r \<Longrightarrow> stored ix h b (Suc k) = (h, b) # stored ix (h - 1) (ix_prev r) k"
proof -
  assume r: "index_get ix b = Some r"
  have "stored ix h b (Suc k) = (h, b) # map (\<lambda>j. (h - int (Suc j), below ix b (Suc j))) [0..<k]"
    by (simp add: stored_def upt_conv_Cons map_Suc_upt [symmetric] o_def del: upt_Suc below.simps(2))
  then show ?thesis using below_shift [OF r] by (simp add: stored_def algebra_simps)
qed

lemma forks_Suc:
  assumes f: "forks_at ix live h b (Suc k)" and r: "index_get ix b = Some r"
  shows "ix_prev r \<noteq> ''''" "0 < h" "live (h - 1) = ix_prev r \<longleftrightarrow> k = 0" "0 < k \<Longrightarrow> forks_at ix live (h - 1) (ix_prev r) k"
proof -
  have b1: "below ix b 1 = ix_prev r" using r by simp
  show "ix_prev r \<noteq> ''''" "0 < h" using f b1 by (auto simp: forks_at_def)
  show "live (h - 1) = ix_prev r \<longleftrightarrow> k = 0"
    using f b1 by (cases k) (auto simp: forks_at_def dest: spec [of _ "1 :: nat"])
  assume k: "0 < k"
  have e: "h - 1 - int j = h - int (Suc j)" "below ix (ix_prev r) j = below ix b (Suc j)" for j
    using below_shift [OF r] by simp_all
  show "forks_at ix live (h - 1) (ix_prev r) k"
    unfolding forks_at_def e using f k by (auto simp: forks_at_def simp del: below.simps)
qed

text \<open>The hashes fetched on the way are the live ones.\<close>

definition fetched :: "(int \<Rightarrow> string) \<Rightarrow> (int, string) pydict \<Rightarrow> bool" where
  "fetched live l \<longleftrightarrow> (\<forall>i b. map_of l i = Some b \<longrightarrow> b = live i)"

lemma walk_back_forks:
  assumes t: "tells e live h0"
  shows "forks_at (index s) live h b k \<Longrightarrow> k \<le> room \<Longrightarrow> h \<le> h0 \<Longrightarrow> fetched live l \<Longrightarrow>
    \<exists>l'. walk_back e room ds l h b s =
      (Inr (h - int k, live (h - int k), ds @ stored (index s) h b k, l'), s\<lparr>calls := calls s + k\<rparr>) \<and> fetched live l'"
proof (induction k arbitrary: room ds l h b s)
  case 0
  then show ?case by (simp add: forks_at_def)
next
  case (Suc k)
  from Suc.prems(2) obtain room' where room: "room = Suc room'" "k \<le> room'" by (cases room) auto
  have "index_get (index s) b \<noteq> None" using Suc.prems(1) by (auto simp: forks_at_def dest: spec [of _ 0])
  then obtain r where r: "index_get (index s) b = Some r" by blast
  note f = forks_Suc [OF Suc.prems(1) r]
  let ?s = "s\<lparr>calls := calls s + 1\<rparr>" and ?l = "AList.update (h - 1) (live (h - 1)) l"
  have g: "get_block_hash e (h - 1) s = (Inr (live (h - 1)), ?s)"
    using t f(2) Suc.prems(3) by (simp add: get_block_hash_def rpc_def tells_def)
  have fl: "fetched live ?l" using Suc.prems(4) by (auto simp: fetched_def)
  have step: "walk_back e room ds l h b s =
      (if k = 0 then (Inr (h - 1, live (h - 1), ds @ [(h, b)], ?l), ?s)
       else walk_back e room' (ds @ [(h, b)]) ?l (h - 1) (ix_prev r) ?s)"
    using f(1-3) g by (simp add: room bindA_def r Let_def)
  show ?case
  proof (cases "k = 0")
    case True
    with step fl r show ?thesis by (auto simp: stored_Suc) (simp add: stored_def)
  next
    case False
    then have fk: "forks_at (index ?s) live (h - 1) (ix_prev r) k" using f(4) by simp
    from Suc.IH [OF fk room(2) _ fl, of "ds @ [(h, b)]"] Suc.prems(3) step False stored_Suc [OF r]
    show ?thesis by (auto simp: algebra_simps)
  qed
qed

section \<open>The whole recovery\<close>

definition attached_row :: "(int \<Rightarrow> string) \<Rightarrow> int \<Rightarrow> row" where
  "attached_row live i = [(''action'', CStr ''attached''), (''height'', CInt i), (''blockhash'', CStr (live i))]"

lemma attached_rows_told:
  assumes t: "tells e live h" and l: "fetched live l"
  shows "set hs \<subseteq> {0..h} \<Longrightarrow>
    \<exists>n. attached_rows e l hs s = (Inr (map (attached_row live) hs), s\<lparr>calls := n\<rparr>)"
proof (induction hs arbitrary: s)
  case Nil
  show ?case by (rule exI [of _ "calls s"]) simp
next
  case (Cons i hs)
  have g: "get_block_hash e i s = (Inr (live i), s\<lparr>calls := calls s + 1\<rparr>)"
    using t Cons.prems by (simp add: get_block_hash_def rpc_def tells_def)
  obtain n where 1: "(case map_of l i of Some x \<Rightarrow> if x = '''' then get_block_hash e i else ret x
            | None \<Rightarrow> get_block_hash e i) s = (Inr (live i), s\<lparr>calls := n\<rparr>)"
  proof (cases "map_of l i")
    case None
    with g that show thesis by simp
  next
    case (Some x)
    with l have "x = live i" by (simp add: fetched_def)
    with Some g that [of "calls s"] that [of "calls s + 1"] show thesis by (cases "x = ''''") simp_all
  qed
  obtain m where 2: "attached_rows e l hs (s\<lparr>calls := n\<rparr>) = (Inr (map (attached_row live) hs), s\<lparr>calls := m\<rparr>)"
    using Cons.IH [of "s\<lparr>calls := n\<rparr>"] Cons.prems by auto
  show ?case using 1 2 by (auto simp: bindA_def attached_row_def)
qed

definition unmark :: "(int \<times> string) list \<Rightarrow> status_store \<Rightarrow> status_store" where
  "unmark ds f = fold (\<lambda>(h, b). set_canonical h b False) ds f"

lemma forA_on_flags: "forA ds (\<lambda>(h, b). on_flags (g h b)) s = (Inr (), s\<lparr>flags := fold (\<lambda>(h, b). g h b) ds (flags s)\<rparr>)"
proof (induction ds arbitrary: s)
  case (Cons d ds)
  obtain h b where "d = (h, b)" by force
  with Cons show ?case by (simp add: thenA_def bindA_def on_flags_def)
qed simp

lemma unmark_entries:
  "map_of (entries (unmark ds f)) x = (if x \<in> set ds then Some False else map_of (entries f) x)"
proof (induction ds arbitrary: f)
  case (Cons d ds)
  obtain h b where "d = (h, b)" by force
  with Cons show ?case by (auto simp: unmark_def set_canonical_def)
qed (simp add: unmark_def)

text \<open>The audit log: the detached blocks and then the attached ones, both upwards.\<close>

definition reorg_rows :: "index_store \<Rightarrow> (int \<Rightarrow> string) \<Rightarrow> int \<Rightarrow> string \<Rightarrow> nat \<Rightarrow> row list" where
  "reorg_rows ix live h b k =
     detached_rows (rev (stored ix h b k)) @ map (attached_row live) [h - int k + 1..h]"

lemma flush_flags_frame:
  "flush_flags e s = (Inr (), s\<lparr>flags := (flags s)\<lparr>dirty := False\<rparr>, disk := snd (status_flush (e_write e) (flags s, disk s))\<rparr>)"
  by (simp add: flush_flags_def status_flush_def)

text \<open>
  C4. Reorg recovery is exact. When the live chain leaves the stored one within the depth limit,
  recovery resumes from the highest height at which both agree; exactly the stored blocks above it
  are marked non-canonical, no other flag changes, nothing stays unflushed, the index and the
  buffers are untouched, and the last effect on disk is the audit log of what was detached and what
  is attached instead.
\<close>

theorem recovery_exact:
  assumes "forks_at (index s) live h b k" "k \<le> max_reorg_depth c" "tells e live h"
  shows "\<exists>s' p. recover_from_reorg e c h b s = (Inr (h - int k, live (h - int k)), s') \<and>
     map_of (entries (flags s')) = (\<lambda>x. if x \<in> set (stored (index s) h b k) then Some False else map_of (entries (flags s)) x) \<and>
     dirty (flags s') = False \<and> index s' = index s \<and> seqs s' = seqs s \<and> buffers s' = buffers s \<and>
     last (log (disk s')) = EReplace p (reorg_rows (index s) live h b k)"
proof -
  obtain l where w: "walk_back e (max_reorg_depth c) [] [] h b s =
      (Inr (h - int k, live (h - int k), stored (index s) h b k, l), s\<lparr>calls := calls s + k\<rparr>)" "fetched live l"
    using walk_back_forks [OF assms(3,1,2) order_refl, of "[]" "[]"] by (auto simp: fetched_def)
  let ?ds = "rev (stored (index s) h b k)"
  let ?s1 = "s\<lparr>calls := calls s + k\<rparr>"
  let ?s2 = "?s1\<lparr>flags := unmark ?ds (flags s)\<rparr>"
  have 2: "forA ?ds (\<lambda>(h, b). on_flags (set_canonical h b False)) ?s1 = (Inr (), ?s2)"
    by (simp add: forA_on_flags unmark_def)
  have "0 \<le> h - int k" using assms(1) by (simp add: forks_at_def)
  then obtain n where 3: "attached_rows e l [h - int k + 1..h] ?s2 =
      (Inr (map (attached_row live) [h - int k + 1..h]), ?s2\<lparr>calls := n\<rparr>)"
    using attached_rows_told [OF assms(3) w(2), of "[h - int k + 1..h]" ?s2] by auto
  let ?s3 = "?s2\<lparr>calls := n\<rparr>"
  let ?s4 = "?s3\<lparr>flags := (flags ?s3)\<lparr>dirty := False\<rparr>, disk := snd (status_flush (e_write e) (flags ?s3, disk ?s3))\<rparr>"
  let ?s5 = "?s4\<lparr>disk := snd (write_reorg_log (e_write e) (reorg_dir c) (e_now e (calls ?s4))
                (h - int k + 1) h (reorg_rows (index s) live h b k) (disk ?s4))\<rparr>"
  have "recover_from_reorg e c h b s = (Inr (h - int k, live (h - int k)), ?s5)"
    unfolding recover_from_reorg_def
    by (simp add: bindA_def w(1) thenA_def 2 [simplified] 3 [simplified] flush_flags_frame reorg_rows_def)
  moreover have "map_of (entries (flags ?s5)) =
      (\<lambda>x. if x \<in> set (stored (index s) h b k) then Some False else map_of (entries (flags s)) x)"
    by (rule ext) (simp add: unmark_entries)
  ultimately show ?thesis by (auto simp: write_reorg_log_def Let_def)
qed

lemma walk_back_frame:
  "\<exists>n. snd (walk_back e room ds l h b s) = s\<lparr>calls := n\<rparr> \<and> calls s \<le> n \<and> n \<le> calls s + room"
proof (induction e room ds l h b arbitrary: s rule: walk_back.induct)
  case (1 e ds l h b)
  show ?case by (rule exI [of _ "calls s"]) simp
next
  case (2 e room ds l h b)
  show ?case
  proof (cases "\<exists>r. index_get (index s) b = Some r \<and> 0 < h \<and> ix_prev r \<noteq> '''' \<and> isl (nd_block_hash (e_node e) (calls s) (h - 1)) = False")
    case False
    then have "snd (walk_back e (Suc room) ds l h b s) = s \<or>
               snd (walk_back e (Suc room) ds l h b s) = s\<lparr>calls := calls s + 1\<rparr>"
      by (auto simp: bindA_def get_block_hash_def rpc_def split: option.split sum.split)
    then show ?thesis
    proof
      assume "snd (walk_back e (Suc room) ds l h b s) = s"
      then show ?thesis by (intro exI [of _ "calls s"]) simp
    next
      assume "snd (walk_back e (Suc room) ds l h b s) = s\<lparr>calls := calls s + 1\<rparr>"
      then show ?thesis by (intro exI [of _ "calls s + 1"]) simp
    qed
  next
    case True
    then obtain r x where r: "index_get (index s) b = Some r" "0 < h" "ix_prev r \<noteq> ''''"
      "nd_block_hash (e_node e) (calls s) (h - 1) = Inr x" by (auto simp: isl_def) (metis obj_sumE)
    let ?s = "s\<lparr>calls := calls s + 1\<rparr>" and ?l = "AList.update (h - 1) x l"
    have w: "walk_back e (Suc room) ds l h b s =
        (if x = ix_prev r then (Inr (h - 1, x, ds @ [(h, b)], ?l), ?s)
         else walk_back e room (ds @ [(h, b)]) ?l (h - 1) (ix_prev r) ?s)"
      using r by (simp add: bindA_def get_block_hash_def rpc_def Let_def)
    show ?thesis
    proof (cases "x = ix_prev r")
      case True
      with w show ?thesis by (auto intro!: exI [of _ "calls s + 1"])
    next
      case False
      have "\<exists>n. snd (walk_back e room (ds @ [(h, b)]) ?l (h - 1) (ix_prev r) ?s) = ?s\<lparr>calls := n\<rparr> \<and>
          calls ?s \<le> n \<and> n \<le> calls ?s + room"
        using 2 [of r ?l x "ds @ [(h, b)]" ?s] r False by simp
      with False w show ?thesis by auto
    qed
  qed
qed

lemma attached_rows_error:
  "fst (attached_rows e l hs s) = Inl x \<Longrightarrow> \<exists>n i. nd_block_hash (e_node e) n i = Inl x"
proof (induction hs arbitrary: s)
  case (Cons i hs)
  then show ?case
    by (auto simp: bindA_def get_block_hash_def rpc_def split: option.splits sum.splits prod.splits if_splits)
      (metis fst_conv)+
qed simp

text \<open>
  C5. Recovery that gives up is harmless: when it stops the process for manual intervention, the
  disk, the flags, the index and the buffers are exactly as they were, after at most as many calls
  as the depth limit allows.
\<close>

theorem failed_recovery_changes_nothing:
  assumes node: "\<forall>n i m. nd_block_hash (e_node e) n i \<noteq> Inl (RuntimeError m)"
    and fail: "fst (recover_from_reorg e c h b s) = Inl (RuntimeError m)"
  shows "\<exists>n. snd (recover_from_reorg e c h b s) = s\<lparr>calls := n\<rparr> \<and> n \<le> calls s + max_reorg_depth c"
proof -
  obtain w s1 where w: "walk_back e (max_reorg_depth c) [] [] h b s = (w, s1)" by force
  from walk_back_frame [of e "max_reorg_depth c" "[]" "[]" h b s] w
  obtain n where n: "s1 = s\<lparr>calls := n\<rparr>" "n \<le> calls s + max_reorg_depth c" by auto
  show ?thesis
  proof (cases w)
    case (Inl x)
    with w n show ?thesis by (auto simp: recover_from_reorg_def bindA_def)
  next
    case (Inr y)
    obtain ah ab ds l where y: "y = (ah, ab, ds, l)" by (metis prod_cases4)
    let ?s2 = "s1\<lparr>flags := unmark (rev ds) (flags s1)\<rparr>"
    obtain a s3 where a: "attached_rows e l [ah + 1..h] ?s2 = (a, s3)" by force
    have "fst (recover_from_reorg e c h b s) = (case a of Inl x \<Rightarrow> Inl x | Inr _ \<Rightarrow> Inr (ah, ab))"
      using w Inr y a
      by (simp add: recover_from_reorg_def bindA_def thenA_def forA_on_flags unmark_def flush_flags_frame split: sum.split)
    then have "a = Inl (RuntimeError m)" using fail by (simp split: sum.splits)
    with attached_rows_error [of e l "[ah + 1..h]" ?s2] a node show ?thesis by auto
  qed
qed

text \<open>For the witnesses: block 1 was replaced, block 0 is common.\<close>

definition forked_live :: "int \<Rightarrow> string" where
  "forked_live i = (if i = 0 then ''0a'' else ''2c'')"

definition forked_env :: env where
  "forked_env = sample_env\<lparr>e_node := sample_node\<lparr>nd_block_hash := (\<lambda>n i. Inr (forked_live i))\<rparr>\<rparr>"

definition forked_start :: ingest where
  "forked_start = sample_start\<lparr>index := (index sample_start)\<lparr>by_hash := [(''1b'', make_index_row 1 ''1b'' ''0a'' 2)]\<rparr>\<rparr>"

lemma forked_tells: "tells forked_env forked_live h"
  by (simp add: tells_def forked_env_def)

lemma forked_forks: "forks_at (index forked_start) forked_live 1 ''1b'' 1"
  by (auto simp: forks_at_def forked_start_def index_get_def make_index_row_def forked_live_def)

theorem recovery_exact_witness:
  "\<exists>s'. recover_from_reorg forked_env sample_rpc_config 1 ''1b'' forked_start = (Inr (0, ''0a''), s')
      \<and> map_of (entries (flags s')) (1, ''1b'') = Some False"
proof -
  have "1 \<le> max_reorg_depth sample_rpc_config" by (simp add: sample_rpc_config_def)
  from recovery_exact [OF forked_forks this forked_tells] show ?thesis
    by (auto simp: stored_def forked_live_def)
qed

theorem failed_recovery_changes_nothing_witness:
  "\<exists>n. snd (recover_from_reorg forked_env sample_rpc_config 1 ''9f'' forked_start) = forked_start\<lparr>calls := n\<rparr> \<and> n \<le> 100"
proof -
  have s: "max_reorg_depth sample_rpc_config = Suc 99" "calls forked_start = 0"
    by (simp_all add: sample_rpc_config_def forked_start_def sample_start_def)
  have "index_get (index forked_start) ''9f'' = None" by (simp add: index_get_def forked_start_def)
  then have "walk_back forked_env (Suc n) [] [] 1 ''9f'' forked_start = (Inl (RuntimeError ''unindexed block''), forked_start)" for n
    by (simp add: bindA_def)
  then have "fst (recover_from_reorg forked_env sample_rpc_config 1 ''9f'' forked_start) = Inl (RuntimeError ''unindexed block'')"
    unfolding recover_from_reorg_def s(1) by (simp only: bindA_def prod.case sum.case fst_conv)
  moreover have "\<forall>n i m. nd_block_hash (e_node forked_env) n i \<noteq> Inl (RuntimeError m)" by (simp add: forked_env_def)
  ultimately show ?thesis
    using failed_recovery_changes_nothing [of forked_env sample_rpc_config 1 "''9f''" forked_start] s
    by auto
qed


end
