(* ===== verification/Mempool_Life.thy ===== *)
theory Mempool_Life
  imports Mempool_Watch
begin

text \<open>
  The watcher keeps its contract: whatever the node, the clocks and the stop signal answer, what it
  exports and saves is a life of the tracked transactions in the sense of theory \<open>Mempool_State\<close>. Every
  handler is shown to turn one good state into another, by triples whose exceptional part is the
  invariant itself, since every exception leaves between two steps and not within one.
\<close>

section \<open>The invariant\<close>

text \<open>\<open>S\<close> is what was tracked, \<open>f\<close> what the file held, when the process started.\<close>

definition well_keyed :: "flagged_file \<Rightarrow> bool" where
  "well_keyed d \<longleftrightarrow> distinct (map fst d) \<and> list_all (\<lambda>(t, e). fx_txid e = t) d"

definition good_flagged :: "tracked \<Rightarrow> flagged_file option \<Rightarrow> flagged_store \<Rightarrow> bool" where
  "good_flagged S f st \<longleftrightarrow>
     well_keyed (fs_entries st) \<and> life S (fs_log st) (tracked_of (fs_entries st)) \<and>
     fs_file st = last_saved f (fs_log st) \<and> saved_store (flagged_load (fs_file st)) = saved_store (fs_entries st)"

definition good :: "tracked \<Rightarrow> flagged_file option \<Rightarrow> watcher \<Rightarrow> bool" where
  "good S f s \<longleftrightarrow> good_flagged S f (w_flagged s)"

definition flag :: "watcher \<Rightarrow> string \<Rightarrow> flagged_tx option" where
  "flag s t = map_of (fs_entries (w_flagged s)) t"

lemma well_keyed_iff: "well_keyed d \<longleftrightarrow> distinct (map fst d) \<and> (\<forall>p \<in> set d. fx_txid (snd p) = fst p)"
  by (simp add: well_keyed_def list_all_iff case_prod_beta)

lemma well_keyed_update: "well_keyed d \<Longrightarrow> well_keyed (AList.update (fx_txid e) e d)"
  using in_update by (fastforce simp: well_keyed_iff distinct_update)

lemma well_keyed_delete: "well_keyed d \<Longrightarrow> well_keyed (AList.delete t d)"
  by (auto simp: well_keyed_iff AList.delete_eq distinct_map_filter)

lemma well_keyed_distinct: "well_keyed d \<Longrightarrow> distinct (map fx_txid (map snd d))"
proof -
  assume d: "well_keyed d"
  then have "map fx_txid (map snd d) = map fst d" by (simp add: well_keyed_iff)
  with d show ?thesis by (simp only: well_keyed_iff)
qed

lemma well_keyed_get: "well_keyed d \<Longrightarrow> e \<in> set (map snd d) \<Longrightarrow> map_of d (fx_txid e) = Some e"
  by (auto simp: well_keyed_iff)

lemma tracked_update: "tracked_of (AList.update t e d) = (tracked_of d)(t \<mapsto> fx_status e)"
  by (auto simp: tracked_of_def)

lemma tracked_delete: "tracked_of (AList.delete t d) = (tracked_of d)(t := None)"
  by (auto simp: tracked_of_def delete_conv')

lemma sorted_keys_idem: "sorted_keys (sorted_keys d) = sorted_keys d"
  by (simp add: sorted_keys_def sort_key_id_if_sorted)

lemma saved_tx_idem: "saved_tx (saved_tx e) = saved_tx e"
  by (simp add: saved_tx_def sorted_keys_idem o_def)

lemma saved_store_idem: "saved_store (saved_store d) = saved_store d"
proof -
  let ?g = "\<lambda>(t, e). (t, saved_tx e)"
  have "map ?g (sorted_keys (map ?g d)) = sorted_keys (map ?g d)"
    by (rule map_idI) (auto simp: sorted_keys_def saved_tx_idem)
  then show ?thesis by (simp add: saved_store_def sorted_keys_idem)
qed

lemma load_saved: "well_keyed d \<Longrightarrow> flagged_load (Some (saved_store d)) = saved_store d"
  by (simp add: well_keyed_iff flagged_load_distinct distinct_saved)

section \<open>One step of a life\<close>

lemma good_commit:
  assumes g: "good_flagged S f st" and d: "well_keyed d"
    and step: "life_step (tracked_of (fs_entries st)) (es @ [Saved (saved_store d)]) (tracked_of d)"
  shows "good_flagged S f (flagged_flush (st\<lparr>fs_log := fs_log st @ es, fs_entries := d\<rparr>))"
proof -
  have "life S (fs_log st @ (es @ [Saved (saved_store d)])) (tracked_of d)"
    using g step by (auto simp: good_flagged_def intro: life.live)
  with d show ?thesis
    by (simp add: good_flagged_def flagged_flush_def Let_def load_saved saved_store_idem)
qed

lemma entries_flush [simp]: "fs_entries (flagged_flush st) = fs_entries st"
  by (simp add: flagged_flush_def Let_def)

lemma good_flagged_keyed: "good_flagged S f st \<Longrightarrow> well_keyed (fs_entries st)"
  by (simp add: good_flagged_def)

lemma export_then:
  "\<exists>s'. thenA (export_event e c ev x src rb dt) (on_flagged g) s = (Inr (), s') \<and>
        w_sanctions s' = w_sanctions s \<and>
        w_flagged s' = g ((w_flagged s)\<lparr>fs_log := fs_log (w_flagged s) @
          [Exported ev (fx_txid x) (export_rows (we_now e (w_looks s)) ev x src rb dt)]\<rparr>)"
  by (simp add: thenA_def bindA_def export_event_def look_def ask_def Let_def on_flagged_def)

lemma good_export_put:
  assumes "good S f s"
    and step: "\<And>rows g. loaded g = (tracked_of (fs_entries (w_flagged s)))(fx_txid y \<mapsto> fx_status y) \<Longrightarrow>
           life_step (tracked_of (fs_entries (w_flagged s))) [Exported ev (fx_txid x) rows, Saved g]
           ((tracked_of (fs_entries (w_flagged s)))(fx_txid y \<mapsto> fx_status y))"
  shows "\<exists>s'. thenA (export_event e c ev x src rb dt) (on_flagged (flagged_put y)) s = (Inr (), s') \<and> good S f s' \<and>
              flag s' = (flag s)(fx_txid y \<mapsto> y) \<and> w_sanctions s' = w_sanctions s"
proof -
  let ?st = "w_flagged s" let ?d = "AList.update (fx_txid y) y (fs_entries ?st)"
  let ?ex = "Exported ev (fx_txid x) (export_rows (we_now e (w_looks s)) ev x src rb dt)"
  from export_then [of e c ev x src rb dt "flagged_put y" s] obtain s' where
    s': "thenA (export_event e c ev x src rb dt) (on_flagged (flagged_put y)) s = (Inr (), s')" "w_sanctions s' = w_sanctions s"
        "w_flagged s' = flagged_flush (?st\<lparr>fs_log := fs_log ?st @ [?ex], fs_entries := ?d\<rparr>)"
    by (auto simp: flagged_put_def)
  have g: "good_flagged S f ?st" using assms(1) by (simp add: good_def)
  have w: "well_keyed ?d" using g by (intro well_keyed_update good_flagged_keyed)
  have "life_step (tracked_of (fs_entries ?st)) [?ex, Saved (saved_store ?d)] (tracked_of ?d)"
    using step [of "saved_store ?d"] w by (simp add: well_keyed_iff loaded_saved tracked_update)
  with good_commit [OF g w, of "[?ex]"] s' show ?thesis
    by (auto simp: good_def flag_def)
qed

lemma good_export_remove:
  assumes "good S f s" and "flag s t \<noteq> None"
    and step: "\<And>rows g. loaded g = (tracked_of (fs_entries (w_flagged s)))(t := None) \<Longrightarrow>
           life_step (tracked_of (fs_entries (w_flagged s))) [Exported ev (fx_txid x) rows, Saved g]
           ((tracked_of (fs_entries (w_flagged s)))(t := None))"
  shows "\<exists>s'. thenA (export_event e c ev x src rb dt) (on_flagged (flagged_remove t)) s = (Inr (), s') \<and> good S f s' \<and>
              flag s' = (flag s)(t := None)"
proof -
  let ?st = "w_flagged s" let ?d = "AList.delete t (fs_entries ?st)"
  let ?ex = "Exported ev (fx_txid x) (export_rows (we_now e (w_looks s)) ev x src rb dt)"
  from export_then [of e c ev x src rb dt "flagged_remove t" s] assms(2) obtain s' where
    s': "thenA (export_event e c ev x src rb dt) (on_flagged (flagged_remove t)) s = (Inr (), s')"
        "w_flagged s' = flagged_flush (?st\<lparr>fs_log := fs_log ?st @ [?ex], fs_entries := ?d\<rparr>)"
    by (auto simp: flagged_remove_def flag_def)
  have g: "good_flagged S f ?st" using assms(1) by (simp add: good_def)
  have w: "well_keyed ?d" using g by (intro well_keyed_delete good_flagged_keyed)
  have "life_step (tracked_of (fs_entries ?st)) [?ex, Saved (saved_store ?d)] (tracked_of ?d)"
    using step [of "saved_store ?d"] w by (simp add: well_keyed_iff loaded_saved tracked_delete)
  with good_commit [OF g w, of "[?ex]"] s' show ?thesis
    by (auto simp: good_def flag_def delete_conv')
qed

lemma good_forget:
  assumes "good S f s" and "flag s t = Some x" and "fx_status x = Confirmed"
  shows "\<exists>s'. on_flagged (flagged_remove t) s = (Inr (), s') \<and> good S f s' \<and> flag s' = (flag s)(t := None)"
proof -
  let ?st = "w_flagged s" let ?d = "AList.delete t (fs_entries ?st)"
  have g: "good_flagged S f ?st" using assms(1) by (simp add: good_def)
  have w: "well_keyed ?d" using g by (intro well_keyed_delete good_flagged_keyed)
  have "tracked_of (fs_entries ?st) t = Some Confirmed" using assms(2,3) by (simp add: tracked_of_def flag_def)
  then have "life_step (tracked_of (fs_entries ?st)) ([] @ [Saved (saved_store ?d)]) (tracked_of ?d)"
    using w by (auto simp: well_keyed_iff loaded_saved tracked_delete intro: life_step.forgotten)
  from good_commit [OF g w this] assms(2) show ?thesis
    by (auto simp: on_flagged_def good_def flagged_remove_def flag_def delete_conv')
qed

section \<open>Fetching leaves the tracked transactions and the list alone\<close>

definition leaves :: "'a watching \<Rightarrow> bool" where
  "leaves m \<longleftrightarrow> (\<forall>c. keeps (\<lambda>s. (w_flagged s, w_sanctions s) = c) m)"

lemma leaves_keeps_both: "leaves m \<Longrightarrow> keeps (\<lambda>s. P (w_flagged s) (w_sanctions s)) m"
  by (simp add: leaves_def keeps_def)

lemma leaves_keeps: "leaves m \<Longrightarrow> keeps (\<lambda>s. P (w_flagged s)) m"
  by (rule leaves_keeps_both)

lemma leaves_good: "leaves m \<Longrightarrow> keeps (good S f) m"
  using leaves_keeps [of m "good_flagged S f"] by (simp add: keeps_def good_def)

lemma leaves_flag: "leaves m \<Longrightarrow> keeps (\<lambda>s. good S f s \<and> flag s = M) m"
  using leaves_keeps [of m "\<lambda>st. good_flagged S f st \<and> map_of (fs_entries st) = M"]
  by (simp add: keeps_def good_def flag_def [abs_def])

lemma leaves_ask [keeps_intros]: "leaves (ask a)"
  by (simp add: leaves_def keeps_def ask_def)

lemma leaves_look [keeps_intros]: "leaves (look a)"
  by (simp add: look_def leaves_ask)

lemma leaves_bind [keeps_intros]: "leaves m \<Longrightarrow> (\<And>x. leaves (f x)) \<Longrightarrow> leaves (bindA m f)"
  by (simp add: leaves_def keeps_bindA)

lemma leaves_basic [keeps_intros]: "leaves (ret x)" "leaves (raise ex)" "leaves (getA g)" "leaves (liftA r)"
  by (simp_all add: leaves_def keeps_def)

lemma leaves_Pair [keeps_intros]: "leaves (Pair r)"
  by (simp add: leaves_def keeps_def)

lemma leaves_catch [keeps_intros]: "leaves m \<Longrightarrow> (\<And>x. leaves (h x)) \<Longrightarrow> leaves (catchA m P h)"
  by (simp add: leaves_def keeps_catchA)

lemma leaves_upd: "(\<And>s. w_flagged (g s) = w_flagged s \<and> w_sanctions (g s) = w_sanctions s) \<Longrightarrow> leaves (updA g)"
  by (simp add: leaves_def keeps_def)

lemma leaves_sets [keeps_intros]: "leaves (on_checked h)" "leaves (on_unfetched h)"
  by (simp_all add: on_checked_def on_unfetched_def leaves_upd)

lemma leaves_raw_tx [keeps_intros]: "leaves (get_raw_transaction e t b)"
  by (simp add: get_raw_transaction_def leaves_ask)

lemma leaves_block_txids [keeps_intros]: "leaves (get_block_txids e b)"
  by (simp add: get_block_txids_def leaves_ask)

lemma leaves_prevout [keeps_intros]: "leaves (prevout e vin)"
  by (auto simp: prevout_def intro!: keeps_intros split: option.splits)

lemma leaves_match_vins [keeps_intros]: "leaves (match_vins e sl i vins)"
  by (induction vins arbitrary: i) (auto intro!: keeps_intros split: option.splits)

lemma leaves_match_tx [keeps_intros]: "leaves (match_tx e sl tx)"
  by (auto simp: match_tx_def intro!: keeps_intros)

lemma leaves_fetch [keeps_intros]: "leaves (fetch_and_match e t b)"
  by (auto simp: fetch_and_match_def intro!: keeps_intros split: option.splits)

lemma leaves_fetch_many [keeps_intros]: "leaves (fetch_many e ts)"
  by (induction ts) (auto intro!: keeps_intros)

lemma leaves_replacement [keeps_intros]: "leaves (replacement e x)"
  by (auto simp: replacement_def intro!: keeps_intros)

lemma leaves_find_confirming [keeps_intros]: "leaves (find_confirming e t hs cache)"
  by (induction e t hs cache rule: find_confirming.induct)
    (auto intro!: keeps_intros split: option.splits prod.splits)

lemma leaves_find_block [keeps_intros]: "leaves (find_confirming_block e c x cache)"
  by (auto simp: find_confirming_block_def intro!: keeps_intros)

section \<open>Handling one entry of a snapshot\<close>

text \<open>The operation is good where the entry is tracked as it is, and touches no other.\<close>

definition entry_op :: "tracked \<Rightarrow> flagged_file option \<Rightarrow> flagged_tx \<Rightarrow> unit watching \<Rightarrow> bool" where
  "entry_op S f x m \<longleftrightarrow>
     (\<forall>M. M (fx_txid x) = Some x \<longrightarrow>
        triple (\<lambda>s. good S f s \<and> flag s = M) m (\<lambda>_ s. good S f s \<and> (\<forall>u. u \<noteq> fx_txid x \<longrightarrow> flag s u = M u)) (good S f))"

lemma entry_opI:
  assumes "\<And>s. good S f s \<Longrightarrow> flag s (fx_txid x) = Some x \<Longrightarrow>
     \<exists>s'. m s = (Inr (), s') \<and> good S f s' \<and> (\<forall>u. u \<noteq> fx_txid x \<longrightarrow> flag s' u = flag s u)"
  shows "entry_op S f x m"
  unfolding entry_op_def
proof (intro allI impI)
  fix M assume "M (fx_txid x) = Some x"
  with assms show "triple (\<lambda>s. good S f s \<and> flag s = M) m
      (\<lambda>_ s. good S f s \<and> (\<forall>u. u \<noteq> fx_txid x \<longrightarrow> flag s u = M u)) (good S f)"
    by (intro tripleI) fastforce+
qed

lemma entry_op_ret [intro]: "entry_op S f x (ret ())"
  by (rule entry_opI) auto

lemma entry_op_bind:
  assumes "leaves m" and "\<And>y. entry_op S f x (h y)"
  shows "entry_op S f x (bindA m h)"
  unfolding entry_op_def
proof (intro allI impI)
  fix M assume M: "M (fx_txid x) = Some x"
  show "triple (\<lambda>s. good S f s \<and> flag s = M) (bindA m h)
      (\<lambda>_ s. good S f s \<and> (\<forall>u. u \<noteq> fx_txid x \<longrightarrow> flag s u = M u)) (good S f)"
    by (rule triple_bind, rule triple_keeps [OF leaves_flag [OF assms(1)]]) (use assms(2) M in \<open>auto simp: entry_op_def\<close>)
qed

lemma tracked_flag: "tracked_of (fs_entries (w_flagged s)) t = map_option fx_status (flag s t)"
  by (simp add: tracked_of_def flag_def)

lemma entry_confirmed:
  assumes "fx_status x = In_mempool"
  shows "entry_op S f x (mark_confirmed e c x b h src)"
proof (rule entry_opI)
  fix s assume s: "good S f s" "flag s (fx_txid x) = Some x"
  let ?y = "x\<lparr>fx_status := Confirmed, fx_block_hash := Some b, fx_block_height := Some h\<rparr>"
  have "\<exists>s'. thenA (export_event e c ''confirmed'' ?y src None None) (on_flagged (flagged_put ?y)) s = (Inr (), s') \<and>
        good S f s' \<and> flag s' = (flag s)(fx_txid ?y \<mapsto> ?y) \<and> w_sanctions s' = w_sanctions s"
    using s assms by (intro good_export_put) (auto simp: tracked_flag intro!: life_step.mined)
  then show "\<exists>s'. mark_confirmed e c x b h src s = (Inr (), s') \<and> good S f s' \<and>
      (\<forall>u. u \<noteq> fx_txid x \<longrightarrow> flag s' u = flag s u)"
    by (auto simp: mark_confirmed_def Let_def)
qed

lemma entry_left_export:
  assumes "fx_status x = In_mempool" and "ev \<in> {''replaced'', ''removed''}"
  shows "entry_op S f x (thenA (export_event e c ev x src rb dt) (on_flagged (flagged_remove (fx_txid x))))"
proof (rule entry_opI)
  fix s assume s: "good S f s" "flag s (fx_txid x) = Some x"
  have "\<exists>s'. thenA (export_event e c ev x src rb dt) (on_flagged (flagged_remove (fx_txid x))) s = (Inr (), s') \<and>
        good S f s' \<and> flag s' = (flag s)(fx_txid x := None)"
    using s assms by (intro good_export_remove) (auto simp: tracked_flag intro!: life_step.left)
  then show "\<exists>s'. thenA (export_event e c ev x src rb dt) (on_flagged (flagged_remove (fx_txid x))) s = (Inr (), s') \<and>
      good S f s' \<and> (\<forall>u. u \<noteq> fx_txid x \<longrightarrow> flag s' u = flag s u)"
    by auto
qed

lemma entry_left: "fx_status x = In_mempool \<Longrightarrow> entry_op S f x (on_left_unmined e c x src dt)"
  unfolding on_left_unmined_def
  by (intro entry_op_bind keeps_intros) (auto intro: entry_left_export)

lemma entry_unconfirmed:
  assumes "fx_status x = Confirmed" and y: "fx_txid y = fx_txid x" "fx_status y = In_mempool" and z: "fx_txid z = fx_txid x"
  shows "entry_op S f x (thenA (export_event e c ''unconfirmed'' z src rb dt) (on_flagged (flagged_put y)))"
proof (rule entry_opI)
  fix s assume s: "good S f s" "flag s (fx_txid x) = Some x"
  have "\<exists>s'. thenA (export_event e c ''unconfirmed'' z src rb dt) (on_flagged (flagged_put y)) s = (Inr (), s') \<and>
        good S f s' \<and> flag s' = (flag s)(fx_txid y \<mapsto> y) \<and> w_sanctions s' = w_sanctions s"
    using s assms by (intro good_export_put) (auto simp: tracked_flag intro!: life_step.reorged)
  then show "\<exists>s'. thenA (export_event e c ''unconfirmed'' z src rb dt) (on_flagged (flagged_put y)) s = (Inr (), s') \<and>
      good S f s' \<and> (\<forall>u. u \<noteq> fx_txid x \<longrightarrow> flag s' u = flag s u)"
    using y by auto
qed

lemma entry_forget: "fx_status x = Confirmed \<Longrightarrow> entry_op S f x (on_flagged (flagged_remove (fx_txid x)))"
  by (rule entry_opI) (use good_forget in fastforce)

lemma entry_depth: "entry_op S f x (check_depth_of e c x)"
  unfolding check_depth_of_def Let_def
  by (auto split: option.splits intro!: entry_op_bind keeps_intros entry_unconfirmed entry_forget
      intro: tx_status.exhaust)

section \<open>Walking a snapshot of the entries\<close>

definition snapshot :: "tracked \<Rightarrow> flagged_file option \<Rightarrow> flagged_tx list \<Rightarrow> watcher \<Rightarrow> bool" where
  "snapshot S f es s \<longleftrightarrow> good S f s \<and> (\<forall>x \<in> set es. flag s (fx_txid x) = Some x)"

lemma snapshot_good: "snapshot S f es s \<Longrightarrow> good S f s"
  by (simp add: snapshot_def)

lemma snapshot_all: "good S f s \<Longrightarrow> snapshot S f (flagged_all (w_flagged s)) s \<and> distinct (map fx_txid (flagged_all (w_flagged s)))"
  using well_keyed_distinct well_keyed_get
  by (fastforce simp: snapshot_def good_def flag_def flagged_all_def dest: good_flagged_keyed)

lemma leaves_snapshot: "leaves m \<Longrightarrow> keeps (snapshot S f es) m"
  using leaves_keeps [of m "\<lambda>st. good_flagged S f st \<and> (\<forall>x \<in> set es. map_of (fs_entries st) (fx_txid x) = Some x)"]
  by (simp add: keeps_def good_def flag_def snapshot_def)

lemma snapshot_step:
  assumes m: "entry_op S f x m" and d: "fx_txid x \<notin> fx_txid ` set es"
  shows "triple (snapshot S f (x # es)) m (\<lambda>_. snapshot S f es) (good S f)"
proof (rule tripleI)
  fix s ex s' assume s: "snapshot S f (x # es) s" "m s = (Inl ex, s')"
  with m have "triple (\<lambda>s'. good S f s' \<and> flag s' = flag s) m
      (\<lambda>_ s'. good S f s' \<and> (\<forall>u. u \<noteq> fx_txid x \<longrightarrow> flag s' u = flag s u)) (good S f)"
    by (simp add: entry_op_def snapshot_def)
  from triple_Inl [OF this _ s(2)] s(1) show "good S f s'" by (simp add: snapshot_def)
next
  fix s y s' assume s: "snapshot S f (x # es) s" "m s = (Inr y, s')"
  with m have "triple (\<lambda>s'. good S f s' \<and> flag s' = flag s) m
      (\<lambda>_ s'. good S f s' \<and> (\<forall>u. u \<noteq> fx_txid x \<longrightarrow> flag s' u = flag s u)) (good S f)"
    by (simp add: entry_op_def snapshot_def)
  from triple_Inr [OF this _ s(2)] s(1) have s': "good S f s'" "\<forall>u. u \<noteq> fx_txid x \<longrightarrow> flag s' u = flag s u"
    by (simp_all add: snapshot_def)
  have "flag s' (fx_txid z) = Some z" if "z \<in> set es" for z
    using that s(1) s'(2) d by (metis snapshot_def image_eqI list.set_intros(2))
  with s'(1) show "snapshot S f es s'" by (simp add: snapshot_def)
qed

lemma snapshot_forA:
  assumes "\<And>x. entry_op S f x (body x)" and "distinct (map fx_txid es)"
  shows "triple (snapshot S f es) (forA es body) (\<lambda>_. good S f) (good S f)"
  using assms(2)
proof (induction es)
  case Nil
  show ?case by (simp add: triple_def snapshot_def)
next
  case (Cons x es)
  then show ?case
    by (auto intro!: triple_then snapshot_step assms(1) simp: image_iff)
qed

lemma good_for_all:
  assumes "\<And>x. entry_op S f x (body x)"
  shows "keeps (good S f) (bindA (getA (\<lambda>s. flagged_all (w_flagged s))) (\<lambda>es. forA es body))"
proof (rule keepsI)
  fix s assume g: "good S f s"
  let ?es = "flagged_all (w_flagged s)"
  have "triple (snapshot S f ?es) (forA ?es body) (\<lambda>_. good S f) (good S f)"
    using assms snapshot_all [OF g] by (intro snapshot_forA) auto
  then have "good S f (snd (forA ?es body s))"
    using snapshot_all [OF g] by (cases "forA ?es body s"; cases "fst (forA ?es body s)") (auto dest: triple_Inl triple_Inr)
  then show "good S f (snd (bindA (getA (\<lambda>s. flagged_all (w_flagged s))) (\<lambda>es. forA es body) s))"
    by (simp add: bindA_def)
qed

lemma good_depth [keeps_intros]: "keeps (good S f) (check_confirmed_depth e c)"
  unfolding check_confirmed_depth_def by (rule good_for_all) (rule entry_depth)

lemma good_settle:
  "distinct (map fx_txid es) \<Longrightarrow>
   triple (snapshot S f es) (settle_left e c src mp es cache) (\<lambda>_. good S f) (good S f)"
proof (induction es arbitrary: cache)
  case Nil
  show ?case by (simp add: triple_def snapshot_def)
next
  case (Cons x es)
  show ?case
  proof (cases "fx_status x \<noteq> In_mempool \<or> fx_txid x \<in> mp")
    case True
    with Cons have "triple (snapshot S f es) (settle_left e c src mp (x # es) cache) (\<lambda>_. good S f) (good S f)" by simp
    then show ?thesis by (rule triple_weaken) (auto simp: snapshot_def)
  next
    case False
    have op: "entry_op S f x (case found of Some (b, h) \<Rightarrow> mark_confirmed e c x b h src
                | None \<Rightarrow> on_left_unmined e c x src ''left_mempool_unobserved'')" for found
      using False by (auto intro: entry_confirmed entry_left split: option.splits)
    have rest: "triple (snapshot S f (x # es))
        (thenA (case found of Some (b, h) \<Rightarrow> mark_confirmed e c x b h src
                | None \<Rightarrow> on_left_unmined e c x src ''left_mempool_unobserved'')
               (settle_left e c src mp es cache')) (\<lambda>_. good S f) (good S f)" for found cache'
      using Cons by (intro triple_then [OF snapshot_step [OF op]]) auto
    have "keeps (snapshot S f (x # es)) (find_confirming_block e c x cache)"
      by (intro leaves_snapshot keeps_intros)
    then have "triple (snapshot S f (x # es)) (find_confirming_block e c x cache)
        (\<lambda>_. snapshot S f (x # es)) (good S f)"
      by (rule triple_keeps) (rule snapshot_good)
    with False rest show ?thesis by (auto intro!: triple_bind)
  qed
qed

section \<open>The handlers\<close>

lemma good_same: "w_flagged s' = w_flagged s \<Longrightarrow> good S f s' = good S f s"
  by (simp add: good_def)

lemma entry_op_good:
  assumes "entry_op S f x m" and "good S f s" and "flag s (fx_txid x) = Some x"
  shows "good S f (snd (m s))"
proof -
  have "triple (\<lambda>s'. good S f s' \<and> flag s' = flag s) m
      (\<lambda>_ s'. good S f s' \<and> (\<forall>u. u \<noteq> fx_txid x \<longrightarrow> flag s' u = flag s u)) (good S f)"
    using assms by (simp add: entry_op_def)
  with assms(2) show ?thesis
    by (cases "m s"; cases "fst (m s)") (auto dest: triple_Inl triple_Inr)
qed

lemma flag_keyed: "good S f s \<Longrightarrow> flag s t = Some x \<Longrightarrow> fx_txid x = t"
  by (auto simp: good_def flag_def good_flagged_def well_keyed_iff dest!: map_of_SomeD)

lemma action_eval:
  "thenA (updA g) k s = k (g s)" "bindA (getA h) m s = m (h s) s" "bindA (liftA (Inr x)) m s = m x s"
  "bindA (liftA (Inl ex)) m s = (Inl ex, s)" "bindA (look a) l s' = l (a (w_looks s')) (s'\<lparr>w_looks := w_looks s' + 1\<rparr>)"
  by (simp_all add: thenA_def bindA_def look_def ask_def)

text \<open>A transaction that was fetched is recorded if it matches and is not tracked yet.\<close>

lemma added_result:
  assumes g: "good S f s"
  obtains (kept) r s' where "on_added e c t ft src s = (r, s')" "good S f s'" "w_sanctions s' = w_sanctions s" "flag s' = flag s"
      "r = Inr () \<Longrightarrow> ft = None \<or> snd (the ft) = [] \<or> flag s t \<noteq> None"
  | (recorded) x s' where "on_added e c t ft src s = (Inr (), s')" "good S f s'" "w_sanctions s' = w_sanctions s"
      "flag s t = None" "flag s' = (flag s)(t \<mapsto> x)" "ft \<noteq> None" "fx_matches x = snd (the ft)" "fx_status x = In_mempool"
proof (cases ft)
  case None
  with g show thesis by (intro kept [of "Inr ()" s]) (simp_all add: on_added_def)
next
  case (Some tm)
  obtain tx ms where tm: "tm = (tx, ms)" by force
  let ?s = "s\<lparr>w_checked := insert t (w_checked s)\<rparr>"
  show thesis
  proof (cases "ms = [] \<or> flag s t \<noteq> None")
    case True
    with Some tm g show thesis
      by (intro kept [of "Inr ()" ?s])
        (auto simp: on_added_def on_checked_def flagged_get_def flag_def action_eval good_def)
  next
    case False
    let ?s' = "?s\<lparr>w_looks := w_looks ?s + 1\<rparr>"
    have g': "good S f ?s'" and none: "flag ?s' t = None" using g False by (simp_all add: good_def flag_def)
    show thesis
    proof (cases "tx_inputs (rt_vin tx)")
      case (Inl ex)
      with False Some tm g' show thesis
        by (intro kept [of "Inl ex" ?s']) (auto simp: on_added_def on_checked_def flagged_get_def flag_def action_eval)
    next
      case (Inr ins)
      let ?y = "\<lparr>fx_txid = t, fx_first_seen_at = we_now e (w_looks s), fx_first_seen_height = w_tip_height s,
                          fx_fee_btc = btc_str (rt_fee tx), fx_vsize = rt_vsize tx, fx_inputs = ins,
                          fx_matches = ms, fx_status = In_mempool, fx_block_hash = None,
                          fx_block_height = None\<rparr>"
      have "\<exists>s''. thenA (export_event e c ''seen'' ?y src None None) (on_flagged (flagged_put ?y)) ?s' = (Inr (), s'') \<and>
          good S f s'' \<and> flag s'' = (flag ?s')(fx_txid ?y \<mapsto> ?y) \<and> w_sanctions s'' = w_sanctions ?s'"
        using g' none by (intro good_export_put) (auto simp: tracked_flag flag_def intro!: life_step.seen)
      then obtain s'' where "thenA (export_event e c ''seen'' ?y src None None) (on_flagged (flagged_put ?y)) ?s' = (Inr (), s'')"
          "good S f s''" "flag s'' = (flag s)(t \<mapsto> ?y)" "w_sanctions s'' = w_sanctions s"
        by (auto simp: flag_def fun_eq_iff)
      with False Some tm Inr show thesis
        by (intro recorded [of s'' ?y])
          (auto simp: on_added_def on_checked_def flagged_get_def flag_def Let_def action_eval)
    qed
  qed
qed

lemma good_added [keeps_intros]: "keeps (good S f) (on_added e c t ft src)"
  by (rule keepsI) (auto elim: added_result [where e = e and c = c and t = t and ft = ft and src = src])

lemma good_removed [keeps_intros]: "keeps (good S f) (on_removed e c t)"
  unfolding on_removed_def
proof (rule keeps_thenA)
  show "keeps (good S f) (on_checked (\<lambda>s. s - {t}))" by (intro leaves_good keeps_intros)
  show "keeps (good S f) (bindA (getA (\<lambda>s. flagged_get (w_flagged s) t)) (\<lambda>entry.
        case entry of
          Some x \<Rightarrow> if fx_status x = In_mempool then on_left_unmined e c x ''zmq'' ''removed_from_mempool'' else ret ()
        | None \<Rightarrow> ret ()))"
  proof (rule keepsI)
    fix s assume g: "good S f s"
    have "good S f (snd (on_left_unmined e c x ''zmq'' ''removed_from_mempool'' s))"
      if "flag s t = Some x" "fx_status x = In_mempool" for x
      using that g flag_keyed [OF g that(1)] by (intro entry_op_good [OF entry_left]) auto
    with g show "good S f (snd (bindA (getA (\<lambda>s. flagged_get (w_flagged s) t)) (\<lambda>entry.
        case entry of
          Some x \<Rightarrow> if fx_status x = In_mempool then on_left_unmined e c x ''zmq'' ''removed_from_mempool'' else ret ()
        | None \<Rightarrow> ret ()) s))"
      by (auto simp: bindA_def flag_def flagged_get_def split: option.splits)
  qed
qed

text \<open>The leaves of a handler.\<close>

lemmas good_leaf = leaves_ask [THEN leaves_good] leaves_look [THEN leaves_good] leaves_basic [THEN leaves_good]
  leaves_sets [THEN leaves_good] leaves_block_txids [THEN leaves_good] leaves_fetch [THEN leaves_good]
  leaves_fetch_many [THEN leaves_good]

lemma good_connected_entries [keeps_intros]:
  "keeps (good S f) (bindA (getA (\<lambda>s. flagged_all (w_flagged s))) (\<lambda>entries.
       thenA (forA entries (\<lambda>x. if fx_status x = In_mempool \<and> fx_txid x \<in> T
                then mark_confirmed e c x b h src else ret ()))
             (check_confirmed_depth e c)))"
proof -
  have bind: "bindA (getA g) (\<lambda>es. thenA (k es) m) = thenA (bindA (getA g) k) m" for g :: "watcher \<Rightarrow> 'x" and k and m :: "unit watching"
    by (simp add: fun_eq_iff thenA_def bindA_def)
  show ?thesis
    unfolding bind by (intro keeps_thenA good_for_all good_depth) (auto intro: entry_confirmed)
qed

lemma good_connected [keeps_intros]: "keeps (good S f) (on_block_connected e c b)"
  unfolding on_block_connected_def
  by (auto intro!: keeps_bindA keeps_thenA keeps_forA good_connected_entries good_added good_leaf keeps_updA
      simp: good_def split: prod.splits)

lemma good_event [keeps_intros]: "keeps (good S f) (handle_event e c fetched ev)"
  unfolding handle_event_def
  by (auto intro!: keeps_ret keeps_thenA good_added good_removed good_connected good_depth good_leaf split: option.splits)

lemma good_events [keeps_intros]: "keeps (good S f) (handle_events e c evs)"
  unfolding handle_events_def
  by (intro keeps_bindA keeps_forA good_event good_leaf)

lemma good_check_new: "keeps (good S f) (check_new e c src new)"
proof (induction e c src new rule: check_new.induct)
  case (1 e c src new)
  show ?case
    by (subst check_new.simps)
      (auto intro!: keeps_bindA keeps_thenA keeps_forA keeps_ret good_added good_leaf 1
        split: prod.splits)
qed

lemma good_reconcile [keeps_intros]: "keeps (good S f) (reconcile e c src)"
proof -
  have settle: "keeps (good S f) (bindA (getA (\<lambda>s. flagged_all (w_flagged s))) (\<lambda>entries.
           thenA (settle_left e c src mp entries []) (check_confirmed_depth e c)))" for mp
  proof (rule keepsI)
    fix s assume g: "good S f s"
    let ?es = "flagged_all (w_flagged s)"
    have "triple (snapshot S f ?es) (thenA (settle_left e c src mp ?es []) (check_confirmed_depth e c))
        (\<lambda>_. good S f) (good S f)"
      using snapshot_all [OF g] by (intro triple_then [OF good_settle] triple_keeps good_depth) auto
    then have "good S f (snd (thenA (settle_left e c src mp ?es []) (check_confirmed_depth e c) s))"
      using snapshot_all [OF g]
      by (cases "thenA (settle_left e c src mp ?es []) (check_confirmed_depth e c) s";
          cases "fst (thenA (settle_left e c src mp ?es []) (check_confirmed_depth e c) s)")
        (auto dest: triple_Inl triple_Inr)
    then show "good S f (snd (bindA (getA (\<lambda>s. flagged_all (w_flagged s))) (\<lambda>entries.
           thenA (settle_left e c src mp entries []) (check_confirmed_depth e c)) s))"
      by (simp add: bindA_def)
  qed
  show ?thesis
    unfolding reconcile_def
    by (auto intro!: keeps_bindA keeps_thenA keeps_ret keeps_updA settle good_check_new good_leaf simp: good_def)
qed

section \<open>The loop\<close>

abbreviation good_loop :: "tracked \<Rightarrow> flagged_file option \<Rightarrow> watch_loop \<Rightarrow> bool" where
  "good_loop S f s \<equiv> good S f (wl_watcher s)"

lemma keeps_in_watcher [keeps_intros]:
  "keeps (good S f) m \<Longrightarrow> keeps (good_loop S f) (in_watcher m)"
  by (auto simp: keeps_def in_watcher_def split: prod.splits)

lemma good_reload: "keeps (good S f) (reload_list e)"
  by (auto simp: keeps_def reload_list_def Let_def good_def split: prod.splits)

lemma good_warn: "keeps (good S f) (warn_if_old_node e)"
  unfolding warn_if_old_node_def by (intro keeps_bindA good_leaf)

lemma good_reconcile_due: "keeps (good_loop S f) (reconcile_if_due e c)"
  unfolding reconcile_if_due_def
  by (intro keeps_bindA keeps_thenA keeps_getA keeps_if keeps_ret keeps_in_watcher good_warn good_reconcile good_leaf keeps_updA)
    auto

lemma good_take_batch: "keeps (good_loop S f) (take_batch e)"
  unfolding take_batch_def
  by (auto intro!: keeps_bindA keeps_thenA keeps_getA keeps_ret keeps_in_watcher good_leaf keeps_updA split: option.splits prod.splits)

lemma good_batch: "keeps (good_loop S f) (handle_batch e c)"
  unfolding handle_batch_def take_gap_flag_def
  by (intro keeps_bindA keeps_thenA keeps_if keeps_ret keeps_in_watcher good_take_batch good_events keeps_updA)
    (auto split: option.splits prod.splits)

lemma good_body: "keeps (good_loop S f) (watch_body e c)"
  unfolding watch_body_def
  by (intro keeps_bindA keeps_thenA keeps_if keeps_ret keeps_in_watcher good_reconcile_due good_batch good_reload good_leaf
      keeps_updA) auto

lemma good_run: "keeps (good_loop S f) (run_watch fuel e c)"
proof (induction fuel)
  case (Suc fuel)
  have "keeps (good_loop S f) (watch_pass e c)"
    unfolding watch_pass_def by (intro keeps_catchA good_body keeps_updA) auto
  with Suc show ?case
    by (auto intro!: keeps_bindA keeps_thenA keeps_ret keeps_in_watcher good_leaf)
qed (simp add: keeps_def)

lemma good_init:
  assumes "watch_init e c d f = Inr s" and "well_keyed (flagged_load f)"
  shows "good_loop (tracked_of (flagged_load f)) f s"
  using assms
  by (auto simp: watch_init_def watcher_init_def bindE_Inr good_def good_flagged_def intro: life.rest)

lemma good_after:
  assumes "watch_init e c d f = Inr s" and "well_keyed (flagged_load f)" and "run_watch fuel e c s = (r, s')"
  shows "good_loop (tracked_of (flagged_load f)) f s'"
  using keepsD [OF good_run good_init [OF assms(1,2)], of fuel e c] assms(3) by simp

section \<open>What the exports say\<close>

definition watch_log :: "watch_loop \<Rightarrow> watch_effect list" where
  "watch_log s = fs_log (w_flagged (wl_watcher s))"

text \<open>
  C10. Whatever the node, the clocks, the sanctions files and the stop signal do, and wherever the
  loop is cut off, the events exported for a transaction run through one automaton: seen first,
  confirmed only while it waits in the mempool, unconfirmed only after confirmed, replaced or
  removed only while it waits, and seen again only after that or once a deep block let it be
  forgotten; and the status the watcher keeps is the automaton's.
\<close>

theorem events_follow_the_automaton:
  assumes "watch_init e c d f = Inr s" and "well_keyed (flagged_load f)" and "run_watch fuel e c s = (r, s')"
  shows "\<exists>st. stages (stage_of (tracked_of (flagged_load f) t)) (events_of t (watch_log s')) = Some st \<and>
              agrees (tracked_of (fs_entries (w_flagged (wl_watcher s'))) t) st"
  using good_after [OF assms] by (intro life_stage) (simp add: good_def good_flagged_def watch_log_def)

text \<open>
  C11. A crash at any point, also between an export and the save after it, leaves a state file that
  is the result of all the exports made, or of all but the last: on restart the watcher repeats at
  most one event and loses none.
\<close>

theorem crash_repeats_at_most_one_event:
  assumes "watch_init e c d f = Inr s" and "well_keyed (flagged_load f)" and "run_watch fuel e c s = (r, s')"
    and "watch_log s' = p @ q"
  shows "\<exists>ps u. p = ps @ u \<and> length u \<le> 1 \<and>
                life (tracked_of (flagged_load f)) ps (tracked_of (flagged_load (last_saved f p)))"
proof -
  have "life (tracked_of (flagged_load f)) (watch_log s') (tracked_of (fs_entries (w_flagged (wl_watcher s'))))"
    using good_after [OF assms(1-3)] by (simp add: good_def good_flagged_def watch_log_def)
  from life_crash [OF this assms(4)] obtain ps u S1 where
    p: "p = ps @ u" "life (tracked_of (flagged_load f)) ps S1" and
    u: "u = [] \<or> (\<exists>ev t rows. u = [Exported ev t rows])" by blast
  from u have "length u \<le> 1" "last_saved f p = last_saved f ps" using p(1) by auto
  moreover have "tracked_of (flagged_load (last_saved f ps)) = S1" using p(2) by (rule life_saves) simp
  ultimately show ?thesis using p by auto
qed

lemma map_of_stable: "map_of (sorted_keys d) = map_of d"
proof
  fix k
  have first: "map_of xs k = (case filter (\<lambda>p. fst p = k) xs of [] \<Rightarrow> None | p # ps \<Rightarrow> Some (snd p))" for xs :: "(string \<times> 'a) list"
    by (induction xs) auto
  show "map_of (sorted_keys d) k = map_of d k"
    using sort_key_stable [of fst k d] by (simp add: first sorted_keys_def)
qed

lemma export_rows_saved: "export_rows now ev (saved_tx x) src rb dt = export_rows now ev x src rb dt"
proof -
  have common: "distinct (map fst (export_common now ev y src rb dt))" for y
    by (simp add: export_common_def)
  have "export_common now ev (saved_tx x) src rb dt = export_common now ev x src rb dt"
    by (simp add: export_common_def saved_tx_def)
  then show ?thesis
    by (simp add: export_rows_def map_of_dict_update [OF common] map_of_stable saved_tx_def o_def)
qed

text \<open>
  C36. A restart on the file the process leaves tracks the same transactions with the same status, and
  what it exports for one of them later are the rows the process itself would have exported, column
  for column, although the saved matches come back with their keys sorted.
\<close>

theorem restart_exports_the_same_rows:
  assumes "watch_init e c d f = Inr s" and "well_keyed (flagged_load f)" and "run_watch fuel e c s = (r, s')"
  shows "map_option (\<lambda>x. (fx_status x, export_rows now ev x src rb dt))
           (map_of (flagged_load (fs_file (w_flagged (wl_watcher s')))) t)
         = map_option (\<lambda>x. (fx_status x, export_rows now ev x src rb dt))
           (map_of (fs_entries (w_flagged (wl_watcher s'))) t)"
proof -
  let ?st = "w_flagged (wl_watcher s')"
  have g: "good_flagged (tracked_of (flagged_load f)) f ?st" using good_after [OF assms] by (simp add: good_def)
  have "distinct (map fst (flagged_load (fs_file ?st)))"
    by (auto simp: flagged_load_def distinct_dict_update split: option.split)
  then have "map_option saved_tx (map_of (flagged_load (fs_file ?st)) t) = map_option saved_tx (map_of (fs_entries ?st) t)"
    using g map_of_saved [of "flagged_load (fs_file ?st)"] map_of_saved [of "fs_entries ?st"]
    by (metis comp_apply good_flagged_def well_keyed_iff)
  then consider "map_of (flagged_load (fs_file ?st)) t = None" "map_of (fs_entries ?st) t = None"
    | x y where "map_of (flagged_load (fs_file ?st)) t = Some x" "map_of (fs_entries ?st) t = Some y" "saved_tx x = saved_tx y"
    by (cases "map_of (flagged_load (fs_file ?st)) t"; cases "map_of (fs_entries ?st) t") auto
  then show ?thesis
  proof cases
    case (2 x y)
    then show ?thesis using export_rows_saved saved_status by (metis option.simps(9))
  qed simp
qed

section \<open>A concrete run\<close>

text \<open>One listed address, and one transaction in the mempool that pays it.\<close>

definition sample_watch_tx :: raw_tx where
  "sample_watch_tx =
     \<lparr>rt_vin = [\<lparr>wi_coinbase = False,
         wi_prevout = Some \<lparr>coin_script = Some \<lparr>sk_address = Some ''1B'', sk_addresses = []\<rparr>, coin_value = Some (Dec 7 0)\<rparr>,
         wi_txid = Some ''t0'', wi_vout = Some 0\<rparr>],
      rt_vout = [\<lparr>wo_n = Some 0,
         wo_coin = \<lparr>coin_script = Some \<lparr>sk_address = Some ''1A'', sk_addresses = []\<rparr>, coin_value = Some (Dec 5 0)\<rparr>\<rparr>],
      rt_fee = Some (Dec 2 0), rt_vsize = Some 110\<rparr>"

definition sample_watch_env :: watch_env where
  "sample_watch_env =
     \<lparr>we_write = (\<lambda>h rs. ''''),
      we_node = \<lparr>wn_raw_tx = (\<lambda>n t b. Inr sample_watch_tx), wn_tx_out = (\<lambda>n t i. Inr None),
        wn_spending = (\<lambda>n is. Inr []), wn_block_txids = (\<lambda>n b. Inr (1, 1, [])),
        wn_confirmations = (\<lambda>n b. Inr (Some 1)), wn_block_hash = (\<lambda>n h. Inr ''b1''),
        wn_block_count = (\<lambda>n. Inr 1), wn_mempool = (\<lambda>n. Inr [''t1'']), wn_version = (\<lambda>n. Inr (Some 250000))\<rparr>,
      we_stop = (\<lambda>n. False), we_now = (\<lambda>n. ''now''), we_clock = (\<lambda>n. 0),
      we_order = (\<lambda>n S. if ''t1'' \<in> S then [''t1''] else []),
      we_stat = (\<lambda>n p. Inr 0), we_rows = (\<lambda>n p. Inr [[''address''], [''1A'']]),
      we_arrivals = (\<lambda>n. [])\<rparr>"

definition sample_watch_config :: watch_config where
  "sample_watch_config =
     \<lparr>wc_zmq_endpoint = None, wc_sanctions_list_paths = [(''conf'', ''list.csv'')], wc_output_dir = ''out'',
      wc_reconcile_interval_seconds = 300, wc_max_confirmation_scan_blocks = 144, wc_forget_after_confirmations = 100\<rparr>"

definition sample_entry :: sanctioned_address where
  "sample_entry = \<lparr>sa_address = ''1A'', sa_name = '''', sa_first_name = '''', sa_programs = '''', sa_list_file = ''list.csv''\<rparr>"

definition sample_watch_start :: watch_loop where
  "sample_watch_start =
     \<lparr>wl_watcher = \<lparr>w_disk = \<lparr>files = [], log = []\<rparr>, w_flagged = \<lparr>fs_entries = [], fs_file = None, fs_log = []\<rparr>,
        w_sanctions = \<lparr>sl_paths = [(''conf'', ''list.csv'')], sl_entries = [(''1A'', sample_entry)], sl_mtimes = [0]\<rparr>,
        w_checked = {}, w_unfetched = {}, w_tip_height = 0, w_looks = 1\<rparr>,
      wl_subscriber = None, wl_queue = [], wl_reconcile_due = True, wl_source = ''startup_scan'', wl_next_reconcile = 0\<rparr>"

lemma sample_load: "load_file ''list.csv'' (Inr [[''address''], [''1A'']]) = Inr [(''1A'', sample_entry)]"
  by code_simp

lemma sample_watch_init: "watch_init sample_watch_env sample_watch_config \<lparr>files = [], log = []\<rparr> None = Inr sample_watch_start"
  by (simp add: watch_init_def watcher_init_def sanctions_init_def reload_if_changed_def sample_watch_env_def
      sample_watch_config_def sample_load sample_watch_start_def set_default_def flagged_load_def)

lemma sample_match:
  "match_tx sample_watch_env (w_sanctions (wl_watcher sample_watch_start)) sample_watch_tx s
   = (Inr [match_row ''output'' 0 ''1A'' (Some (Dec 5 0)) sample_entry], s)"
proof -
  have a: "lookup (w_sanctions (wl_watcher sample_watch_start)) (Some ''1A'') = Some sample_entry"
    by code_simp
  have b: "lookup (w_sanctions (wl_watcher sample_watch_start)) (Some ''1B'') = None"
    by code_simp
  show ?thesis
    by (simp add: match_tx_def sample_watch_tx_def prevout_def match_coin_def script_address_def a b match_vouts_def
        need_def bindA_def Let_def)
qed


lemma sample_fields:
  "wn_raw_tx (we_node sample_watch_env) n t b = Inr sample_watch_tx" "wn_mempool (we_node sample_watch_env) n = Inr [''t1'']"
  "wn_version (we_node sample_watch_env) n = Inr (Some 250000)" "wn_block_count (we_node sample_watch_env) n = Inr 1"
  "we_stop sample_watch_env n = False" "we_clock sample_watch_env n = 0" "we_now sample_watch_env n = ''now''"
  "we_order sample_watch_env n S = (if ''t1'' \<in> S then [''t1''] else [])" "we_arrivals sample_watch_env n = []"
  "we_stat sample_watch_env n p = Inr 0"
  by (simp_all add: sample_watch_env_def)

lemma check_new_Nil: "check_new e c src [] = ret True"
  by (subst check_new.simps) simp

lemma check_new_one:
  "check_new e c src [t] =
     bindA (look (we_stop e)) (\<lambda>stop. if stop then ret False
       else bindA (fetch_many e [t]) (\<lambda>fetched. thenA (forA fetched (\<lambda>(t, f). on_added e c t f src)) (ret True)))"
proof -
  have c: "take RECONCILE_CHUNK [t] = [t]" "drop RECONCILE_CHUNK [t] = []" by (simp_all add: RECONCILE_CHUNK_def)
  show ?thesis by (subst check_new.simps) (simp only: c list.simps if_False check_new_Nil)
qed

lemma sample_fetch:
  assumes "w_sanctions s = w_sanctions (wl_watcher sample_watch_start)"
  shows "fetch_many sample_watch_env [''t1''] s
     = (Inr [(''t1'', Some (sample_watch_tx, [match_row ''output'' 0 ''1A'' (Some (Dec 5 0)) sample_entry]))],
        s\<lparr>w_looks := w_looks s + 1\<rparr>)"
  using assms sample_match
  by (simp add: fetch_and_match_def bindA_def catchA_def get_raw_transaction_def ask_def sample_fields)

definition sample_watch_flagged :: flagged_tx where
  "sample_watch_flagged =
     \<lparr>fx_txid = ''t1'', fx_first_seen_at = ''now'', fx_first_seen_height = 1, fx_fee_btc = Some ''2'', fx_vsize = Some 110,
      fx_inputs = [(''t0'', 0)], fx_matches = [match_row ''output'' 0 ''1A'' (Some (Dec 5 0)) sample_entry],
      fx_status = In_mempool, fx_block_hash = None, fx_block_height = None\<rparr>"

lemma sample_added:
  assumes "w_flagged s = \<lparr>fs_entries = [], fs_file = None, fs_log = []\<rparr>" and "w_tip_height s = 1"
  shows "\<exists>s' rows. on_added sample_watch_env sample_watch_config ''t1''
       (Some (sample_watch_tx, [match_row ''output'' 0 ''1A'' (Some (Dec 5 0)) sample_entry])) src s = (Inr (), s') \<and>
     w_flagged s' = \<lparr>fs_entries = [(''t1'', sample_watch_flagged)], fs_file = Some (saved_store [(''t1'', sample_watch_flagged)]),
       fs_log = [Exported ''seen'' ''t1'' rows, Saved (saved_store [(''t1'', sample_watch_flagged)])]\<rparr> \<and>
     w_sanctions s' = w_sanctions s"
proof -
  have fee: "btc_str (rt_fee sample_watch_tx) = Some ''2''"
    by code_simp
  have "tx_inputs (rt_vin sample_watch_tx) = Inr [(''t0'', 0)]" "rt_vsize sample_watch_tx = Some 110"
    by (simp_all add: sample_watch_tx_def need_def)
  with assms fee show ?thesis
    by (simp add: on_added_def on_checked_def action_eval flagged_get_def sample_fields Let_def thenA_def bindA_def export_event_def
        look_def ask_def on_flagged_def flagged_put_def flagged_flush_def sample_watch_flagged_def)
qed

lemma sample_check_new:
  assumes "w_flagged s = \<lparr>fs_entries = [], fs_file = None, fs_log = []\<rparr>" and "w_tip_height s = 1"
    and "w_sanctions s = w_sanctions (wl_watcher sample_watch_start)"
  shows "\<exists>s' rows. check_new sample_watch_env sample_watch_config src [''t1''] s = (Inr True, s') \<and>
     w_flagged s' = \<lparr>fs_entries = [(''t1'', sample_watch_flagged)], fs_file = Some (saved_store [(''t1'', sample_watch_flagged)]),
       fs_log = [Exported ''seen'' ''t1'' rows, Saved (saved_store [(''t1'', sample_watch_flagged)])]\<rparr>"
  using assms sample_fetch [of "s\<lparr>w_looks := w_looks s + 1\<rparr>"] sample_added [of "s\<lparr>w_looks := Suc (Suc (w_looks s))\<rparr>" src]
  by (auto simp: check_new_one sample_fields thenA_def bindA_def look_def ask_def simp del: fetch_many.simps)

lemma sample_reconcile:
  assumes "w_flagged s = \<lparr>fs_entries = [], fs_file = None, fs_log = []\<rparr>" and "w_checked s = {}"
    and "w_sanctions s = w_sanctions (wl_watcher sample_watch_start)"
  shows "\<exists>s' rows. reconcile sample_watch_env sample_watch_config src s = (Inr (), s') \<and>
     w_flagged s' = \<lparr>fs_entries = [(''t1'', sample_watch_flagged)], fs_file = Some (saved_store [(''t1'', sample_watch_flagged)]),
       fs_log = [Exported ''seen'' ''t1'' rows, Saved (saved_store [(''t1'', sample_watch_flagged)])]\<rparr>"
proof -
  let ?s = "s\<lparr>w_tip_height := 1, w_looks := Suc (Suc (Suc (w_looks s))), w_checked := {}\<rparr>"
  obtain s' rows where s': "check_new sample_watch_env sample_watch_config src [''t1''] ?s = (Inr True, s')"
     "w_flagged s' = \<lparr>fs_entries = [(''t1'', sample_watch_flagged)], fs_file = Some (saved_store [(''t1'', sample_watch_flagged)]),
       fs_log = [Exported ''seen'' ''t1'' rows, Saved (saved_store [(''t1'', sample_watch_flagged)])]\<rparr>"
    using sample_check_new [of ?s src] assms by auto
  have "settle_left sample_watch_env sample_watch_config src (set [''t1'']) [sample_watch_flagged] [] s' = (Inr (), s')"
    by (simp add: sample_watch_flagged_def)
  moreover have "check_depth_of sample_watch_env sample_watch_config sample_watch_flagged s' = (Inr (), s')"
    by (simp add: check_depth_of_def sample_watch_flagged_def)
  ultimately show ?thesis
    using assms s'
    by (simp add: reconcile_def bindA_def [of "ask h" for h] ask_def sample_fields action_eval on_checked_def
        bindA_def [of "check_new a b c d" for a b c d] flagged_all_def check_confirmed_depth_def
        thenA_def [of "settle_left a b c d f g" for a b c d f g] bindA_def [of "settle_left a b c d f g" for a b c d f g]
        thenA_def [of "check_depth_of a b c" for a b c] bindA_def [of "check_depth_of a b c" for a b c] del: settle_left.simps)
qed

lemma sample_run:
  "\<exists>r s' rows. run_watch 1 sample_watch_env sample_watch_config sample_watch_start = (r, s') \<and>
     w_flagged (wl_watcher s') = \<lparr>fs_entries = [(''t1'', sample_watch_flagged)],
       fs_file = Some (saved_store [(''t1'', sample_watch_flagged)]),
       fs_log = [Exported ''seen'' ''t1'' rows, Saved (saved_store [(''t1'', sample_watch_flagged)])]\<rparr>"
proof -
  let ?w = "wl_watcher sample_watch_start\<lparr>w_looks := Suc (Suc (w_looks (wl_watcher sample_watch_start)))\<rparr>"
  have w: "w_flagged ?w = \<lparr>fs_entries = [], fs_file = None, fs_log = []\<rparr>" "w_checked ?w = {}"
      "w_sanctions ?w = w_sanctions (wl_watcher sample_watch_start)"
    by (simp_all add: sample_watch_start_def)
  obtain w' rows where w': "reconcile sample_watch_env sample_watch_config ''startup_scan'' ?w = (Inr (), w')"
     "w_flagged w' = \<lparr>fs_entries = [(''t1'', sample_watch_flagged)], fs_file = Some (saved_store [(''t1'', sample_watch_flagged)]),
       fs_log = [Exported ''seen'' ''t1'' rows, Saved (saved_store [(''t1'', sample_watch_flagged)])]\<rparr>"
    using sample_reconcile [OF w, of "''startup_scan''"] by auto
  have start: "wl_reconcile_due sample_watch_start" "wl_source sample_watch_start = ''startup_scan''"
      "wl_subscriber sample_watch_start = None"
    by (simp_all add: sample_watch_start_def)
  define r w'' where "r w2 = fst (reload_list sample_watch_env w2)" and "w'' w2 = snd (reload_list sample_watch_env w2)" for w2
  have re: "reload_list sample_watch_env w2 = (r w2, w'' w2)" for w2 by (simp add: r_def w''_def)
  have keep: "w_flagged (w'' w2) = w_flagged w2" for w2
    by (auto simp: w''_def reload_list_def Let_def split: prod.splits)
  show ?thesis
    using w' keep start
    by (cases "r (w'\<lparr>w_looks := Suc (Suc (w_looks w'))\<rparr>)")
      (auto simp: watch_pass_def watch_body_def catchA_def thenA_def bindA_def in_watcher_def
        look_def ask_def sample_fields reconcile_if_due_def warn_if_old_node_def re handle_batch_def take_batch_def
        take_gap_flag_def on_checked_def)
qed

text \<open>What the concrete run leaves, and that it is a run the properties speak about.\<close>

definition sample_watch_end :: watch_loop where
  "sample_watch_end = snd (run_watch 1 sample_watch_env sample_watch_config sample_watch_start)"

lemma sample_end: "run_watch 1 sample_watch_env sample_watch_config sample_watch_start
    = (fst (run_watch 1 sample_watch_env sample_watch_config sample_watch_start), sample_watch_end)"
  by (simp add: sample_watch_end_def)

lemma sample_end_flagged:
  "\<exists>rows. w_flagged (wl_watcher sample_watch_end) = \<lparr>fs_entries = [(''t1'', sample_watch_flagged)],
       fs_file = Some (saved_store [(''t1'', sample_watch_flagged)]),
       fs_log = [Exported ''seen'' ''t1'' rows, Saved (saved_store [(''t1'', sample_watch_flagged)])]\<rparr>"
  using sample_run by (auto simp: sample_watch_end_def)

lemma sample_keyed: "well_keyed (flagged_load None)"
  by (simp add: well_keyed_def flagged_load_def)

theorem events_follow_the_automaton_witness:
  "events_of ''t1'' (watch_log sample_watch_end) = [''seen''] \<and>
   (\<exists>st. stages Unknown (events_of ''t1'' (watch_log sample_watch_end)) = Some st \<and>
         agrees (tracked_of (fs_entries (w_flagged (wl_watcher sample_watch_end))) ''t1'') st)"
  using events_follow_the_automaton [OF sample_watch_init sample_keyed sample_end, of "''t1''"] sample_end_flagged
  by (auto simp: watch_log_def flagged_load_def tracked_of_def stage_of_def)

theorem crash_repeats_at_most_one_event_witness:
  "\<exists>rows ps u. [Exported ''seen'' ''t1'' rows] = ps @ u \<and> length u \<le> 1 \<and>
     life (tracked_of []) ps (tracked_of (flagged_load (last_saved None [Exported ''seen'' ''t1'' rows])))"
proof -
  obtain rows where l: "watch_log sample_watch_end =
      [Exported ''seen'' ''t1'' rows] @ [Saved (saved_store [(''t1'', sample_watch_flagged)])]"
    using sample_end_flagged by (auto simp: watch_log_def)
  from crash_repeats_at_most_one_event [OF sample_watch_init sample_keyed sample_end l] show ?thesis
    by (auto simp: flagged_load_def)
qed

theorem restart_exports_the_same_rows_witness:
  "map_option (\<lambda>x. (fx_status x, export_rows ''now'' ''removed'' x ''zmq'' None None))
      (map_of (flagged_load (fs_file (w_flagged (wl_watcher sample_watch_end)))) ''t1'')
   = Some (In_mempool, export_rows ''now'' ''removed'' sample_watch_flagged ''zmq'' None None)"
  using restart_exports_the_same_rows [OF sample_watch_init sample_keyed sample_end, of "''now''" "''removed''" "''zmq''" None None "''t1''"]
    sample_end_flagged
  by (auto simp: sample_watch_flagged_def)

end
