(* ===== verification/Mempool_Complete.thy ===== *)
theory Mempool_Complete
  imports Mempool_Life
begin

text \<open>
  What the watcher detects: the rows of a transaction whose inputs come with the outputs they spend are
  the listed ones and no others, and a reconciling pass that ends leaves no listed transaction of the
  mempool untracked. A batch of ZMQ events does not give as much: a transaction that leaves the
  mempool and comes back within one batch is dropped.
\<close>

section \<open>The rows of a transaction\<close>

text \<open>The reference: every coin whose address is listed, inputs first, in the order of the transaction.\<close>

definition listed_rows :: "sanctions_list \<Rightarrow> string \<Rightarrow> int \<Rightarrow> coin \<Rightarrow> row list" where
  "listed_rows sl direction index c =
     (case script_address (coin_script c) of
        None \<Rightarrow> []
      | Some a \<Rightarrow> (case lookup sl (Some a) of
          None \<Rightarrow> [] | Some entry \<Rightarrow> [match_row direction index a (coin_value c) entry]))"

definition listed_tx :: "sanctions_list \<Rightarrow> raw_tx \<Rightarrow> row list" where
  "listed_tx sl tx =
     concat (map (\<lambda>(i, vin). if wi_coinbase vin then [] else listed_rows sl ''input'' (int i) (the (wi_prevout vin)))
       (enumerate 0 (rt_vin tx))) @
     concat (map (\<lambda>o'. listed_rows sl ''output'' (the (wo_n o')) (wo_coin o')) (rt_vout tx))"

text \<open>What Bitcoin Core 25 and later answers: the spent output of every input, a number for every output.\<close>

definition full_tx :: "raw_tx \<Rightarrow> bool" where
  "full_tx tx \<longleftrightarrow> list_all (\<lambda>vin. wi_coinbase vin \<or> wi_prevout vin \<noteq> None) (rt_vin tx) \<and>
     list_all (\<lambda>o'. wo_n o' \<noteq> None) (rt_vout tx)"

lemma lookup_None [simp]: "lookup sl None = None"
  by (simp add: lookup_def)

lemma match_coin_listed: "match_coin sl d (Inr i) c = Inr (listed_rows sl d i c)"
  by (auto simp: match_coin_def listed_rows_def Let_def split: option.splits)

lemma match_vouts_listed:
  "list_all (\<lambda>o'. wo_n o' \<noteq> None) os \<Longrightarrow>
   match_vouts sl os = Inr (concat (map (\<lambda>o'. listed_rows sl ''output'' (the (wo_n o')) (wo_coin o')) os))"
proof -
  assume "list_all (\<lambda>o'. wo_n o' \<noteq> None) os"
  then have "mapE (\<lambda>o'. match_coin sl ''output'' (need ''n'' (wo_n o')) (wo_coin o')) os
      = Inr (map (\<lambda>o'. listed_rows sl ''output'' (the (wo_n o')) (wo_coin o')) os)"
    by (induction os) (auto simp: need_def match_coin_listed)
  then show ?thesis by (simp add: match_vouts_def)
qed

lemma match_vins_listed:
  "list_all (\<lambda>vin. wi_coinbase vin \<or> wi_prevout vin \<noteq> None) vins \<Longrightarrow>
   match_vins e sl (int i) vins s =
     (Inr (concat (map (\<lambda>(i, vin). if wi_coinbase vin then [] else listed_rows sl ''input'' (int i) (the (wi_prevout vin)))
        (enumerate i vins))), s)"
proof (induction vins arbitrary: i)
  case (Cons vin vins)
  from Cons.IH [of "Suc i"] Cons.prems show ?case
    by (auto simp: bindA_def prevout_def match_coin_listed add.commute)
qed (simp add: enumerate_simps)

lemma match_tx_full: "full_tx tx \<Longrightarrow> match_tx e sl tx s = (Inr (listed_tx sl tx), s)"
  using match_vins_listed [of "rt_vin tx" e sl 0 s]
  by (simp add: full_tx_def match_tx_def listed_tx_def match_vouts_listed bindA_def)

lemma sample_full: "full_tx sample_watch_tx"
  by (simp add: full_tx_def sample_watch_tx_def)



lemma sample_listed: "listed_tx (w_sanctions (wl_watcher sample_watch_start)) sample_watch_tx
    = [match_row ''output'' 0 ''1A'' (Some (Dec 5 0)) sample_entry]"
  using match_tx_full [OF sample_full] sample_match by (metis Pair_inject sum.inject(2))

section \<open>Reconciling finds every listed transaction\<close>

text \<open>The transaction \<open>t\<close> is tracked as it was found.\<close>

definition recorded :: "string \<Rightarrow> row list \<Rightarrow> watcher \<Rightarrow> bool" where
  "recorded t ms s \<longleftrightarrow> (\<exists>x. flag s t = Some x \<and> fx_matches x = ms \<and> fx_status x = In_mempool)"

lemma keeps_conj: "keeps P m \<Longrightarrow> keeps Q m \<Longrightarrow> keeps (\<lambda>s. P s \<and> Q s) m"
  by (simp add: keeps_def)

lemma recorded_leaves: "leaves m \<Longrightarrow> keeps (\<lambda>s. good S f s \<and> recorded t ms s \<and> w_sanctions s = sl) m"
  using leaves_keeps_both [of m "\<lambda>st sl'. good_flagged S f st \<and>
      (\<exists>x. map_of (fs_entries st) t = Some x \<and> fx_matches x = ms \<and> fx_status x = In_mempool) \<and> sl' = sl"]
  by (simp add: keeps_def good_def recorded_def flag_def)

text \<open>A snapshot with \<open>t\<close> recorded: an operation on another entry leaves it so, on its own it does nothing.\<close>

lemma recorded_step:
  assumes m: "entry_op S f y m" and d: "fx_txid y \<notin> fx_txid ` set es"
    and own: "fx_txid y = t \<and> fx_status y = In_mempool \<Longrightarrow> m = ret ()"
  shows "triple (\<lambda>s. snapshot S f (y # es) s \<and> recorded t ms s) m
    (\<lambda>_ s. snapshot S f es s \<and> recorded t ms s) (\<lambda>_. True)"
proof (rule tripleI)
  fix s r s' assume s: "snapshot S f (y # es) s \<and> recorded t ms s" and run: "m s = (Inr r, s')"
  have snap: "snapshot S f es s'" using triple_Inr [OF snapshot_step [OF m d] _ run] s by simp
  have "recorded t ms s'"
  proof (cases "fx_txid y = t")
    case True
    with s have "fx_status y = In_mempool" by (auto simp: snapshot_def recorded_def)
    with own True run s show ?thesis by simp
  next
    case False
    from m s have "triple (\<lambda>s'. good S f s' \<and> flag s' = flag s) m
        (\<lambda>_ s'. good S f s' \<and> (\<forall>u. u \<noteq> fx_txid y \<longrightarrow> flag s' u = flag s u)) (good S f)"
      by (simp add: entry_op_def snapshot_def)
    from triple_Inr [OF this _ run] s False have "flag s' t = flag s t" by (auto simp: snapshot_def)
    with s show ?thesis by (simp add: recorded_def)
  qed
  with snap show "snapshot S f es s' \<and> recorded t ms s'" ..
qed simp

lemma recorded_forA:
  assumes "\<And>y. entry_op S f y (body y)" and "\<And>y. fx_txid y = t \<and> fx_status y = In_mempool \<Longrightarrow> body y = ret ()"
    and "distinct (map fx_txid es)"
  shows "triple (\<lambda>s. snapshot S f es s \<and> recorded t ms s) (forA es body) (\<lambda>_. recorded t ms) (\<lambda>_. True)"
  using assms(3)
proof (induction es)
  case Nil
  show ?case by (simp add: triple_def)
next
  case (Cons y es)
  then have "fx_txid y \<notin> fx_txid ` set es" by auto
  from recorded_step [OF assms(1) this assms(2), where ms = ms] Cons show ?case
    by (auto intro: triple_then)
qed

lemma recorded_depth:
  "triple (\<lambda>s. good S f s \<and> recorded t ms s) (check_confirmed_depth e c) (\<lambda>_. recorded t ms) (\<lambda>_. True)"
proof (rule tripleI)
  fix s r s' assume s: "good S f s \<and> recorded t ms s" and run: "check_confirmed_depth e c s = (Inr r, s')"
  have own: "check_depth_of e c y = ret ()" if "fx_txid y = t \<and> fx_status y = In_mempool" for y
    using that by (simp add: check_depth_of_def split: option.splits)
  have "triple (\<lambda>s'. snapshot S f (flagged_all (w_flagged s)) s' \<and> recorded t ms s')
      (forA (flagged_all (w_flagged s)) (check_depth_of e c)) (\<lambda>_. recorded t ms) (\<lambda>_. True)"
    using own s snapshot_all by (intro recorded_forA entry_depth) auto
  moreover have "forA (flagged_all (w_flagged s)) (check_depth_of e c) s = (Inr r, s')"
    using run by (simp add: check_confirmed_depth_def bindA_def)
  ultimately show "recorded t ms s'"
    using s snapshot_all [of S f s] triple_Inr by fastforce
qed simp

lemma recorded_settle:
  "t \<in> mp \<Longrightarrow> distinct (map fx_txid es) \<Longrightarrow>
   triple (\<lambda>s. snapshot S f es s \<and> recorded t ms s) (settle_left e c src mp es cache) (\<lambda>_ s. good S f s \<and> recorded t ms s) (\<lambda>_. True)"
proof (induction es arbitrary: cache)
  case Nil
  show ?case by (simp add: triple_def snapshot_def)
next
  case (Cons y es)
  show ?case
  proof (cases "fx_status y \<noteq> In_mempool \<or> fx_txid y \<in> mp")
    case True
    with Cons have "triple (\<lambda>s. snapshot S f es s \<and> recorded t ms s) (settle_left e c src mp (y # es) cache)
        (\<lambda>_ s. good S f s \<and> recorded t ms s) (\<lambda>_. True)" by simp
    then show ?thesis by (rule triple_weaken) (auto simp: snapshot_def)
  next
    case False
    then have t: "fx_txid y \<noteq> t" using Cons.prems by auto
    let ?settle = "\<lambda>found. case found of Some (b, h) \<Rightarrow> mark_confirmed e c y b h src
                | None \<Rightarrow> on_left_unmined e c y src ''left_mempool_unobserved''"
    have "entry_op S f y (?settle found)" for found
      using False by (auto intro: entry_confirmed entry_left split: option.splits)
    then have "triple (\<lambda>s. snapshot S f (y # es) s \<and> recorded t ms s) (?settle found)
        (\<lambda>_ s. snapshot S f es s \<and> recorded t ms s) (\<lambda>_. True)" for found
      using t Cons.prems by (intro recorded_step) auto
    then have rest: "triple (\<lambda>s. snapshot S f (y # es) s \<and> recorded t ms s)
        (thenA (?settle found) (settle_left e c src mp es cache')) (\<lambda>_ s. good S f s \<and> recorded t ms s) (\<lambda>_. True)" for found cache'
      using Cons by (intro triple_then) auto
    have "keeps (\<lambda>s. snapshot S f (y # es) s \<and> recorded t ms s) (find_confirming_block e c y cache)"
      by (intro keeps_conj leaves_snapshot keeps_intros)
        (use leaves_keeps [OF leaves_find_block, of "\<lambda>st. \<exists>x. map_of (fs_entries st) t = Some x \<and> fx_matches x = ms \<and> fx_status x = In_mempool"]
          in \<open>simp add: keeps_def recorded_def flag_def\<close>)
    then have "triple (\<lambda>s. snapshot S f (y # es) s \<and> recorded t ms s) (find_confirming_block e c y cache)
        (\<lambda>_ s. snapshot S f (y # es) s \<and> recorded t ms s) (\<lambda>_. True)"
      by (rule triple_keeps) simp
    with False rest show ?thesis by (auto intro!: triple_bind)
  qed
qed

text \<open>\<open>t\<close> is recorded already, or is still to come among the transactions that are checked.\<close>

definition found_or_due :: "string \<Rightarrow> row list \<Rightarrow> string list \<Rightarrow> watcher \<Rightarrow> bool" where
  "found_or_due t ms new s \<longleftrightarrow> recorded t ms s \<or> flag s t = None \<and> t \<in> set new"

lemma fetch_many_answers:
  assumes raw: "\<And>n. wn_raw_tx (we_node e) n t None = Inr tx" and full: "full_tx tx"
    and run: "fetch_many e ts s = (Inr fs, s')"
  shows "map fst fs = ts \<and> (\<forall>r. (t, r) \<in> set fs \<longrightarrow> r = Some (tx, listed_tx (w_sanctions s) tx)) \<and>
         w_flagged s' = w_flagged s \<and> w_sanctions s' = w_sanctions s"
  using run
proof (induction ts arbitrary: s fs s')
  case Nil
  then show ?case by simp
next
  case (Cons u ts)
  from Cons.prems obtain r s1 fs' where r: "fetch_and_match e u None s = (Inr r, s1)"
    and fs': "fetch_many e ts s1 = (Inr fs', s')" and fs: "fs = (u, r) # fs'"
    by (auto simp: bindA_def split: prod.splits sum.splits)
  have same: "w_flagged s1 = w_flagged s \<and> w_sanctions s1 = w_sanctions s"
    using keepsD [OF leaves_keeps_both [OF leaves_fetch], of "\<lambda>st sl. st = w_flagged s \<and> sl = w_sanctions s" s e u None] r
    by simp
  have "r = Some (tx, listed_tx (w_sanctions s) tx)" if "u = t"
    using r that match_tx_full [OF full]
    by (auto simp: fetch_and_match_def bindA_def catchA_def get_raw_transaction_def ask_def raw)
  with Cons.IH [OF fs'] same fs show ?case by auto
qed

lemma added_due:
  assumes "list_all (\<lambda>(u, r). u = t \<longrightarrow> r = Some (tx, ms)) fs" and "ms \<noteq> []"
  shows "triple (\<lambda>s. good S f s \<and> w_sanctions s = sl \<and> found_or_due t ms (map fst fs @ later) s)
    (forA fs (\<lambda>(u, r). on_added e c u r src))
    (\<lambda>_ s. good S f s \<and> w_sanctions s = sl \<and> found_or_due t ms later s) (\<lambda>_. True)"
  using assms(1)
proof (induction fs)
  case Nil
  show ?case by (simp add: triple_def)
next
  case (Cons p fs)
  obtain u r where p: "p = (u, r)" by force
  have "triple (\<lambda>s. good S f s \<and> w_sanctions s = sl \<and> found_or_due t ms (u # map fst fs @ later) s)
      (on_added e c u r src)
      (\<lambda>_ s. good S f s \<and> w_sanctions s = sl \<and> found_or_due t ms (map fst fs @ later) s) (\<lambda>_. True)"
  proof (rule tripleI)
    fix s x s' assume s: "good S f s \<and> w_sanctions s = sl \<and> found_or_due t ms (u # map fst fs @ later) s"
      and run: "on_added e c u r src s = (Inr x, s')"
    from s have "good S f s" by simp
    then show "good S f s' \<and> w_sanctions s' = sl \<and> found_or_due t ms (map fst fs @ later) s'"
    proof (cases rule: added_result [where e = e and c = c and t = u and ft = r and src = src])
      case (kept r' s'')
      have "u = t \<Longrightarrow> flag s t \<noteq> None" using kept(1,5) run Cons.prems p assms(2) by auto
      with kept run s show ?thesis by (auto simp: found_or_due_def recorded_def)
    next
      case (recorded y s'')
      with run s Cons.prems p show ?thesis by (auto simp: found_or_due_def recorded_def)
    qed
  qed simp
  with Cons p show ?case by (auto intro!: triple_then)
qed

lemma fetch_due:
  assumes raw: "\<And>n. wn_raw_tx (we_node e) n t None = Inr tx" and full: "full_tx tx"
  shows "triple (\<lambda>s. good S f s \<and> w_sanctions s = sl \<and> found_or_due t ms new s) (fetch_many e ts)
    (\<lambda>fs s. (good S f s \<and> w_sanctions s = sl \<and> found_or_due t ms new s) \<and>
       map fst fs = ts \<and> list_all (\<lambda>(u, r). u = t \<longrightarrow> r = Some (tx, listed_tx sl tx)) fs) (\<lambda>_. True)"
proof (rule tripleI)
  fix s fs s' assume s: "good S f s \<and> w_sanctions s = sl \<and> found_or_due t ms new s"
    and run: "fetch_many e ts s = (Inr fs, s')"
  have a: "map fst fs = ts" "\<forall>r. (t, r) \<in> set fs \<longrightarrow> r = Some (tx, listed_tx sl tx)"
      "w_flagged s' = w_flagged s" "w_sanctions s' = w_sanctions s"
    using fetch_many_answers [OF raw full run] s by simp_all
  then have "good S f s' = good S f s" "flag s' = flag s" by (simp_all add: good_def flag_def fun_eq_iff)
  with a s show "(good S f s' \<and> w_sanctions s' = sl \<and> found_or_due t ms new s') \<and>
       map fst fs = ts \<and> list_all (\<lambda>(u, r). u = t \<longrightarrow> r = Some (tx, listed_tx sl tx)) fs"
    by (auto simp: found_or_due_def recorded_def list_all_iff)
qed simp

lemma check_new_due:
  assumes raw: "\<And>n. wn_raw_tx (we_node e) n t None = Inr tx" and full: "full_tx tx"
    and ms: "listed_tx sl tx = ms" "ms \<noteq> []" and stop: "\<And>n. \<not> we_stop e n"
  shows "triple (\<lambda>s. good S f s \<and> w_sanctions s = sl \<and> found_or_due t ms new s) (check_new e c src new)
    (\<lambda>b s. b \<and> good S f s \<and> recorded t ms s) (\<lambda>_. True)"
proof (induction new rule: length_induct)
  case (1 new)
  show ?case
  proof (cases "new = []")
    case True
    then show ?thesis by (auto simp: check_new.simps [of e c src "[]"] triple_def found_or_due_def)
  next
    case False
    let ?P = "\<lambda>new s. good S f s \<and> w_sanctions s = sl \<and> found_or_due t ms new s"
    let ?now = "take RECONCILE_CHUNK new" and ?later = "drop RECONCILE_CHUNK new"
    have "length ?later < length new" using False by (simp add: RECONCILE_CHUNK_def)
    then have ih: "triple (?P ?later) (check_new e c src ?later) (\<lambda>b s. b \<and> good S f s \<and> recorded t ms s) (\<lambda>_. True)"
      using 1 by blast
    have "triple (?P new) (fetch_many e ?now) (\<lambda>fs s. ?P new s \<and> map fst fs = ?now \<and>
        list_all (\<lambda>(u, r). u = t \<longrightarrow> r = Some (tx, listed_tx sl tx)) fs) (\<lambda>_. True)"
      by (rule fetch_due [OF raw full])
    moreover have "triple (\<lambda>s. ?P new s \<and> map fst fs = ?now \<and>
        list_all (\<lambda>(u, r). u = t \<longrightarrow> r = Some (tx, listed_tx sl tx)) fs)
        (thenA (forA fs (\<lambda>(u, r). on_added e c u r src)) (check_new e c src ?later))
        (\<lambda>b s. b \<and> good S f s \<and> recorded t ms s) (\<lambda>_. True)" for fs
    proof (intro triple_cond triple_then)
      assume fs: "map fst fs = ?now \<and> list_all (\<lambda>(u, r). u = t \<longrightarrow> r = Some (tx, listed_tx sl tx)) fs"
      then have new: "map fst fs @ ?later = new" by simp
      show "triple (?P new) (forA fs (\<lambda>(u, r). on_added e c u r src)) (\<lambda>_. ?P ?later) (\<lambda>_. True)"
        using added_due [of t tx ms fs S f sl ?later e c src] fs ms unfolding new by simp
    qed (rule ih)
    ultimately have body: "triple (?P new) (bindA (fetch_many e ?now) (\<lambda>fs.
        thenA (forA fs (\<lambda>(u, r). on_added e c u r src)) (check_new e c src ?later)))
        (\<lambda>b s. b \<and> good S f s \<and> recorded t ms s) (\<lambda>_. True)"
      by (rule triple_bind)
    have look: "triple (?P new) (look (we_stop e)) (\<lambda>stop s. ?P new s \<and> \<not> stop) (\<lambda>_. True)"
      using stop by (auto simp: triple_def look_def ask_def good_def found_or_due_def recorded_def flag_def)
    show ?thesis
      by (subst check_new.simps) (use False body in \<open>auto intro!: triple_bind [OF look] triple_cond\<close>)
  qed
qed

text \<open>
  C12. Detection is complete: when a reconciling pass ends without an error or a stop, a transaction of
  the mempool that the watcher had neither checked nor tracked, that the node serves in full and that
  has a listed input or output, is tracked with exactly its listed rows (and so was exported as seen,
  by the automaton above), however the rest of the mempool and the chain look.
\<close>

theorem reconcile_tracks_listed:
  assumes "good S f s" and "reconcile e c src s = (Inr (), s')" and "\<And>n. \<not> we_stop e n"
    and "\<And>n. set (we_order e n (set txids - w_checked s)) = set txids - w_checked s"
    and "\<And>n. wn_mempool (we_node e) n = Inr txids" and "t \<in> set txids"
    and "\<And>n. wn_raw_tx (we_node e) n t None = Inr tx" and "full_tx tx" and "listed_tx (w_sanctions s) tx \<noteq> []"
    and "t \<notin> w_checked s" and "flag s t = None"
  shows "recorded t (listed_tx (w_sanctions s) tx) s'"
proof -
  let ?sl = "w_sanctions s" and ?ms = "listed_tx (w_sanctions s) tx"
  obtain tip where tip: "wn_block_count (we_node e) (Suc (w_looks s)) = Inr tip"
    using assms(2,5)
    by (cases "wn_block_count (we_node e) (Suc (w_looks s))") (auto simp: reconcile_def bindA_def [of "ask h" for h] ask_def)
  define new where "new = we_order e (Suc (Suc (w_looks s))) (set txids - w_checked s)"
  define s1 where "s1 = s\<lparr>w_tip_height := tip, w_looks := Suc (Suc (Suc (w_looks s))), w_checked := w_checked s \<inter> set txids\<rparr>"
  have new: "t \<in> set new" using assms(4,6,10) by (simp add: new_def)
  have s1: "good S f s1" "w_sanctions s1 = ?sl" "flag s1 = flag s"
    using assms(1) by (simp_all add: s1_def good_def flag_def fun_eq_iff)
  have run: "bindA (check_new e c src new) (\<lambda>finished. if \<not> finished then ret ()
         else bindA (getA (\<lambda>s. flagged_all (w_flagged s))) (\<lambda>entries.
           thenA (settle_left e c src (set txids) entries []) (check_confirmed_depth e c))) s1 = (Inr (), s')"
    using assms(2,5) tip
    by (simp add: reconcile_def bindA_def [of "ask h" for h] ask_def on_checked_def action_eval new_def s1_def)
  have due: "triple (\<lambda>s. good S f s \<and> w_sanctions s = ?sl \<and> found_or_due t ?ms new s) (check_new e c src new)
    (\<lambda>b s. b \<and> good S f s \<and> recorded t ?ms s) (\<lambda>_. True)"
    using assms by (intro check_new_due) auto
  have settle: "triple (\<lambda>s. b \<and> good S f s \<and> recorded t ?ms s)
     (if \<not> b then ret () else bindA (getA (\<lambda>s. flagged_all (w_flagged s))) (\<lambda>entries.
           thenA (settle_left e c src (set txids) entries []) (check_confirmed_depth e c)))
     (\<lambda>_. recorded t ?ms) (\<lambda>_. True)" for b
  proof (rule tripleI)
    fix u r u' assume u: "b \<and> good S f u \<and> recorded t ?ms u"
      and r: "(if \<not> b then ret () else bindA (getA (\<lambda>s. flagged_all (w_flagged s))) (\<lambda>entries.
           thenA (settle_left e c src (set txids) entries []) (check_confirmed_depth e c))) u = (Inr r, u')"
    have "triple (\<lambda>s. snapshot S f (flagged_all (w_flagged u)) s \<and> recorded t ?ms s)
        (thenA (settle_left e c src (set txids) (flagged_all (w_flagged u)) []) (check_confirmed_depth e c))
        (\<lambda>_. recorded t ?ms) (\<lambda>_. True)"
      using u snapshot_all assms(6) by (intro triple_then [OF recorded_settle] recorded_depth) auto
    moreover have "thenA (settle_left e c src (set txids) (flagged_all (w_flagged u)) []) (check_confirmed_depth e c) u = (Inr r, u')"
      using r u by (simp add: action_eval)
    ultimately show "recorded t ?ms u'" using u snapshot_all [of S f u] triple_Inr by fastforce
  qed simp
  have "found_or_due t ?ms new s1" using new s1(3) assms(11) by (simp add: found_or_due_def)
  then show ?thesis using triple_Inr [OF triple_bind [OF due settle] _ run] s1 by simp
qed

theorem reconcile_tracks_listed_witness:
  "\<exists>s'. reconcile sample_watch_env sample_watch_config ''startup_scan'' (wl_watcher sample_watch_start) = (Inr (), s') \<and>
        recorded ''t1'' [match_row ''output'' 0 ''1A'' (Some (Dec 5 0)) sample_entry] s'"
proof -
  let ?s = "wl_watcher sample_watch_start"
  have fields: "w_flagged ?s = \<lparr>fs_entries = [], fs_file = None, fs_log = []\<rparr>" "w_checked ?s = {}"
      "flag ?s ''t1'' = None" "''t1'' \<notin> w_checked ?s"
    by (simp_all add: sample_watch_start_def flag_def)
  obtain s' where run: "reconcile sample_watch_env sample_watch_config ''startup_scan'' ?s = (Inr (), s')"
    using sample_reconcile [OF fields(1,2) refl] by blast
  have g: "good (tracked_of (flagged_load None)) None ?s"
    using good_init [OF sample_watch_init sample_keyed] .
  have nonempty: "listed_tx (w_sanctions ?s) sample_watch_tx \<noteq> []" by (simp add: sample_listed)
  have "recorded ''t1'' (listed_tx (w_sanctions ?s) sample_watch_tx) s'"
    by (rule reconcile_tracks_listed [OF g run, where txids = "[''t1'']", OF _ _ _ _ _ sample_full nonempty fields(4,3)])
      (simp_all add: sample_fields fields)
  with run show ?thesis by (simp add: sample_listed)
qed

section \<open>A transaction that comes back within one batch\<close>

text \<open>
  The batch fetches what its A events add, except what was checked before it. A transaction that is
  removed and added again within one batch was checked before, so it is removed, and its return is
  skipped; it stays untracked until the next reconciling pass, although it is in the mempool.
\<close>

definition event_of :: "char \<Rightarrow> string \<Rightarrow> sequence_event" where
  "event_of label h = \<lparr>ev_label = label, ev_hash = h, ev_mempool_sequence = None\<rparr>"

definition sample_tracking :: watcher where
  "sample_tracking = (wl_watcher sample_watch_start)\<lparr>w_checked := {''t1''},
     w_flagged := \<lparr>fs_entries = [(''t1'', sample_watch_flagged)],
       fs_file = Some (saved_store [(''t1'', sample_watch_flagged)]), fs_log = []\<rparr>\<rparr>"

definition sample_batch :: "sequence_event list" where
  "sample_batch = [event_of (CHR ''R'') ''t1'', event_of (CHR ''A'') ''t1'']"

text \<open>
  Read as the events come, a removal and a return in one batch should leave the transaction
  tracked and seen again. The watcher exports only the removal: afterwards the transaction is
  neither tracked nor checked, while the node still has it in the mempool.
\<close>

theorem return_within_a_batch_is_dropped:
  "case handle_events sample_watch_env sample_watch_config sample_batch sample_tracking of
     (r, s') \<Rightarrow> r = Inr () \<and> events_of ''t1'' (fs_log (w_flagged s')) = [''removed''] \<and>
               flag s' ''t1'' = None \<and> ''t1'' \<notin> w_checked s' \<and>
               wn_mempool (we_node sample_watch_env) (w_looks s') = Inr [''t1'']"
proof -
  have entry: "fx_inputs sample_watch_flagged = [(''t0'', 0)]" "fx_txid sample_watch_flagged = ''t1''"
      "fx_status sample_watch_flagged = In_mempool"
    by (simp_all add: sample_watch_flagged_def)
  have spend: "wn_spending (we_node sample_watch_env) n ins = Inr []" for n ins
    by (simp add: sample_watch_env_def)
  show ?thesis
    by (simp add: handle_events_def sample_batch_def event_of_def sample_tracking_def sample_fields action_eval
        handle_event_def on_removed_def on_left_unmined_def replacement_def entry spend catchA_def bindA_def thenA_def ask_def
        on_checked_def on_unfetched_def flagged_get_def export_event_def look_def on_flagged_def flagged_remove_def
        flagged_flush_def Let_def flag_def first_other_def)
qed

end
