(* ===== verification/Block_Header.thy ===== *)
theory Block_Header
  imports Block_Parser Sanctions_List Zmq_Sequence
begin

text \<open>
  btc_parser_app/common/block_header.py: the 80 bytes of a block header and their hash. SHA-256 is a
  function on bytes, the parameter \<open>sha\<close>; nothing is assumed of it.
\<close>

section \<open>Hexadecimal texts\<close>

definition ascii_space :: "char \<Rightarrow> bool" where
  "ascii_space c \<longleftrightarrow> of_char c \<in> {9, 10, 11, 12, 13, 32 :: nat}"

text \<open>\<open>bytes.fromhex\<close>: blanks between the bytes are skipped.\<close>

fun fromhex :: "string \<Rightarrow> exn + bytes" where
  "fromhex [] = Inr []"
| "fromhex [c] = (if ascii_space c then Inr [] else Inl (ValueError ''non-hexadecimal number found in fromhex()''))"
| "fromhex (c # d # cs) =
     (if ascii_space c then fromhex (d # cs)
      else case (hex_val c, hex_val d) of
             (Some a, Some b) \<Rightarrow> bindE (fromhex cs) (\<lambda>bs. Inr (word_of_nat (16 * a + b) # bs))
           | _ \<Rightarrow> Inl (ValueError ''non-hexadecimal number found in fromhex()''))"

section \<open>The header\<close>

definition HEADER_LENGTH_BYTES :: nat where
  "HEADER_LENGTH_BYTES = 80"

definition double_sha256 :: "(bytes \<Rightarrow> bytes) \<Rightarrow> bytes \<Rightarrow> bytes" where
  "double_sha256 sha bs = sha (sha bs)"

text \<open>\<open>HeaderParseError\<close> is a ValueError.\<close>

definition header_raw :: "string \<Rightarrow> exn + bytes" where
  "header_raw header_hex =
     bindE (fromhex header_hex) (\<lambda>raw.
       if length raw \<noteq> HEADER_LENGTH_BYTES then Inl (ValueError ''expected 80-byte header'') else Inr raw)"

definition header_hash :: "(bytes \<Rightarrow> bytes) \<Rightarrow> string \<Rightarrow> exn + string" where
  "header_hash sha header_hex = bindE (header_raw header_hex) (\<lambda>raw. Inr (hex (rev (double_sha256 sha raw))))"

definition validate_header_hash :: "(bytes \<Rightarrow> bytes) \<Rightarrow> string option \<Rightarrow> string \<Rightarrow> bool" where
  "validate_header_hash sha header_hex claimed_hash =
     (case header_hex of
        None \<Rightarrow> False
      | Some h \<Rightarrow>
          if h = '''' then False
          else (case header_hash sha h of Inl x \<Rightarrow> False | Inr b \<Rightarrow> b = lower claimed_hash))"

text \<open>\<open>struct.unpack_from("<i" / "<I", raw, k)\<close>.\<close>

definition le_word32 :: "bytes \<Rightarrow> nat \<Rightarrow> 32 word" where
  "le_word32 raw k = word_of_nat (le_nat (take 4 (drop k raw)))"

text \<open>The format \<open>:08x\<close> of a 32-bit number.\<close>

fun hex_digits :: "nat \<Rightarrow> nat \<Rightarrow> string" where
  "hex_digits 0 n = []"
| "hex_digits (Suc k) n = hex_digits k (n div 16) @ [hex_digit (n mod 16)]"

definition parse_header :: "string \<Rightarrow> exn + row" where
  "parse_header header_hex =
     bindE (header_raw header_hex) (\<lambda>raw. Inr
       [(''version'', CInt (sint (le_word32 raw 0))),
        (''previousblockhash'', CStr (hex (rev (take 32 (drop 4 raw))))),
        (''merkleroot'', CStr (hex (rev (take 32 (drop 36 raw))))),
        (''time'', CInt (uint (le_word32 raw 68))),
        (''bits'', CStr (hex_digits 8 (unat (le_word32 raw 72)))),
        (''nonce'', CInt (uint (le_word32 raw 76)))])"

section \<open>Headers are read back\<close>

text \<open>The layout of the 80 bytes: the hashes in the order of the wire, opposite to their display.\<close>

definition header_bytes :: "32 word \<Rightarrow> bytes \<Rightarrow> bytes \<Rightarrow> 32 word \<Rightarrow> 32 word \<Rightarrow> 32 word \<Rightarrow> bytes" where
  "header_bytes version prev merkle time nbits nonce =
     le_bytes 4 (unat version) @ rev prev @ rev merkle @ le_bytes 4 (unat time) @ le_bytes 4 (unat nbits) @ le_bytes 4 (unat nonce)"

lemma hex_val_digit: "d < 16 \<Longrightarrow> hex_val (hex_digit d) = Some d \<and> \<not> ascii_space (hex_digit d)"
  by (auto simp: hex_val_def hex_digit_def ascii_space_def of_char_of)

lemma fromhex_hex: "fromhex (hex bs) = Inr bs"
proof (induction bs)
  case (Cons b bs)
  have b: "unat b < 256" using unsigned_less [of b] by simp
  then have d: "unat b div 16 < 16" "unat b mod 16 < 16" by auto
  with Cons hex_val_digit [OF d(1)] hex_val_digit [OF d(2)] show ?case by (simp add: hex_def)
qed (simp add: hex_def)

lemma le_word32_le_bytes: "le_word32 (p @ le_bytes 4 (unat w) @ q) (length p) = w"
proof -
  have "unat w < 2 ^ 32" using unsigned_less [of w] by simp
  then show ?thesis by (simp add: le_word32_def le_nat_le_bytes)
qed

text \<open>
  C35. Every header is parsed back from its 80 bytes in hexadecimal: a signed version, the two hashes in
  display order, the three unsigned numbers, for all their 32-bit values.
\<close>

theorem parse_header_roundtrip:
  assumes "length prev = 32" and "length merkle = 32"
  shows "parse_header (hex (header_bytes version prev merkle time nbits nonce))
         = Inr [(''version'', CInt (sint version)), (''previousblockhash'', CStr (hex prev)),
                (''merkleroot'', CStr (hex merkle)), (''time'', CInt (uint time)),
                (''bits'', CStr (hex_digits 8 (unat nbits))), (''nonce'', CInt (uint nonce))]"
proof -
  let ?r = "header_bytes version prev merkle time nbits nonce"
  have "le_word32 ?r 0 = version" "le_word32 ?r 68 = time" "le_word32 ?r 72 = nbits" "le_word32 ?r 76 = nonce"
    using assms le_word32_le_bytes [of "[]" version]
      le_word32_le_bytes [of "le_bytes 4 (unat version) @ rev prev @ rev merkle" time]
      le_word32_le_bytes [of "le_bytes 4 (unat version) @ rev prev @ rev merkle @ le_bytes 4 (unat time)" nbits]
      le_word32_le_bytes [of "le_bytes 4 (unat version) @ rev prev @ rev merkle @ le_bytes 4 (unat time) @ le_bytes 4 (unat nbits)" nonce "[]"]
    by (simp_all add: header_bytes_def)
  moreover have "length ?r = 80" "take 32 (drop 4 ?r) = rev prev" "take 32 (drop 36 ?r) = rev merkle"
    using assms by (simp_all add: header_bytes_def)
  ultimately show ?thesis by (simp add: parse_header_def header_raw_def fromhex_hex HEADER_LENGTH_BYTES_def)
qed

theorem parse_header_roundtrip_witness:
  "parse_header (hex (header_bytes (- 1) (replicate 32 0) (replicate 32 1) 5 6 (- 1)))
   = Inr [(''version'', CInt (- 1)), (''previousblockhash'', CStr (hex (replicate 32 0))),
          (''merkleroot'', CStr (hex (replicate 32 1))), (''time'', CInt 5),
          (''bits'', CStr (hex_digits 8 6)), (''nonce'', CInt 4294967295)]"
  using parse_header_roundtrip [of "replicate 32 0" "replicate 32 1" "- 1" 5 6 "- 1"]
  by (simp add: unsigned_minus_1_eq_mask mask_eq_exp_minus_1)

end
