(* ===== verification/Stale_Blocks.thy ===== *)
theory Stale_Blocks
  imports Block_Header Reorg_State
begin

text \<open>
  btc_parser_app/rpc/stale_blocks.py, stale_blocks_state.py and stale_blocks_github.py: headers of
  blocks off the main chain, from the node's chain tips and from a public data set, kept in a
  registry and exported once for every status they reach. The node, the data set, the clocks and the
  stop signal are oracles of the number of the question.
\<close>

section \<open>The registry\<close>

definition UNUSABLE :: string where
  "UNUSABLE = ''unusable''"

definition HEADER_ONLY :: string where
  "HEADER_ONLY = ''header_only''"

text \<open>\<open>_STATUS_RANK[s]\<close>.\<close>

definition status_rank :: "string \<Rightarrow> exn + nat" where
  "status_rank s = (if s = UNUSABLE then Inr 0 else if s = HEADER_ONLY then Inr 1 else Inl (KeyError s))"

record stale_entry =
  se_height :: int
  se_blockhash :: string
  se_status :: string
  se_header_hex :: "string option"
  se_header_valid :: "bool option"
  se_source :: string
  se_chaintip_status :: "string option"
  se_branchlen :: "int option"
  se_first_seen :: string
  se_last_exported :: "string option"

record registry =
  rg_path :: path
  rg_entries :: "(string, stale_entry) pydict"
  rg_dirty :: bool

text \<open>\<open>row[k] or None\<close> of a text column.\<close>

definition text_or_none :: "(rat \<Rightarrow> string) \<Rightarrow> cell \<Rightarrow> string option" where
  "text_or_none ft c = (if py_bool c then Some (py_str ft c) else None)"

definition not_null :: "(cell \<Rightarrow> exn + 'a) \<Rightarrow> cell \<Rightarrow> exn + 'a option" where
  "not_null f c = (if c = CNull then Inr None else bindE (f c) (\<lambda>x. Inr (Some x)))"

definition registry_row :: "(rat \<Rightarrow> string) \<Rightarrow> row \<Rightarrow> exn + stale_entry" where
  "registry_row ft r =
     bindE (bindE (row_get r ''height'') py_int) (\<lambda>height.
     bindE (row_get r ''blockhash'') (\<lambda>blockhash.
     bindE (row_get r ''status'') (\<lambda>status.
     bindE (row_get r ''header_hex'') (\<lambda>header_hex.
     bindE (bindE (row_get r ''header_valid'') (not_null (\<lambda>c. Inr (py_bool c)))) (\<lambda>header_valid.
     bindE (row_get r ''source'') (\<lambda>source.
     bindE (row_get r ''chaintip_status'') (\<lambda>chaintip_status.
     bindE (bindE (row_get r ''branchlen'') (not_null py_int)) (\<lambda>branchlen.
     bindE (row_get r ''first_seen'') (\<lambda>first_seen.
     bindE (row_get r ''last_exported_status'') (\<lambda>last_exported.
       Inr \<lparr>se_height = height, se_blockhash = py_str ft blockhash, se_status = py_str ft status,
            se_header_hex = text_or_none ft header_hex, se_header_valid = header_valid, se_source = py_str ft source,
            se_chaintip_status = text_or_none ft chaintip_status, se_branchlen = branchlen,
            se_first_seen = py_str ft first_seen, se_last_exported = text_or_none ft last_exported\<rparr>))))))))))"

definition registry_load :: "csv_read \<Rightarrow> (rat \<Rightarrow> string) \<Rightarrow> disk \<Rightarrow> path \<Rightarrow> exn + registry" where
  "registry_load R ft d p =
     (let empty = \<lparr>rg_path = p, rg_entries = [], rg_dirty = False\<rparr> in
      if \<not> path_exists d p \<or> st_size d p = 0 then Inr empty
      else bindE (read_csv R (contents (files d) p)) (\<lambda>f.
           bindE (mapE (registry_row ft) f) (\<lambda>es.
             Inr (empty\<lparr>rg_entries := dict_update [] (map (\<lambda>e. (se_blockhash e, e)) es)\<rparr>))))"

definition registry_get :: "registry \<Rightarrow> string \<Rightarrow> stale_entry option" where
  "registry_get rg b = map_of (rg_entries rg) b"

definition registry_put :: "string \<Rightarrow> stale_entry \<Rightarrow> registry \<Rightarrow> registry" where
  "registry_put b e rg = rg\<lparr>rg_entries := AList.update b e (rg_entries rg), rg_dirty := True\<rparr>"

text \<open>What a sighting carries.\<close>

record sighting =
  sg_height :: int
  sg_blockhash :: string
  sg_header_hex :: "string option"
  sg_source :: string
  sg_chaintip_status :: "string option"
  sg_branchlen :: "int option"

text \<open>The four conditional assignments to an entry that is known already.\<close>

definition merge_sighting :: "sighting \<Rightarrow> string \<Rightarrow> string option \<Rightarrow> bool option \<Rightarrow> stale_entry \<Rightarrow> exn + stale_entry" where
  "merge_sighting sg status header_hex header_valid e =
     bindE (status_rank status) (\<lambda>new.
     bindE (status_rank (se_status e)) (\<lambda>old.
       let e1 = (if old < new then e\<lparr>se_status := status\<rparr> else e);
           e2 = (if header_hex \<notin> {None, Some ''''} \<and> se_header_hex e1 \<in> {None, Some ''''}
                 then e1\<lparr>se_header_hex := header_hex, se_header_valid := header_valid\<rparr> else e1);
           e3 = (if sg_chaintip_status sg \<noteq> None then e2\<lparr>se_chaintip_status := sg_chaintip_status sg\<rparr> else e2)
       in Inr (if sg_branchlen sg \<noteq> None then e3\<lparr>se_branchlen := sg_branchlen sg\<rparr> else e3)))"

text \<open>The registry gets dirty when an assignment is made, which changes the entry.\<close>

definition upsert_sighting ::
    "string \<Rightarrow> sighting \<Rightarrow> string \<Rightarrow> string option \<Rightarrow> bool option \<Rightarrow> (registry, stale_entry) action" where
  "upsert_sighting now sg status header_hex header_valid rg =
     (case registry_get rg (sg_blockhash sg) of
        None \<Rightarrow>
          (let e = \<lparr>se_height = sg_height sg, se_blockhash = sg_blockhash sg, se_status = status,
                    se_header_hex = header_hex, se_header_valid = header_valid, se_source = sg_source sg,
                    se_chaintip_status = sg_chaintip_status sg, se_branchlen = sg_branchlen sg,
                    se_first_seen = now, se_last_exported = None\<rparr>
           in (Inr e, registry_put (sg_blockhash sg) e rg))
      | Some e \<Rightarrow>
          (case merge_sighting sg status header_hex header_valid e of
             Inl x \<Rightarrow> (Inl x, rg)
           | Inr e' \<Rightarrow> (Inr e', if e' = e then rg else registry_put (sg_blockhash sg) e' rg)))"

definition mark_exported :: "string \<Rightarrow> string \<Rightarrow> registry \<Rightarrow> registry" where
  "mark_exported b status rg =
     (case registry_get rg b of
        None \<Rightarrow> rg
      | Some e \<Rightarrow> if se_last_exported e \<noteq> Some status then registry_put b (e\<lparr>se_last_exported := Some status\<rparr>) rg else rg)"

definition registry_cells :: "stale_entry \<Rightarrow> row" where
  "registry_cells e =
     [(''height'', CInt (se_height e)),
      (''blockhash'', CStr (se_blockhash e)),
      (''status'', CStr (se_status e)),
      (''header_hex'', opt_cell CStr (se_header_hex e)),
      (''header_valid'', opt_cell CBool (se_header_valid e)),
      (''source'', CStr (se_source e)),
      (''chaintip_status'', opt_cell CStr (se_chaintip_status e)),
      (''branchlen'', opt_cell CInt (se_branchlen e)),
      (''first_seen'', CStr (se_first_seen e)),
      (''last_exported_status'', opt_cell CStr (se_last_exported e))]"

definition registry_flush :: "csv_write \<Rightarrow> registry \<times> disk \<Rightarrow> registry \<times> disk" where
  "registry_flush W rd =
     (case rd of (rg, d) \<Rightarrow>
        if \<not> rg_dirty rg then (rg, d)
        else (rg\<lparr>rg_dirty := False\<rparr>,
              do_effect W (EReplace (rg_path rg)
                (map registry_cells (sort_key (\<lambda>e. (se_height e, se_blockhash e)) (map snd (rg_entries rg))))) d))"

section \<open>Sightings\<close>

record chain_tip =
  ct_status :: "string option"
  ct_hash :: "string option"
  ct_height :: "int option"
  ct_branchlen :: "int option"

record stale_env =
  st_write :: csv_write
  st_sha :: "bytes \<Rightarrow> bytes"
  st_chain_tips :: "nat \<Rightarrow> exn + chain_tip list"
  st_header :: "nat \<Rightarrow> string \<Rightarrow> exn + string"
  st_csv :: "nat \<Rightarrow> exn + (string, string option) pydict list"
  st_now :: "nat \<Rightarrow> string"
  st_clock :: "nat \<Rightarrow> rat"
  st_stop :: "nat \<Rightarrow> bool"

record stale =
  sb_registry :: registry
  sb_disk :: disk
  sb_looks :: nat

type_synonym 'a staling = "(stale, 'a) action"

definition st_ask :: "(nat \<Rightarrow> exn + 'a) \<Rightarrow> 'a staling" where
  "st_ask answer s = (answer (sb_looks s), s\<lparr>sb_looks := sb_looks s + 1\<rparr>)"

definition st_look :: "(nat \<Rightarrow> 'a) \<Rightarrow> 'a staling" where
  "st_look f = st_ask (\<lambda>n. Inr (f n))"

definition in_registry :: "(registry, 'a) action \<Rightarrow> 'a staling" where
  "in_registry m s = (case m (sb_registry s) of (r, rg) \<Rightarrow> (r, s\<lparr>sb_registry := rg\<rparr>))"

definition flush_registry :: "stale_env \<Rightarrow> unit staling" where
  "flush_registry e =
     updA (\<lambda>s. case registry_flush (st_write e) (sb_registry s, sb_disk s) of (rg, d) \<Rightarrow> s\<lparr>sb_registry := rg, sb_disk := d\<rparr>)"

definition empty_header_fields :: row where
  "empty_header_fields =
     [(''version'', CNull), (''previousblockhash'', CNull), (''merkleroot'', CNull), (''time'', CNull), (''bits'', CNull),
      (''nonce'', CNull)]"

definition header_fields :: "stale_entry \<Rightarrow> row" where
  "header_fields e =
     (case se_header_hex e of
        None \<Rightarrow> empty_header_fields
      | Some h \<Rightarrow> if h = '''' then empty_header_fields
                  else (case parse_header h of Inl x \<Rightarrow> empty_header_fields | Inr r \<Rightarrow> r))"

definition header_event :: "string \<Rightarrow> stale_entry \<Rightarrow> row" where
  "header_event now e =
     dict_update
       [(''observed_at'', CStr now),
        (''height'', CInt (se_height e)),
        (''hash'', CStr (se_blockhash e)),
        (''status'', CStr (se_status e)),
        (''header_hex'', opt_cell CStr (se_header_hex e)),
        (''header_valid'', opt_cell CBool (se_header_valid e)),
        (''source'', CStr (se_source e)),
        (''chaintip_status'', opt_cell CStr (se_chaintip_status e)),
        (''branchlen'', opt_cell CInt (se_branchlen e))]
       (header_fields e)"

definition headers_base :: "string \<Rightarrow> base" where
  "headers_base out_dir = \<lparr>b_dir = out_dir, b_stem = ''stale_block_headers'', b_suffix = ''.csv''\<rparr>"

definition export_header_event :: "stale_env \<Rightarrow> string \<Rightarrow> stale_entry \<Rightarrow> unit staling" where
  "export_header_event e out_dir entry =
     bindA (st_look (st_now e)) (\<lambda>now.
       updA (\<lambda>s. s\<lparr>sb_disk := write_rows_to_csv (st_write e) [header_event now entry] (headers_base out_dir) MAX_PART_BYTES (sb_disk s)\<rparr>))"

definition ingest_sighting :: "stale_env \<Rightarrow> string \<Rightarrow> sighting \<Rightarrow> stale_entry staling" where
  "ingest_sighting e out_dir sg =
     (let given = (sg_header_hex sg \<notin> {None, Some ''''});
          header_valid = (if given then Some (validate_header_hash (st_sha e) (sg_header_hex sg) (sg_blockhash sg)) else None);
          valid = (header_valid = Some True);
          status = (if valid then HEADER_ONLY else UNUSABLE)
      in bindA (st_look (st_now e)) (\<lambda>now.
         bindA (in_registry (upsert_sighting now sg status (if valid then sg_header_hex sg else None) header_valid)) (\<lambda>entry.
         thenA
           (if Some (se_status entry) \<noteq> se_last_exported entry
            then thenA (export_header_event e out_dir entry)
                 (thenA (in_registry (updA (mark_exported (sg_blockhash sg) (se_status entry))))
                        (flush_registry e))
            else ret ())
           (ret entry))))"

section \<open>The two passes\<close>

definition stale_tip :: "chain_tip \<Rightarrow> bool" where
  "stale_tip t \<longleftrightarrow> ct_status t \<notin> {Some ''active'', Some ''invalid''}"

definition required :: "string \<Rightarrow> 'a option \<Rightarrow> exn + 'a" where
  "required k v = (case v of None \<Rightarrow> Inl (KeyError k) | Some x \<Rightarrow> Inr x)"

definition poll_tip :: "stale_env \<Rightarrow> string \<Rightarrow> chain_tip \<Rightarrow> unit staling" where
  "poll_tip e out_dir tip =
     bindA (liftA (required ''hash'' (ct_hash tip))) (\<lambda>blockhash.
     bindA (liftA (required ''height'' (ct_height tip))) (\<lambda>height.
     bindA (liftA (required ''status'' (ct_status tip))) (\<lambda>status.
     bindA (catchA (bindA (st_ask (\<lambda>n. st_header e n blockhash)) (\<lambda>h. ret (Some h))) is_rpc_cli_error (\<lambda>_. ret None)) (\<lambda>header_hex.
     thenA (ingest_sighting e out_dir
              \<lparr>sg_height = height, sg_blockhash = blockhash, sg_header_hex = header_hex, sg_source = ''own_node'',
               sg_chaintip_status = Some status,
               sg_branchlen = Some (case ct_branchlen tip of None \<Rightarrow> 0 | Some b \<Rightarrow> b)\<rparr>)
           (ret ())))))"

definition run_node_poll :: "stale_env \<Rightarrow> string \<Rightarrow> unit staling" where
  "run_node_poll e out_dir =
     bindA (st_ask (st_chain_tips e)) (\<lambda>tips.
     thenA (forA (filter stale_tip tips) (poll_tip e out_dir)) (flush_registry e))"

record github_row =
  gh_height :: int
  gh_blockhash :: string
  gh_header_hex :: string

text \<open>\<open>raw_row[k]\<close> of a \<open>csv.DictReader\<close> row: KeyError without the column, None in a short row.\<close>

definition dict_get :: "(string, string option) pydict \<Rightarrow> string \<Rightarrow> exn + string option" where
  "dict_get r k = (case map_of r k of None \<Rightarrow> Inl (KeyError k) | Some v \<Rightarrow> Inr v)"

fun int_of_field :: "string option \<Rightarrow> exn + int" where
  "int_of_field None = Inl TypeError"
| "int_of_field (Some s) = parse_int s"

fun str_of_field :: "string option \<Rightarrow> string" where
  "str_of_field None = ''None''"
| "str_of_field (Some s) = s"

definition github_row_of :: "(string, string option) pydict \<Rightarrow> exn + github_row" where
  "github_row_of r =
     bindE (bindE (dict_get r ''height'') int_of_field) (\<lambda>h.
     bindE (dict_get r ''hash'') (\<lambda>b.
     bindE (dict_get r ''header'') (\<lambda>x.
       Inr \<lparr>gh_height = h, gh_blockhash = lower (str_of_field b), gh_header_hex = str_of_field x\<rparr>)))"

fun malformed_row :: "exn \<Rightarrow> bool" where
  "malformed_row (KeyError k) = True"
| "malformed_row (ValueError m) = True"
| "malformed_row _ = False"

fun github_rows :: "(string, string option) pydict list \<Rightarrow> exn + github_row list" where
  "github_rows [] = Inr []"
| "github_rows (r # rs) =
     (case github_row_of r of
        Inr g \<Rightarrow> bindE (github_rows rs) (\<lambda>gs. Inr (g # gs))
      | Inl x \<Rightarrow> if malformed_row x then github_rows rs else Inl x)"

text \<open>A network failure is a \<open>FetchError\<close> or a \<open>RateLimited\<close>, turned into a \<open>GithubFetchError\<close>.\<close>

fun fetch_failed :: "exn \<Rightarrow> bool" where
  "fetch_failed (FetchError m) = True"
| "fetch_failed (RateLimited m) = True"
| "fetch_failed _ = False"

definition fetch_stale_blocks_csv :: "stale_env \<Rightarrow> github_row list option staling" where
  "fetch_stale_blocks_csv e =
     bindA (catchA (bindA (st_ask (st_csv e)) (\<lambda>rows. ret (Some rows))) fetch_failed (\<lambda>_. ret None)) (\<lambda>r.
       case r of None \<Rightarrow> ret None | Some rows \<Rightarrow> bindA (liftA (github_rows rows)) (\<lambda>gs. ret (Some gs)))"

definition ingest_github_row :: "stale_env \<Rightarrow> string \<Rightarrow> github_row \<Rightarrow> unit staling" where
  "ingest_github_row e out_dir g =
     bindA (getA (\<lambda>s. registry_get (sb_registry s) (gh_blockhash g))) (\<lambda>existing.
       if (case existing of None \<Rightarrow> False | Some x \<Rightarrow> se_status x = HEADER_ONLY) then ret ()
       else if \<not> validate_header_hash (st_sha e) (Some (gh_header_hex g)) (gh_blockhash g) then ret ()
       else thenA (ingest_sighting e out_dir
              \<lparr>sg_height = gh_height g, sg_blockhash = gh_blockhash g, sg_header_hex = Some (gh_header_hex g),
               sg_source = ''github'', sg_chaintip_status = None, sg_branchlen = None\<rparr>)
           (ret ()))"

definition run_github_pull :: "stale_env \<Rightarrow> string \<Rightarrow> bool staling" where
  "run_github_pull e out_dir =
     bindA (fetch_stale_blocks_csv e) (\<lambda>r.
       case r of
         None \<Rightarrow> ret False
       | Some rows \<Rightarrow> thenA (forA rows (ingest_github_row e out_dir)) (thenA (flush_registry e) (ret True)))"

section \<open>The main loop\<close>

text \<open>One wake; the argument and the result are the time of the last successful pull.\<close>

definition stale_wake :: "stale_env \<Rightarrow> string \<Rightarrow> rat \<Rightarrow> rat \<Rightarrow> rat staling" where
  "stale_wake e out_dir github_interval last_pull =
     thenA (catchA (run_node_poll e out_dir) is_rpc_cli_error (\<lambda>_. ret ()))
     (bindA (st_look (st_clock e)) (\<lambda>now.
        if now - last_pull < github_interval then ret last_pull
        else bindA (run_github_pull e out_dir) (\<lambda>done.
               if done then st_look (st_clock e) else ret last_pull)))"

text \<open>At most \<open>fuel\<close> wakes; the service runs until it is stopped.\<close>

fun run_stale_blocks :: "nat \<Rightarrow> stale_env \<Rightarrow> string \<Rightarrow> rat \<Rightarrow> rat \<Rightarrow> unit staling" where
  "run_stale_blocks 0 e out_dir interval last_pull = ret ()"
| "run_stale_blocks (Suc fuel) e out_dir interval last_pull =
     bindA (st_look (st_stop e)) (\<lambda>stop.
       if stop then ret ()
       else bindA (stale_wake e out_dir interval last_pull) (\<lambda>pull.
            bindA (st_look (st_stop e)) (\<lambda>stop'.
              if stop' then ret () else run_stale_blocks fuel e out_dir interval pull)))"

definition stale_init :: "csv_read \<Rightarrow> (rat \<Rightarrow> string) \<Rightarrow> string \<Rightarrow> disk \<Rightarrow> exn + stale" where
  "stale_init R ft state_dir d =
     bindE (registry_load R ft d (state_dir, ''registry.csv'')) (\<lambda>rg.
       Inr \<lparr>sb_registry = rg, sb_disk = d, sb_looks = 0\<rparr>)"

section \<open>What is exported\<close>

text \<open>The rank of an exported status, below it that of none.\<close>

definition xrank :: "string option \<Rightarrow> nat" where
  "xrank s = (if s = None then 0 else if s = Some UNUSABLE then 1 else 2)"

fun header_rows :: "effect list \<Rightarrow> row list" where
  "header_rows [] = []"
| "header_rows (EAppend p h rs # es) = rs @ header_rows es"
| "header_rows (_ # es) = header_rows es"

fun text_cell :: "cell option \<Rightarrow> string option" where
  "text_cell (Some (CStr s)) = Some s"
| "text_cell _ = None"

text \<open>The ranks exported for a hash, in order.\<close>

definition ranks_of :: "string \<Rightarrow> effect list \<Rightarrow> nat list" where
  "ranks_of b es = map (\<lambda>r. xrank (text_cell (map_of r ''status'')))
     (filter (\<lambda>r. map_of r ''hash'' = Some (CStr b)) (header_rows es))"

definition row_proved :: "(bytes \<Rightarrow> bytes) \<Rightarrow> row \<Rightarrow> bool" where
  "row_proved sha r \<longleftrightarrow>
     (map_of r ''status'' \<noteq> Some (CStr HEADER_ONLY) \<or>
      (case text_cell (map_of r ''hash'') of
         None \<Rightarrow> False | Some b \<Rightarrow> validate_header_hash sha (text_cell (map_of r ''header_hex'')) b))"

definition entry_ok :: "(bytes \<Rightarrow> bytes) \<Rightarrow> stale_entry \<Rightarrow> bool" where
  "entry_ok sha e \<longleftrightarrow>
     se_status e \<in> {UNUSABLE, HEADER_ONLY} \<and>
     (se_header_hex e \<in> {None, Some ''''} \<or> validate_header_hash sha (se_header_hex e) (se_blockhash e)) \<and>
     (se_status e = HEADER_ONLY \<longrightarrow> se_header_hex e \<notin> {None, Some ''''}) \<and>
     se_last_exported e \<in> {None, Some UNUSABLE, Some HEADER_ONLY} \<and>
     xrank (se_last_exported e) \<le> xrank (Some (se_status e))"

definition registry_ok :: "(bytes \<Rightarrow> bytes) \<Rightarrow> registry \<Rightarrow> bool" where
  "registry_ok sha rg \<longleftrightarrow> list_all (\<lambda>(b, e). se_blockhash e = b \<and> entry_ok sha e) (rg_entries rg)"

definition exported_rank :: "registry \<Rightarrow> string \<Rightarrow> nat" where
  "exported_rank rg b = (case registry_get rg b of None \<Rightarrow> 0 | Some e \<Rightarrow> xrank (se_last_exported e))"

text \<open>
  The invariant: a good registry, proved rows, and for every hash the exported ranks rise strictly
  from \<open>F\<close>, what had been exported before, to what the registry says.
\<close>

definition stale_inv :: "(bytes \<Rightarrow> bytes) \<Rightarrow> (string \<Rightarrow> nat) \<Rightarrow> stale \<Rightarrow> bool" where
  "stale_inv sha F s \<longleftrightarrow>
     registry_ok sha (sb_registry s) \<and>
     list_all (row_proved sha) (header_rows (log (sb_disk s))) \<and>
     (\<forall>b. sorted_wrt (<) (F b # ranks_of b (log (sb_disk s))) \<and>
          last (F b # ranks_of b (log (sb_disk s))) = exported_rank (sb_registry s) b)"

lemma header_rows_append [simp]: "header_rows (es @ fs) = header_rows es @ header_rows fs"
  by (induction es rule: header_rows.induct) simp_all

lemma ranks_of_append: "ranks_of b (es @ fs) = ranks_of b es @ ranks_of b fs"
  by (simp add: ranks_of_def)

lemma status_distinct [simp]: "UNUSABLE \<noteq> HEADER_ONLY" "HEADER_ONLY \<noteq> UNUSABLE"
  by (simp_all add: UNUSABLE_def HEADER_ONLY_def)

lemma xrank_simps [simp]: "xrank None = 0" "xrank (Some UNUSABLE) = 1" "xrank (Some HEADER_ONLY) = 2"
  by (simp_all add: xrank_def)

lemma header_fields_keys:
  "distinct (map fst (header_fields e)) \<and> fst ` set (header_fields e)
     = {''version'', ''previousblockhash'', ''merkleroot'', ''time'', ''bits'', ''nonce''}"
  by (auto simp: header_fields_def empty_header_fields_def parse_header_def bindE_def
      split: option.splits sum.splits if_splits)

lemma header_event_cells:
  "map_of (header_event now e) ''hash'' = Some (CStr (se_blockhash e))"
  "map_of (header_event now e) ''status'' = Some (CStr (se_status e))"
  "map_of (header_event now e) ''header_hex'' = Some (opt_cell CStr (se_header_hex e))"
proof -
  have k: "k \<notin> fst ` set (header_fields e) \<Longrightarrow> map_of (header_fields e) k = None" for k
    by (simp add: map_of_eq_None_iff)
  have "map_of (header_fields e) ''hash'' = None" "map_of (header_fields e) ''status'' = None"
      "map_of (header_fields e) ''header_hex'' = None"
    by (intro k; simp add: header_fields_keys)+
  then show "map_of (header_event now e) ''hash'' = Some (CStr (se_blockhash e))"
    "map_of (header_event now e) ''status'' = Some (CStr (se_status e))"
    "map_of (header_event now e) ''header_hex'' = Some (opt_cell CStr (se_header_hex e))"
    using header_fields_keys [of e] by (simp_all add: header_event_def map_of_dict_update map_add_def)
qed

lemma registry_ok_get:
  "registry_ok sha rg \<Longrightarrow> registry_get rg b = Some e \<Longrightarrow> se_blockhash e = b \<and> entry_ok sha e"
  by (auto simp: registry_ok_def registry_get_def list_all_iff dest!: map_of_SomeD)

lemma registry_ok_put: "registry_ok sha rg \<Longrightarrow> se_blockhash e = b \<Longrightarrow> entry_ok sha e \<Longrightarrow> registry_ok sha (registry_put b e rg)"
  using in_update by (fastforce simp: registry_ok_def registry_put_def list_all_iff)

lemma get_put: "registry_get (registry_put b e rg) b' = (if b' = b then Some e else registry_get rg b')"
  by (simp add: registry_get_def registry_put_def)

text \<open>The status and header that \<open>ingest_sighting\<close> hands on.\<close>

definition sight_ok :: "(bytes \<Rightarrow> bytes) \<Rightarrow> string \<Rightarrow> string \<Rightarrow> string option \<Rightarrow> bool" where
  "sight_ok sha b status header_hex \<longleftrightarrow>
     (status = UNUSABLE \<and> header_hex = None \<or>
      status = HEADER_ONLY \<and> header_hex \<notin> {None, Some ''''} \<and> validate_header_hash sha header_hex b)"

lemma status_rank_simps [simp]: "status_rank UNUSABLE = Inr 0" "status_rank HEADER_ONLY = Inr 1"
  by (simp_all add: status_rank_def)

text \<open>What the merge makes of the entry, for a status and a header that belong together.\<close>

lemma merge_unusable:
  assumes "entry_ok sha e"
  shows "\<exists>e'. merge_sighting sg UNUSABLE None hv e = Inr e' \<and> entry_ok sha e' \<and> se_blockhash e' = se_blockhash e \<and>
    se_last_exported e' = se_last_exported e"
proof -
  obtain k where k: "status_rank (se_status e) = Inr k" using assms by (auto simp: entry_ok_def)
  show ?thesis
    using assms
    by (cases "sg_chaintip_status sg"; cases "sg_branchlen sg") (simp_all add: merge_sighting_def k entry_ok_def)
qed

lemma merge_header:
  assumes "entry_ok sha e" and "hx \<notin> {None, Some ''''}" and "validate_header_hash sha hx (se_blockhash e)"
  shows "\<exists>e'. merge_sighting sg HEADER_ONLY hx hv e = Inr e' \<and> entry_ok sha e' \<and> se_blockhash e' = se_blockhash e \<and>
    se_last_exported e' = se_last_exported e"
proof -
  obtain k where k: "status_rank (se_status e) = Inr k" "\<not> k < 1 \<Longrightarrow> se_status e = HEADER_ONLY"
    using assms(1) by (auto simp: entry_ok_def)
  have "\<exists>e'. merge_sighting sg HEADER_ONLY hx hv e = Inr e' \<and> se_status e' = HEADER_ONLY \<and>
      se_header_hex e' = (if se_header_hex e \<in> {None, Some ''''} then hx else se_header_hex e) \<and>
      se_blockhash e' = se_blockhash e \<and> se_last_exported e' = se_last_exported e"
    using assms(2) k(2)
    by (cases "k < 1"; cases "sg_chaintip_status sg"; cases "sg_branchlen sg") (simp_all add: merge_sighting_def k(1) Let_def)
  with assms show ?thesis by (fastforce simp: entry_ok_def split: if_splits)
qed

lemma merge_ok:
  assumes "entry_ok sha e" and "sight_ok sha (se_blockhash e) status hx"
  shows "\<exists>e'. merge_sighting sg status hx hv e = Inr e' \<and> entry_ok sha e' \<and> se_blockhash e' = se_blockhash e \<and>
    se_last_exported e' = se_last_exported e"
proof (cases "status = HEADER_ONLY")
  case True
  with assms merge_header [of sha e hx sg hv] show ?thesis by (simp add: sight_ok_def)
next
  case False
  with assms merge_unusable [of sha e sg hv] show ?thesis by (auto simp: sight_ok_def)
qed

lemma upsert_ok:
  assumes "registry_ok sha rg" and "sight_ok sha (sg_blockhash sg) status hx"
  shows "\<exists>e' rg'. upsert_sighting now sg status hx hv rg = (Inr e', rg') \<and> registry_ok sha rg' \<and>
     registry_get rg' (sg_blockhash sg) = Some e' \<and> exported_rank rg' = exported_rank rg"
proof (cases "registry_get rg (sg_blockhash sg)")
  case None
  with assms show ?thesis
    by (auto simp: upsert_sighting_def Let_def get_put exported_rank_def fun_eq_iff entry_ok_def sight_ok_def
        intro!: registry_ok_put)
next
  case (Some e)
  from registry_ok_get [OF assms(1) Some] have e: "se_blockhash e = sg_blockhash sg" "entry_ok sha e" by auto
  then obtain e' where e': "merge_sighting sg status hx hv e = Inr e'" "entry_ok sha e'"
      "se_blockhash e' = sg_blockhash sg" "se_last_exported e' = se_last_exported e"
    using merge_ok [of sha e status hx sg hv] assms(2) by auto
  with Some assms(1) show ?thesis
    by (auto simp: upsert_sighting_def get_put exported_rank_def fun_eq_iff intro: registry_ok_put)
qed

section \<open>Every step keeps the invariant\<close>

lemma inv_cong:
  "registry_ok sha (sb_registry s') = registry_ok sha (sb_registry s) \<Longrightarrow> exported_rank (sb_registry s') = exported_rank (sb_registry s) \<Longrightarrow>
   header_rows (log (sb_disk s')) = header_rows (log (sb_disk s)) \<Longrightarrow> stale_inv sha F s' = stale_inv sha F s"
  by (simp add: stale_inv_def ranks_of_def)

lemma inv_looks [simp]: "stale_inv sha F (s\<lparr>sb_looks := n\<rparr>) = stale_inv sha F s"
  by (rule inv_cong) simp_all

lemma inv_ask: "keeps (stale_inv sha F) (st_ask a)"
  by (rule keepsI) (simp add: st_ask_def)

lemma inv_look: "keeps (stale_inv sha F) (st_look a)"
  by (simp add: st_look_def inv_ask)

lemma inv_flush: "keeps (stale_inv sha F) (flush_registry e)"
proof (rule keepsI)
  fix s assume inv: "stale_inv sha F s"
  let ?s = "snd (flush_registry e s)"
  have "rg_entries (sb_registry ?s) = rg_entries (sb_registry s)" "header_rows (log (sb_disk ?s)) = header_rows (log (sb_disk s))"
    by (auto simp: flush_registry_def registry_flush_def)
  then show "stale_inv sha F ?s"
    using inv inv_cong [of sha ?s s F] by (simp add: registry_ok_def exported_rank_def [abs_def] registry_get_def)
qed

text \<open>An export and its mark: the ranks of the hash go up by the new one.\<close>

lemma sorted_snoc: "sorted_wrt (<) (x # xs) \<Longrightarrow> last (x # xs) < y \<Longrightarrow> sorted_wrt (<) (x # xs @ [y])" for y :: nat
proof -
  assume s: "sorted_wrt (<) (x # xs)" and l: "last (x # xs) < y"
  have "z \<le> last (x # xs)" if "z \<in> set (x # xs)" for z
    using s that by (induction xs arbitrary: x z) (fastforce split: if_splits)+
  with s l show ?thesis by (fastforce simp: sorted_wrt_append)
qed

lemma inv_export:
  assumes inv: "stale_inv sha F s" and get: "registry_get (sb_registry s) b = Some x"
    and new: "Some (se_status x) \<noteq> se_last_exported x"
  shows "stale_inv sha F (s\<lparr>sb_disk := write_rows_to_csv W [header_event now x] bs k (sb_disk s),
           sb_registry := mark_exported b (se_status x) (sb_registry s)\<rparr>)"
proof -
  let ?row = "header_event now x" and ?rg = "mark_exported b (se_status x) (sb_registry s)"
  let ?d = "write_rows_to_csv W [?row] bs k (sb_disk s)"
  have reg: "registry_ok sha (sb_registry s)" using inv by (simp add: stale_inv_def)
  have x: "se_blockhash x = b" "entry_ok sha x" using registry_ok_get [OF reg get] by auto
  have rows: "header_rows (log ?d) = header_rows (log (sb_disk s)) @ [?row]"
    by (simp add: write_rows_to_csv_def append_rows_def)
  have rank: "xrank (se_last_exported x) < xrank (Some (se_status x))"
    using x(2) new by (auto simp: entry_ok_def)
  have rg: "?rg = registry_put b (x\<lparr>se_last_exported := Some (se_status x)\<rparr>) (sb_registry s)"
    using get new by (auto simp: mark_exported_def)
  have ok: "registry_ok sha ?rg"
    unfolding rg using reg x by (intro registry_ok_put) (auto simp: entry_ok_def)
  have proved: "row_proved sha ?row"
    using x by (auto simp: row_proved_def header_event_cells entry_ok_def split: option.splits)
  have "sorted_wrt (<) (F b' # ranks_of b' (log ?d)) \<and> last (F b' # ranks_of b' (log ?d)) = exported_rank ?rg b'" for b'
  proof (cases "b' = b")
    case True
    have "ranks_of b (log ?d) = ranks_of b (log (sb_disk s)) @ [xrank (Some (se_status x))]"
      using x by (simp add: ranks_of_def rows header_event_cells)
    moreover have "sorted_wrt (<) (F b # ranks_of b (log (sb_disk s)))"
        "last (F b # ranks_of b (log (sb_disk s))) = xrank (se_last_exported x)"
      using inv get by (simp_all add: stale_inv_def exported_rank_def)
    ultimately show ?thesis
      using True rank sorted_snoc [of "F b" "ranks_of b (log (sb_disk s))" "xrank (Some (se_status x))"]
      by (simp add: rg exported_rank_def get_put)
  next
    case False
    have "ranks_of b' (log ?d) = ranks_of b' (log (sb_disk s))"
      using x False by (simp add: ranks_of_def rows header_event_cells)
    with inv False show ?thesis by (simp add: stale_inv_def rg exported_rank_def get_put)
  qed
  with inv ok proved rows show ?thesis by (simp add: stale_inv_def)
qed

lemma inv_ingest: "keeps (stale_inv (st_sha e) F) (ingest_sighting e out sg)"
proof (rule keepsI)
  fix s assume inv: "stale_inv (st_sha e) F s"
  let ?hv = "if sg_header_hex sg \<notin> {None, Some ''''}
      then Some (validate_header_hash (st_sha e) (sg_header_hex sg) (sg_blockhash sg)) else None"
  let ?st = "if ?hv = Some True then HEADER_ONLY else UNUSABLE" and ?hx = "if ?hv = Some True then sg_header_hex sg else None"
  have "sight_ok (st_sha e) (sg_blockhash sg) ?st ?hx" by (auto simp: sight_ok_def)
  moreover have "registry_ok (st_sha e) (sb_registry s)" using inv by (simp add: stale_inv_def)
  ultimately obtain x rg where up: "upsert_sighting (st_now e (sb_looks s)) sg ?st ?hx ?hv (sb_registry s) = (Inr x, rg)"
      "registry_ok (st_sha e) rg" "registry_get rg (sg_blockhash sg) = Some x" "exported_rank rg = exported_rank (sb_registry s)"
    using upsert_ok by metis
  let ?s = "s\<lparr>sb_looks := Suc (sb_looks s), sb_registry := rg\<rparr>"
  have inv': "stale_inv (st_sha e) F ?s" using inv up by (simp add: stale_inv_def ranks_of_def)
  show "stale_inv (st_sha e) F (snd (ingest_sighting e out sg s))"
  proof (cases "Some (se_status x) = se_last_exported x")
    case True
    with up(1) have "snd (ingest_sighting e out sg s) = ?s"
      by (simp add: ingest_sighting_def Let_def bindA_def thenA_def st_look_def st_ask_def in_registry_def)
    with inv' show ?thesis by simp
  next
    case False
    let ?s1 = "s\<lparr>sb_looks := Suc (Suc (sb_looks s)), sb_registry := rg\<rparr>"
    let ?s2 = "?s1\<lparr>sb_disk := write_rows_to_csv (st_write e) [header_event (st_now e (Suc (sb_looks s))) x] (headers_base out)
        MAX_PART_BYTES (sb_disk ?s1), sb_registry := mark_exported (sg_blockhash sg) (se_status x) (sb_registry ?s1)\<rparr>"
    have "stale_inv (st_sha e) F ?s1" using inv up by (simp add: stale_inv_def ranks_of_def)
    then have "stale_inv (st_sha e) F ?s2" using up(3) False by (intro inv_export) simp_all
    then have "stale_inv (st_sha e) F (snd (flush_registry e ?s2))" by (rule keepsD [OF inv_flush])
    moreover have "snd (ingest_sighting e out sg s) = snd (flush_registry e ?s2)"
      using up(1) False
      by (simp add: ingest_sighting_def Let_def bindA_def thenA_def st_look_def st_ask_def in_registry_def
          export_header_event_def flush_registry_def split: prod.splits)
    ultimately show ?thesis by simp
  qed
qed

lemma inv_poll: "keeps (stale_inv (st_sha e) F) (run_node_poll e out)"
  unfolding run_node_poll_def poll_tip_def
  by (intro keeps_bindA keeps_thenA keeps_forA keeps_liftA keeps_catchA keeps_ret inv_ask inv_ingest inv_flush)

lemma inv_pull: "keeps (stale_inv (st_sha e) F) (run_github_pull e out)"
proof -
  have row: "keeps (stale_inv (st_sha e) F) (ingest_github_row e out g)" for g
    unfolding ingest_github_row_def
    by (intro keeps_bindA keeps_getA keeps_if keeps_thenA keeps_ret inv_ingest)
  have fetch: "keeps (stale_inv (st_sha e) F) (fetch_stale_blocks_csv e)"
    unfolding fetch_stale_blocks_csv_def
    by (auto intro!: keeps_bindA keeps_catchA keeps_ret keeps_liftA inv_ask split: option.splits)
  show ?thesis
    unfolding run_github_pull_def
    by (auto intro!: keeps_bindA keeps_thenA keeps_forA keeps_ret fetch row inv_flush split: option.splits)
qed

lemma inv_run: "keeps (stale_inv (st_sha e) F) (run_stale_blocks fuel e out interval last_pull)"
proof (induction fuel arbitrary: last_pull)
  case (Suc fuel)
  have "keeps (stale_inv (st_sha e) F) (stale_wake e out interval p)" for p
    unfolding stale_wake_def
    by (intro keeps_thenA keeps_catchA inv_poll keeps_ret keeps_bindA inv_look keeps_if inv_pull)
  with Suc show ?case by (auto intro!: keeps_bindA keeps_ret inv_look)
qed (simp add: keeps_def)

section \<open>What the exports say\<close>

lemma stale_inv_start:
  "registry_ok sha (sb_registry s) \<Longrightarrow> log (sb_disk s) = [] \<Longrightarrow> stale_inv sha (exported_rank (sb_registry s)) s"
  by (simp add: stale_inv_def ranks_of_def)

lemma stale_inv_after:
  assumes "registry_ok (st_sha e) (sb_registry s)" and "log (sb_disk s) = []"
    and "run_stale_blocks fuel e out interval last_pull s = (r, s')"
  shows "stale_inv (st_sha e) (exported_rank (sb_registry s)) s'"
  using keepsD [OF inv_run stale_inv_start [OF assms(1,2)], of fuel out interval last_pull] assms(3) by simp


text \<open>
  C24. A block is exported at most once for each status, and only upwards: the ranks exported for one
  hash rise strictly, from what the registry said when the process started, so that a block that was
  exported with its header is never exported again.
\<close>

theorem stale_exports_rise:
  assumes "registry_ok (st_sha e) (sb_registry s)" and "log (sb_disk s) = []"
    and "run_stale_blocks fuel e out interval last_pull s = (r, s')"
  shows "sorted_wrt (<) (exported_rank (sb_registry s) b # ranks_of b (log (sb_disk s')))"
  using stale_inv_after [OF assms] by (simp add: stale_inv_def)

text \<open>One tip whose header cannot be fetched, seen by a process with an empty registry.\<close>

definition sample_stale_env :: stale_env where
  "sample_stale_env =
     \<lparr>st_write = (\<lambda>h rs. ''''), st_sha = (\<lambda>bs. replicate 32 0),
      st_chain_tips = (\<lambda>n. Inr [\<lparr>ct_status = Some ''headers-only'', ct_hash = Some ''b'', ct_height = Some 5, ct_branchlen = None\<rparr>]),
      st_header = (\<lambda>n b. Inl (RpcCliError '''')), st_csv = (\<lambda>n. Inl (FetchError '''')),
      st_now = (\<lambda>n. ''now''), st_clock = (\<lambda>n. 0), st_stop = (\<lambda>n. False)\<rparr>"

definition sample_stale :: stale where
  "sample_stale = \<lparr>sb_registry = \<lparr>rg_path = (''state'', ''registry.csv''), rg_entries = [], rg_dirty = False\<rparr>,
     sb_disk = \<lparr>files = [], log = []\<rparr>, sb_looks = 0\<rparr>"

lemma sample_stale_ok: "registry_ok sha (sb_registry sample_stale)" "log (sb_disk sample_stale) = []"
    "exported_rank (sb_registry sample_stale) b = 0"
  by (simp_all add: sample_stale_def registry_ok_def exported_rank_def registry_get_def)

lemma sample_stale_run:
  "\<exists>r s' row. run_stale_blocks 1 sample_stale_env ''out'' 1 0 sample_stale = (r, s') \<and>
     header_rows (log (sb_disk s')) = [row] \<and> map_of row ''hash'' = Some (CStr ''b'') \<and>
     map_of row ''status'' = Some (CStr UNUSABLE)"
  by (simp add: sample_stale_env_def sample_stale_def stale_wake_def run_node_poll_def poll_tip_def stale_tip_def
      required_def catchA_def bindA_def thenA_def st_look_def st_ask_def ingest_sighting_def in_registry_def Let_def
      upsert_sighting_def registry_get_def registry_put_def export_header_event_def mark_exported_def
      write_rows_to_csv_def append_rows_def header_event_cells flush_registry_def registry_flush_def)


theorem stale_exports_rise_witness:
  "ranks_of ''b'' (log (sb_disk (snd (run_stale_blocks 1 sample_stale_env ''out'' 1 0 sample_stale)))) = [1] \<and>
   sorted_wrt (<) (0 # ranks_of ''b'' (log (sb_disk (snd (run_stale_blocks 1 sample_stale_env ''out'' 1 0 sample_stale)))))"
proof -
  obtain r s' row where run: "run_stale_blocks 1 sample_stale_env ''out'' 1 0 sample_stale = (r, s')"
      "header_rows (log (sb_disk s')) = [row]" "map_of row ''hash'' = Some (CStr ''b'')" "map_of row ''status'' = Some (CStr UNUSABLE)"
    using sample_stale_run by blast
  show ?thesis
    using stale_exports_rise [OF sample_stale_ok(1,2) run(1), of "''b''"] run sample_stale_ok(3)
    by (simp add: ranks_of_def)
qed

end
