(* ===== verification/Config.thy ===== *)
theory Config
  imports Sanctions_List Numbers
begin

text \<open>
  btc_parser_app/config.py: config.yaml, as \<open>yaml.safe_load\<close> returns it, turned into settings or an
  error. \<open>show\<close> is \<open>str()\<close> of a value that is no text. The special floats of YAML (infinities, not a
  number) are outside the model.
\<close>

section \<open>Paths\<close>

text \<open>A POSIX path: whether it starts at the root, and its parts.\<close>

type_synonym pure_path = "bool \<times> string list"

fun split_slash :: "string \<Rightarrow> string \<Rightarrow> string list" where
  "split_slash cur [] = [rev cur]"
| "split_slash cur (c # cs) = (if c = CHR ''/'' then rev cur # split_slash [] cs else split_slash (c # cur) cs)"

definition path_of :: "string \<Rightarrow> pure_path" where
  "path_of s = (take 1 s = ''/'', filter (\<lambda>p. p \<noteq> '''' \<and> p \<noteq> ''.'') (split_slash [] s))"

definition join_path :: "pure_path \<Rightarrow> pure_path \<Rightarrow> pure_path" where
  "join_path home p = (if fst p then p else (fst home, snd home @ snd p))"

section \<open>Conversions\<close>

fun val_int :: "pyval \<Rightarrow> exn + int" where
  "val_int (VBool b) = Inr (if b then 1 else 0)"
| "val_int (VInt n) = Inr n"
| "val_int (VFloat q) = Inr (truncate_rat q)"
| "val_int (VStr s) = parse_int s"
| "val_int _ = Inl TypeError"

text \<open>\<open>float(s)\<close> of a decimal text: sign, digits with a point, exponent.\<close>

definition float_exponent :: "string \<Rightarrow> int option" where
  "float_exponent x =
     (if x = [] then Some 0
      else let d = tl x;
               u = (if d \<noteq> [] \<and> (hd d = CHR ''-'' \<or> hd d = CHR ''+'') then tl d else d)
           in if u = [] \<or> \<not> list_all is_digit u then None
              else Some ((if hd d = CHR ''-'' then - 1 else 1) * int (decimal_val u)))"

definition unsigned_float :: "string \<Rightarrow> rat option" where
  "unsigned_float s =
     (let mantissa = takeWhile (\<lambda>c. c \<notin> {CHR ''e'', CHR ''E''}) s;
          whole = takeWhile (\<lambda>c. c \<noteq> CHR ''.'') mantissa;
          decimals = drop (Suc (length whole)) mantissa
      in if whole @ decimals = [] \<or> \<not> list_all is_digit (whole @ decimals) then None
         else map_option (\<lambda>n. of_nat (decimal_val (whole @ decimals)) * pow10 (n - int (length decimals)))
                (float_exponent (drop (length mantissa) s)))"

definition parse_float :: "string \<Rightarrow> exn + rat" where
  "parse_float s =
     (let t = strip s;
          neg = (t \<noteq> [] \<and> hd t = CHR ''-'');
          u = (if t \<noteq> [] \<and> (hd t = CHR ''-'' \<or> hd t = CHR ''+'') then tl t else t)
      in case unsigned_float u of
           None \<Rightarrow> Inl (ValueError ''could not convert string to float'')
         | Some q \<Rightarrow> Inr (fl (if neg then - q else q)))"

fun val_float :: "pyval \<Rightarrow> exn + rat" where
  "val_float (VBool b) = Inr (if b then 1 else 0)"
| "val_float (VInt n) = Inr (fl (of_int n))"
| "val_float (VFloat q) = Inr q"
| "val_float (VStr s) = parse_float s"
| "val_float _ = Inl TypeError"

fun val_str :: "(pyval \<Rightarrow> string) \<Rightarrow> pyval \<Rightarrow> string" where
  "val_str show (VStr s) = s"
| "val_str show v = show v"

text \<open>\<open>Path(value)\<close> takes a text only.\<close>

fun resolve_path :: "pure_path \<Rightarrow> pyval \<Rightarrow> exn + pure_path" where
  "resolve_path home (VStr s) = Inr (join_path home (path_of s))"
| "resolve_path home _ = Inl TypeError"

section \<open>Sections\<close>

text \<open>\<open>key not in section\<close> is also defined on lists and on texts, \<open>section[key]\<close> then is not.\<close>

fun require :: "pyval \<Rightarrow> string \<Rightarrow> exn + pyval" where
  "require (VMap m) key = (case map_of m key of None \<Rightarrow> Inl (ConfigError key) | Some v \<Rightarrow> Inr v)"
| "require (VList xs) key = (if VStr key \<in> set xs then Inl TypeError else Inl (ConfigError key))"
| "require (VStr s) key = (if text_in key s then Inl TypeError else Inl (ConfigError key))"
| "require _ key = Inl TypeError"

text \<open>\<open>section.get(key, default)\<close>.\<close>

fun get_default :: "pyval \<Rightarrow> string \<Rightarrow> pyval \<Rightarrow> exn + pyval" where
  "get_default (VMap m) key d = Inr (case map_of m key of None \<Rightarrow> d | Some v \<Rightarrow> v)"
| "get_default _ key d = Inl AttributeError"

text \<open>\<open>section.get(key) or None\<close>.\<close>

definition get_or_none :: "pyval \<Rightarrow> string \<Rightarrow> exn + pyval option" where
  "get_or_none section key = bindE (get_default section key VNull) (\<lambda>v. Inr (if truthy v then Some v else None))"

definition check :: "bool \<Rightarrow> string \<Rightarrow> exn + unit" where
  "check ok msg = (if ok then Inr () else Inl (ConfigError msg))"

text \<open>A number with a default, or a required one, and the test that follows it.\<close>

definition int_setting :: "exn + pyval \<Rightarrow> (int \<Rightarrow> bool) \<Rightarrow> string \<Rightarrow> exn + int" where
  "int_setting v ok msg = bindE v (\<lambda>x. bindE (val_int x) (\<lambda>n. bindE (check (ok n) msg) (\<lambda>_. Inr n)))"

definition float_setting :: "exn + pyval \<Rightarrow> (rat \<Rightarrow> bool) \<Rightarrow> string \<Rightarrow> exn + rat" where
  "float_setting v ok msg = bindE v (\<lambda>x. bindE (val_float x) (\<lambda>q. bindE (check (ok q) msg) (\<lambda>_. Inr q)))"

definition path_setting :: "pure_path \<Rightarrow> pyval \<Rightarrow> string \<Rightarrow> exn + pure_path" where
  "path_setting home section key = bindE (require section key) (resolve_path home)"

section \<open>The mempool.space API\<close>

record endpoint_config =
  ep_name :: pyval
  ep_path :: pyval
  ep_parser :: pyval
  ep_interval_seconds :: rat

record mempool_api_config =
  ma_base_url :: string
  ma_output_dir :: pure_path
  ma_request_timeout_seconds :: rat
  ma_max_connection_retries :: int
  ma_retry_backoff_seconds :: rat
  ma_requests_per_minute :: rat
  ma_bucket_size :: int
  ma_endpoints :: "endpoint_config list"

definition load_endpoint :: "pyval \<Rightarrow> exn + endpoint_config" where
  "load_endpoint e =
     bindE (float_setting (require e ''interval_seconds'') (\<lambda>q. 0 < q) ''interval_seconds'') (\<lambda>i.
     bindE (require e ''name'') (\<lambda>n.
     bindE (require e ''path'') (\<lambda>p.
     bindE (require e ''parser'') (\<lambda>r.
       Inr \<lparr>ep_name = n, ep_path = p, ep_parser = r, ep_interval_seconds = i\<rparr>))))"

text \<open>What \<open>for e in endpoints_raw\<close> walks: a list, the keys of a mapping, the characters of a text.\<close>

fun elements :: "pyval \<Rightarrow> exn + pyval list" where
  "elements (VList xs) = Inr xs"
| "elements (VMap m) = Inr (map (\<lambda>p. VStr (fst p)) m)"
| "elements (VStr s) = Inr (map (\<lambda>c. VStr [c]) s)"
| "elements _ = Inl TypeError"

definition rstrip_slash :: "string \<Rightarrow> string" where
  "rstrip_slash s = rev (dropWhile (\<lambda>c. c = CHR ''/'') (rev s))"

definition load_mempool_api :: "(pyval \<Rightarrow> string) \<Rightarrow> pyval \<Rightarrow> pure_path \<Rightarrow> exn + mempool_api_config" where
  "load_mempool_api show raw home =
     bindE (require raw ''mempool_api'') (\<lambda>section.
     bindE (require section ''rate_limit'') (\<lambda>rate.
     bindE (require section ''endpoints'') (\<lambda>endpoints_raw.
     bindE (check (truthy endpoints_raw) ''mempool_api.endpoints'') (\<lambda>_.
     bindE (int_setting (require section ''max_connection_retries'') (\<lambda>n. 0 \<le> n) ''max_connection_retries'') (\<lambda>retries.
     bindE (float_setting (require rate ''requests_per_minute'') (\<lambda>q. 0 < q) ''requests_per_minute'') (\<lambda>rpm.
     bindE (int_setting (require rate ''bucket_size'') (\<lambda>n. 1 \<le> n) ''bucket_size'') (\<lambda>bucket.
     bindE (bindE (elements endpoints_raw) (mapE load_endpoint)) (\<lambda>endpoints.
     bindE (require section ''base_url'') (\<lambda>url.
     bindE (path_setting home section ''output_dir'') (\<lambda>out.
     bindE (bindE (require section ''request_timeout_seconds'') val_float) (\<lambda>timeout.
     bindE (bindE (require section ''retry_backoff_seconds'') val_float) (\<lambda>backoff.
       Inr \<lparr>ma_base_url = rstrip_slash (val_str show url), ma_output_dir = out, ma_request_timeout_seconds = timeout,
            ma_max_connection_retries = retries, ma_retry_backoff_seconds = backoff, ma_requests_per_minute = rpm,
            ma_bucket_size = bucket, ma_endpoints = endpoints\<rparr>))))))))))))"

section \<open>The mining pools data set\<close>

record pools_config =
  pd_source_url :: pyval
  pd_local_path :: pure_path
  pd_refresh_interval_seconds :: rat

definition load_mining_pools_dataset :: "pyval \<Rightarrow> pure_path \<Rightarrow> exn + pools_config" where
  "load_mining_pools_dataset raw home =
     bindE (require raw ''mining_pools_dataset'') (\<lambda>section.
     bindE (require section ''source_url'') (\<lambda>url.
     bindE (path_setting home section ''local_path'') (\<lambda>p.
     bindE (bindE (require section ''refresh_interval_seconds'') val_float) (\<lambda>i.
       Inr \<lparr>pd_source_url = url, pd_local_path = p, pd_refresh_interval_seconds = i\<rparr>))))"

section \<open>The node\<close>

record rpc_settings =
  rs_bitcoin_cli_path :: pyval
  rs_extra_args :: "pyval list"
  rs_rpcuser_env :: "pyval option"
  rs_rpcpassword_env :: "pyval option"
  rs_batch_size :: int
  rs_output_dir :: pure_path
  rs_state_dir :: pure_path
  rs_reorg_confirmations :: int
  rs_max_reorg_depth :: int
  rs_poll_interval_seconds :: rat
  rs_max_cli_retries :: int
  rs_cli_retry_backoff_seconds :: rat
  rs_cli_timeout_seconds :: rat
  rs_blocks_per_day :: int
  rs_max_block_weight :: int
  rs_halving_interval_blocks :: int
  rs_initial_subsidy_sats :: int
  rs_transport :: string
  rs_http_url :: "string option"
  rs_cookie_file :: "pure_path option"
  rs_catchup_workers :: int

definition load_http_url :: "(pyval \<Rightarrow> string) \<Rightarrow> pyval \<Rightarrow> exn + string option" where
  "load_http_url show section =
     bindE (get_or_none section ''http_url'') (\<lambda>v.
     bindE (check (v = None \<or> startswith (val_str show (the v)) ''http://'') ''rpc.http_url'') (\<lambda>_.
       Inr (map_option (val_str show) v)))"

definition load_cookie_file :: "(pyval \<Rightarrow> string) \<Rightarrow> pure_path \<Rightarrow> pyval option \<Rightarrow> pure_path option" where
  "load_cookie_file show home v = map_option (\<lambda>x. join_path home (path_of (val_str show x))) v"

text \<open>\<open>tuple(section.get("extra_args") or ())\<close>.\<close>

definition load_extra_args :: "pyval \<Rightarrow> exn + pyval list" where
  "load_extra_args section =
     bindE (get_or_none section ''extra_args'') (\<lambda>v. case v of None \<Rightarrow> Inr [] | Some x \<Rightarrow> elements x)"

definition load_rpc :: "(pyval \<Rightarrow> string) \<Rightarrow> pyval \<Rightarrow> pure_path \<Rightarrow> exn + rpc_settings" where
  "load_rpc show raw home =
     bindE (require raw ''rpc'') (\<lambda>section.
     bindE (int_setting (get_default section ''reorg_confirmations'' (VInt 6)) (\<lambda>n. 0 \<le> n) ''rpc.reorg_confirmations'') (\<lambda>confs.
     bindE (int_setting (get_default section ''max_reorg_depth'' (VInt 100)) (\<lambda>n. 1 \<le> n) ''rpc.max_reorg_depth'') (\<lambda>depth.
     bindE (float_setting (get_default section ''poll_interval_seconds'' (VInt 30)) (\<lambda>q. 0 < q) ''rpc.poll_interval_seconds'') (\<lambda>poll.
     bindE (int_setting (get_default section ''max_cli_retries'' (VInt 3)) (\<lambda>n. 0 \<le> n) ''rpc.max_cli_retries'') (\<lambda>retries.
     bindE (float_setting (get_default section ''cli_retry_backoff_seconds'' (VInt 5)) (\<lambda>q. 0 \<le> q) ''rpc.cli_retry_backoff_seconds'') (\<lambda>backoff.
     bindE (float_setting (get_default section ''cli_timeout_seconds'' (VInt 30)) (\<lambda>q. 0 < q) ''rpc.cli_timeout_seconds'') (\<lambda>timeout.
     bindE (int_setting (require section ''batch_size'') (\<lambda>n. 1 \<le> n) ''rpc.batch_size'') (\<lambda>batch.
     bindE (int_setting (require section ''blocks_per_day'') (\<lambda>n. 1 \<le> n) ''rpc.blocks_per_day'') (\<lambda>per_day.
     bindE (int_setting (require section ''max_block_weight'') (\<lambda>n. 1 \<le> n) ''rpc.max_block_weight'') (\<lambda>weight.
     bindE (int_setting (require section ''halving_interval_blocks'') (\<lambda>n. 1 \<le> n) ''rpc.halving_interval_blocks'') (\<lambda>halving.
     bindE (get_default section ''transport'' (VStr ''cli'')) (\<lambda>tr.
     bindE (check (val_str show tr \<in> {''cli'', ''http''}) ''rpc.transport'') (\<lambda>_.
     bindE (load_http_url show section) (\<lambda>url.
     bindE (get_or_none section ''cookie_file'') (\<lambda>cookie.
     bindE (int_setting (get_default section ''catchup_workers'' (VInt 1)) (\<lambda>n. 1 \<le> n) ''rpc.catchup_workers'') (\<lambda>workers.
     bindE (require section ''bitcoin_cli_path'') (\<lambda>cli_path.
     bindE (load_extra_args section) (\<lambda>extra.
     bindE (get_or_none section ''rpcuser_env'') (\<lambda>user.
     bindE (get_or_none section ''rpcpassword_env'') (\<lambda>password.
     bindE (path_setting home section ''output_dir'') (\<lambda>out.
     bindE (path_setting home section ''state_dir'') (\<lambda>state.
     bindE (bindE (require section ''initial_subsidy_sats'') val_int) (\<lambda>subsidy.
       Inr \<lparr>rs_bitcoin_cli_path = cli_path, rs_extra_args = extra, rs_rpcuser_env = user, rs_rpcpassword_env = password,
            rs_batch_size = batch, rs_output_dir = out, rs_state_dir = state, rs_reorg_confirmations = confs,
            rs_max_reorg_depth = depth, rs_poll_interval_seconds = poll, rs_max_cli_retries = retries,
            rs_cli_retry_backoff_seconds = backoff, rs_cli_timeout_seconds = timeout, rs_blocks_per_day = per_day,
            rs_max_block_weight = weight, rs_halving_interval_blocks = halving, rs_initial_subsidy_sats = subsidy,
            rs_transport = val_str show tr, rs_http_url = url, rs_cookie_file = load_cookie_file show home cookie,
            rs_catchup_workers = workers\<rparr>)))))))))))))))))))))))"

text \<open>\<open>getenv\<close> is \<open>os.environ.get\<close>; the names of the two variables are texts.\<close>

definition auth_args :: "(string \<Rightarrow> string option) \<Rightarrow> (pyval \<Rightarrow> string) \<Rightarrow> rpc_settings \<Rightarrow> string list" where
  "auth_args getenv show c =
     (case (rs_rpcuser_env c, rs_rpcpassword_env c) of
        (Some u, Some p) \<Rightarrow>
          (if \<not> truthy u \<or> \<not> truthy p then []
           else (case (getenv (val_str show u), getenv (val_str show p)) of
                   (Some user, Some password) \<Rightarrow>
                     (if user = '''' \<or> password = '''' then [] else [''-rpcuser='' @ user, ''-rpcpassword='' @ password])
                 | _ \<Rightarrow> []))
      | _ \<Rightarrow> [])"

section \<open>Stale blocks, mempool watch, logging\<close>

record stale_config =
  sc_output_dir :: pure_path
  sc_state_dir :: pure_path
  sc_node_poll_interval_seconds :: rat
  sc_request_timeout_seconds :: rat
  sc_csv_url :: pyval
  sc_github_poll_interval_seconds :: rat

definition load_stale_blocks :: "pyval \<Rightarrow> pure_path \<Rightarrow> exn + stale_config" where
  "load_stale_blocks raw home =
     bindE (require raw ''stale_blocks'') (\<lambda>section.
     bindE (require section ''github'') (\<lambda>github.
     bindE (float_setting (get_default section ''node_poll_interval_seconds'' (VInt 3600)) (\<lambda>q. 0 < q) ''node_poll_interval_seconds'') (\<lambda>node_poll.
     bindE (float_setting (get_default section ''request_timeout_seconds'' (VInt 30)) (\<lambda>q. 0 < q) ''request_timeout_seconds'') (\<lambda>timeout.
     bindE (float_setting (require github ''poll_interval_seconds'') (\<lambda>q. 0 < q) ''github.poll_interval_seconds'') (\<lambda>github_poll.
     bindE (path_setting home section ''output_dir'') (\<lambda>out.
     bindE (path_setting home section ''state_dir'') (\<lambda>state.
     bindE (require github ''csv_url'') (\<lambda>url.
       Inr \<lparr>sc_output_dir = out, sc_state_dir = state, sc_node_poll_interval_seconds = node_poll,
            sc_request_timeout_seconds = timeout, sc_csv_url = url, sc_github_poll_interval_seconds = github_poll\<rparr>))))))))"

record mempool_settings =
  mw_zmq_endpoint :: "pyval option"
  mw_sanctions_list_paths :: "pure_path list"
  mw_output_dir :: pure_path
  mw_state_dir :: pure_path
  mw_reconcile_interval_seconds :: rat
  mw_rpc_workers :: int
  mw_forget_after_confirmations :: int
  mw_max_confirmation_scan_blocks :: int

text \<open>One path may be given as a text.\<close>

fun as_list :: "pyval \<Rightarrow> pyval" where
  "as_list (VStr s) = VList [VStr s]"
| "as_list v = v"

definition load_mempool_watch :: "(pyval \<Rightarrow> string) \<Rightarrow> pyval \<Rightarrow> pure_path \<Rightarrow> exn + mempool_settings" where
  "load_mempool_watch show raw home =
     bindE (require raw ''mempool_watch'') (\<lambda>section.
     bindE (bindE (require section ''sanctions_list_paths'') (\<lambda>v. Inr (as_list v))) (\<lambda>lists.
     bindE (check (truthy lists) ''mempool_watch.sanctions_list_paths'') (\<lambda>_.
     bindE (float_setting (get_default section ''reconcile_interval_seconds'' (VInt 300)) (\<lambda>q. 0 < q) ''reconcile_interval_seconds'') (\<lambda>interval.
     bindE (int_setting (get_default section ''rpc_workers'' (VInt 4)) (\<lambda>n. 1 \<le> n) ''rpc_workers'') (\<lambda>workers.
     bindE (int_setting (get_default section ''forget_after_confirmations'' (VInt 6)) (\<lambda>n. 1 \<le> n) ''forget_after_confirmations'') (\<lambda>forget.
     bindE (int_setting (get_default section ''max_confirmation_scan_blocks'' (VInt 50)) (\<lambda>n. 1 \<le> n) ''max_confirmation_scan_blocks'') (\<lambda>scan.
     bindE (get_or_none section ''zmq_endpoint'') (\<lambda>zmq.
     bindE (elements lists) (\<lambda>paths.
     bindE (path_setting home section ''output_dir'') (\<lambda>out.
     bindE (path_setting home section ''state_dir'') (\<lambda>state.
       Inr \<lparr>mw_zmq_endpoint = zmq, mw_sanctions_list_paths = map (\<lambda>p. join_path home (path_of (val_str show p))) paths,
            mw_output_dir = out, mw_state_dir = state, mw_reconcile_interval_seconds = interval, mw_rpc_workers = workers,
            mw_forget_after_confirmations = forget, mw_max_confirmation_scan_blocks = scan\<rparr>)))))))))))"

record logging_config =
  lg_level :: string
  lg_log_dir :: pure_path

definition upper :: "string \<Rightarrow> string" where
  "upper s = map (\<lambda>c. if 97 \<le> (of_char c :: nat) \<and> (of_char c :: nat) \<le> 122 then char_of (of_char c - 32 :: nat) else c) s"

definition load_logging :: "(pyval \<Rightarrow> string) \<Rightarrow> pyval \<Rightarrow> pure_path \<Rightarrow> exn + logging_config" where
  "load_logging show raw home =
     bindE (get_or_none raw ''logging'') (\<lambda>v.
     bindE (let section = (case v of None \<Rightarrow> VMap [] | Some x \<Rightarrow> x) in
            bindE (get_default section ''level'' (VStr ''INFO'')) (\<lambda>level.
            bindE (get_default section ''log_dir'' (VStr ''logs'')) (\<lambda>dir. Inr (level, dir)))) (\<lambda>(level, dir).
       Inr \<lparr>lg_level = upper (val_str show level), lg_log_dir = join_path home (path_of (val_str show dir))\<rparr>))"

section \<open>The whole file\<close>

record app_config =
  ac_root :: pure_path
  ac_logging :: logging_config
  ac_mempool_api :: mempool_api_config
  ac_pools :: pools_config
  ac_rpc :: rpc_settings
  ac_stale_blocks :: stale_config
  ac_mempool_watch :: mempool_settings

text \<open>None is a file that does not exist; what YAML cannot parse is raised by the parser.\<close>

definition load_config :: "(pyval \<Rightarrow> string) \<Rightarrow> pure_path \<Rightarrow> (exn + pyval) option \<Rightarrow> exn + app_config" where
  "load_config show home file =
     (case file of
        None \<Rightarrow> Inl (ConfigError ''config file not found'')
      | Some parsed \<Rightarrow>
          bindE parsed (\<lambda>v.
          let raw = (if truthy v then v else VMap []) in
          bindE (check (case raw of VMap m \<Rightarrow> True | _ \<Rightarrow> False) ''must be a YAML mapping'') (\<lambda>_.
          bindE (load_logging show raw home) (\<lambda>l.
          bindE (load_mempool_api show raw home) (\<lambda>a.
          bindE (load_mining_pools_dataset raw home) (\<lambda>p.
          bindE (load_rpc show raw home) (\<lambda>r.
          bindE (load_stale_blocks raw home) (\<lambda>s.
          bindE (load_mempool_watch show raw home) (\<lambda>m.
            Inr \<lparr>ac_root = home, ac_logging = l, ac_mempool_api = a, ac_pools = p, ac_rpc = r, ac_stale_blocks = s, ac_mempool_watch = m\<rparr>)))))))))"

section \<open>Accepted settings are in range\<close>

text \<open>What the other components rely on.\<close>

definition rpc_in_range :: "rpc_settings \<Rightarrow> bool" where
  "rpc_in_range c \<longleftrightarrow>
     0 \<le> rs_reorg_confirmations c \<and> 1 \<le> rs_max_reorg_depth c \<and> 0 < rs_poll_interval_seconds c \<and>
     0 \<le> rs_max_cli_retries c \<and> 0 \<le> rs_cli_retry_backoff_seconds c \<and> 0 < rs_cli_timeout_seconds c \<and>
     1 \<le> rs_batch_size c \<and> 1 \<le> rs_blocks_per_day c \<and> 1 \<le> rs_max_block_weight c \<and> 1 \<le> rs_halving_interval_blocks c \<and>
     1 \<le> rs_catchup_workers c \<and> rs_transport c \<in> {''cli'', ''http''}"

definition api_in_range :: "mempool_api_config \<Rightarrow> bool" where
  "api_in_range c \<longleftrightarrow>
     ma_endpoints c \<noteq> [] \<and> list_all (\<lambda>ep. 0 < ep_interval_seconds ep) (ma_endpoints c) \<and>
     0 \<le> ma_max_connection_retries c \<and> 0 < ma_requests_per_minute c \<and> 1 \<le> ma_bucket_size c"

definition watch_in_range :: "mempool_settings \<Rightarrow> bool" where
  "watch_in_range c \<longleftrightarrow>
     mw_sanctions_list_paths c \<noteq> [] \<and> 0 < mw_reconcile_interval_seconds c \<and> 1 \<le> mw_rpc_workers c \<and>
     1 \<le> mw_forget_after_confirmations c \<and> 1 \<le> mw_max_confirmation_scan_blocks c"

definition stale_in_range :: "stale_config \<Rightarrow> bool" where
  "stale_in_range c \<longleftrightarrow>
     0 < sc_node_poll_interval_seconds c \<and> 0 < sc_request_timeout_seconds c \<and> 0 < sc_github_poll_interval_seconds c"

lemma check_Inr [simp]: "check ok m = Inr u \<longleftrightarrow> ok"
  by (simp add: check_def)

lemma int_setting_Inr: "int_setting v ok m = Inr n \<Longrightarrow> ok n"
  by (auto simp: int_setting_def bindE_Inr)

lemma float_setting_Inr: "float_setting v ok m = Inr q \<Longrightarrow> ok q"
  by (auto simp: float_setting_def bindE_Inr)

lemma elements_nonempty: "elements v = Inr xs \<Longrightarrow> truthy v \<Longrightarrow> xs \<noteq> []"
  by (cases v) auto

lemma load_endpoints_range:
  "mapE load_endpoint vs = Inr eps \<Longrightarrow> length eps = length vs \<and> list_all (\<lambda>ep. 0 < ep_interval_seconds ep) eps"
proof (induction vs arbitrary: eps)
  case (Cons v vs)
  then obtain ep rest where e: "load_endpoint v = Inr ep" "mapE load_endpoint vs = Inr rest" "eps = ep # rest"
    by (auto simp: bindE_Inr)
  have "0 < ep_interval_seconds ep"
    using e(1) by (auto simp: load_endpoint_def bindE_Inr dest: float_setting_Inr)
  with Cons.IH [OF e(2)] e(3) show ?case by simp
qed simp

lemma load_api_range: "load_mempool_api show raw home = Inr c \<Longrightarrow> api_in_range c"
  unfolding load_mempool_api_def
  by (clarsimp simp: bindE_Inr api_in_range_def)
    (fastforce dest: int_setting_Inr float_setting_Inr load_endpoints_range elements_nonempty)

lemma load_stale_range: "load_stale_blocks raw home = Inr c \<Longrightarrow> stale_in_range c"
  unfolding load_stale_blocks_def
  by (clarsimp simp: bindE_Inr stale_in_range_def) (auto dest: float_setting_Inr)

lemma load_watch_range: "load_mempool_watch show raw home = Inr c \<Longrightarrow> watch_in_range c"
  unfolding load_mempool_watch_def
  by (clarsimp simp: bindE_Inr watch_in_range_def) (auto dest: int_setting_Inr float_setting_Inr elements_nonempty)

lemma load_rpc_range: "load_rpc show raw home = Inr c \<Longrightarrow> rpc_in_range c"
  unfolding load_rpc_def
  by (clarsimp simp: bindE_Inr rpc_in_range_def) (auto dest: int_setting_Inr float_setting_Inr)


text \<open>A configuration that loads.\<close>

definition sample_config :: pyval where
  "sample_config = VMap
     [(''mempool_api'', VMap
        [(''rate_limit'', VMap [(''requests_per_minute'', VFloat 10), (''bucket_size'', VInt 5)]),
         (''endpoints'', VList [VMap [(''name'', VStr ''fees''), (''path'', VStr ''/v1/fees''), (''parser'', VStr ''json''),
                                    (''interval_seconds'', VFloat 60)]]),
         (''max_connection_retries'', VInt 3), (''base_url'', VStr ''https://x/''), (''output_dir'', VStr ''out''),
         (''request_timeout_seconds'', VFloat 30), (''retry_backoff_seconds'', VFloat 5)]),
      (''mining_pools_dataset'', VMap
        [(''source_url'', VStr ''u''), (''local_path'', VStr ''/p''), (''refresh_interval_seconds'', VFloat 9)]),
      (''rpc'', VMap
        [(''poll_interval_seconds'', VFloat 30), (''cli_retry_backoff_seconds'', VFloat 0), (''cli_timeout_seconds'', VFloat 30),
         (''batch_size'', VInt 1), (''blocks_per_day'', VStr ''144''), (''max_block_weight'', VInt 4000000),
         (''halving_interval_blocks'', VInt 210000), (''bitcoin_cli_path'', VStr ''b''), (''output_dir'', VStr ''o''),
         (''state_dir'', VStr ''s''), (''initial_subsidy_sats'', VInt 5000000000)]),
      (''stale_blocks'', VMap
        [(''node_poll_interval_seconds'', VFloat 3600), (''request_timeout_seconds'', VFloat 30), (''output_dir'', VStr ''o''),
         (''state_dir'', VStr ''s''), (''github'', VMap [(''csv_url'', VStr ''u''), (''poll_interval_seconds'', VFloat 60)])]),
      (''mempool_watch'', VMap
        [(''sanctions_list_paths'', VStr ''l''), (''reconcile_interval_seconds'', VFloat 300), (''output_dir'', VStr ''o''),
         (''state_dir'', VStr ''s'')])]"

lemma sample_config_loads:
  "(case load_config (\<lambda>_. ''x'') (True, []) (Some (Inr sample_config)) of Inr c \<Rightarrow> rs_blocks_per_day (ac_rpc c) | Inl e \<Rightarrow> 0) = 144"
  by code_simp


end
