(* ===== verification/Rpc_Client.thy ===== *)
theory Rpc_Client
  imports Config
begin

text \<open>
  btc_parser_app/rpc/client.py: one RPC call over either transport, a bitcoin-cli process per call or
  JSON-RPC over a kept-alive HTTP connection, with the retries around it. Processes, the HTTP server,
  the cookie file and the JSON parser are the environment: what it answers may depend on how many
  questions were asked and on how many backoffs were slept through so far.
\<close>

section \<open>The environment and the state of a thread\<close>

record http_response =
  hr_status :: int
  hr_will_close :: bool
  hr_payload :: string

text \<open>
  \<open>re_process\<close> is \<open>subprocess.run(check=True)\<close>: the standard output, or the exception it raises (a
  failed exit is a CalledProcessError with the standard error). \<open>re_request\<close> is one POST and its
  response, or the OSError or HTTPException it raises.
\<close>

record rpc_env =
  re_getenv :: "string \<Rightarrow> string option"
  re_show :: "pyval \<Rightarrow> string"
  re_dumps :: "pyval \<Rightarrow> string"
  re_loads :: "bool \<Rightarrow> string \<Rightarrow> exn + pyval"
  re_urlsplit :: "string \<Rightarrow> string option \<times> (exn + int option)"
  re_home :: pure_path
  re_expanduser :: "pure_path \<Rightarrow> pure_path"
  re_process :: "nat \<Rightarrow> nat \<Rightarrow> pyval list \<Rightarrow> exn + string"
  re_read_cookie :: "nat \<Rightarrow> nat \<Rightarrow> pure_path \<Rightarrow> exn + string"
  re_request :: "nat \<Rightarrow> nat \<Rightarrow> string \<times> int \<Rightarrow> string option \<Rightarrow> string \<Rightarrow> exn + http_response"

text \<open>\<open>hc_open\<close> is \<open>_conn is not None\<close>.\<close>

record http_conn =
  hc_endpoint :: "string \<times> int"
  hc_open :: bool
  hc_auth :: "string option"
  hc_next_id :: int

text \<open>\<open>rp_asked\<close> counts the processes and requests, \<open>rp_slept\<close> the backoffs.\<close>

record rpc_state =
  rp_asked :: nat
  rp_slept :: nat
  rp_conn :: "http_conn option"

type_synonym 'a calling = "(rpc_state, 'a) action"

definition rp_ask :: "(nat \<Rightarrow> nat \<Rightarrow> exn + 'a) \<Rightarrow> 'a calling" where
  "rp_ask answer s = (answer (rp_asked s) (rp_slept s), s\<lparr>rp_asked := rp_asked s + 1\<rparr>)"

definition rp_sleep :: "unit calling" where
  "rp_sleep = updA (\<lambda>s. s\<lparr>rp_slept := rp_slept s + 1\<rparr>)"

section \<open>Retries\<close>

text \<open>
  The loop of \<open>run_cli\<close> and of \<open>_http_call\<close> with the given number of attempts left: \<open>failure\<close> are the
  exceptions it retries, \<open>rpc_level\<close> those in which the node itself refuses.
\<close>

primrec retry_loop :: "nat \<Rightarrow> bool \<Rightarrow> (exn \<Rightarrow> bool) \<Rightarrow> (exn \<Rightarrow> bool) \<Rightarrow> 'a calling \<Rightarrow> 'a calling" where
  "retry_loop 0 retry failure rpc_level attempt = raise (RpcCliError ''failed after the last attempt'')"
| "retry_loop (Suc left) retry failure rpc_level attempt =
     catchA attempt failure (\<lambda>x.
       if \<not> retry \<and> rpc_level x then raise (RpcError ''refused by the node'')
       else thenA (if left = 0 then ret () else rp_sleep) (retry_loop left retry failure rpc_level attempt))"

text \<open>\<open>range(config.max_cli_retries + 1)\<close>.\<close>

definition attempts :: "rpc_settings \<Rightarrow> nat" where
  "attempts c = nat (rs_max_cli_retries c + 1)"

section \<open>The bitcoin-cli transport\<close>

fun cli_failure :: "exn \<Rightarrow> bool" where
  "cli_failure (CalledProcessError err) = True"
| "cli_failure TimeoutExpired = True"
| "cli_failure (OSError m) = True"
| "cli_failure _ = False"

fun cli_rpc_error :: "exn \<Rightarrow> bool" where
  "cli_rpc_error (CalledProcessError err) = text_in ''error code:'' err"
| "cli_rpc_error _ = False"

definition cli_command :: "rpc_env \<Rightarrow> rpc_settings \<Rightarrow> string list \<Rightarrow> pyval list" where
  "cli_command e c cmd =
     rs_bitcoin_cli_path c # rs_extra_args c @ map VStr (auth_args (re_getenv e) (re_show e) c @ cmd)"

definition run_cli :: "rpc_env \<Rightarrow> rpc_settings \<Rightarrow> string list \<Rightarrow> bool \<Rightarrow> string calling" where
  "run_cli e c cmd retry =
     retry_loop (attempts c) retry cli_failure cli_rpc_error
       (bindA (rp_ask (\<lambda>n t. re_process e n t (cli_command e c cmd))) (\<lambda>out. ret (strip out)))"

section \<open>Where the HTTP transport connects\<close>

text \<open>\<open>arg.split("=", 1)[1]\<close>.\<close>

definition after_eq :: "string \<Rightarrow> string" where
  "after_eq arg = tl (dropWhile (\<lambda>ch. ch \<noteq> CHR ''='') arg)"

text \<open>\<open>arg.startswith\<close> of an argument that is no text raises.\<close>

fun text_arg :: "pyval \<Rightarrow> exn + string" where
  "text_arg (VStr s) = Inr s"
| "text_arg _ = Inl AttributeError"

definition extra_arg :: "rpc_settings \<Rightarrow> string \<Rightarrow> exn + string option" where
  "extra_arg c name =
     bindE (mapE text_arg (rs_extra_args c)) (\<lambda>args.
       Inr (fold (\<lambda>arg value. if startswith arg (''-'' @ name @ ''='') then Some (after_eq arg) else value) args None))"

definition CHAIN_FLAGS :: "(string, string) pydict" where
  "CHAIN_FLAGS = [(''-regtest'', ''regtest''), (''-testnet'', ''testnet3''), (''-testnet4'', ''testnet4''), (''-signet'', ''signet'')]"

definition DEFAULT_PORTS :: "(string, int) pydict" where
  "DEFAULT_PORTS = [(''main'', 8332), (''testnet3'', 18332), (''testnet4'', 48332), (''signet'', 38332), (''regtest'', 18443)]"

definition chain_arg :: "string \<Rightarrow> string \<Rightarrow> string" where
  "chain_arg arg chain =
     (case map_of CHAIN_FLAGS arg of
        Some ch \<Rightarrow> ch
      | None \<Rightarrow> if startswith arg ''-chain='' then (if after_eq arg = ''test'' then ''testnet3'' else after_eq arg) else chain)"

text \<open>An argument that is no text and cannot be hashed raises TypeError here.\<close>

fun chain_text :: "pyval \<Rightarrow> exn + string" where
  "chain_text (VStr s) = Inr s"
| "chain_text (VList xs) = Inl TypeError"
| "chain_text (VMap m) = Inl TypeError"
| "chain_text _ = Inl AttributeError"

definition chain_of :: "rpc_settings \<Rightarrow> exn + string" where
  "chain_of c = bindE (mapE chain_text (rs_extra_args c)) (\<lambda>args. Inr (fold chain_arg args ''main''))"

definition default_port :: "rpc_settings \<Rightarrow> exn + int" where
  "default_port c =
     bindE (chain_of c) (\<lambda>ch. case map_of DEFAULT_PORTS ch of None \<Rightarrow> Inl (KeyError ch) | Some p \<Rightarrow> Inr p)"

text \<open>\<open>s.rpartition(":")\<close> of a text with a colon: what is before and after the last one.\<close>

definition rpartition_colon :: "string \<Rightarrow> string \<times> string" where
  "rpartition_colon s =
     (let back = takeWhile (\<lambda>ch. ch \<noteq> CHR '':'') (rev s) in (rev (drop (Suc (length back)) (rev s)), rev back))"

definition strip_brackets :: "string \<Rightarrow> string" where
  "strip_brackets s =
     rev (dropWhile (\<lambda>ch. ch \<in> {CHR ''['', CHR '']''}) (rev (dropWhile (\<lambda>ch. ch \<in> {CHR ''['', CHR '']''}) s)))"

text \<open>\<open>v or d\<close> of a text that may be None.\<close>

definition text_or :: "string option \<Rightarrow> string \<Rightarrow> string" where
  "text_or v d = (case v of None \<Rightarrow> d | Some s \<Rightarrow> if s = '''' then d else s)"

definition LOCALHOST :: string where
  "LOCALHOST = ''127.0.0.1''"

definition extra_endpoint :: "rpc_settings \<Rightarrow> exn + string \<times> int" where
  "extra_endpoint c =
     bindE (extra_arg c ''rpcconnect'') (\<lambda>connect.
     bindE (extra_arg c ''rpcport'') (\<lambda>given.
       let host = text_or connect LOCALHOST;
           split = (CHR '':'' \<in> set host \<and> \<not> startswith host ''['');
           name = (if split then fst (rpartition_colon host) else host);
           port = (if split then text_or given (snd (rpartition_colon host)) else text_or given '''')
       in bindE (if port = '''' then default_port c else parse_int port) (\<lambda>n. Inr (strip_brackets name, n))))"

definition http_endpoint :: "rpc_env \<Rightarrow> rpc_settings \<Rightarrow> exn + string \<times> int" where
  "http_endpoint e c =
     (case rs_http_url c of
        Some url \<Rightarrow>
          (if url = '''' then extra_endpoint c
           else case re_urlsplit e url of
             (host, port) \<Rightarrow> bindE port (\<lambda>p.
                bindE (if p \<in> {None, Some 0} then default_port c else Inr (the p)) (\<lambda>n. Inr (text_or host LOCALHOST, n))))
      | None \<Rightarrow> extra_endpoint c)"

definition cookie_path :: "rpc_env \<Rightarrow> rpc_settings \<Rightarrow> exn + pure_path" where
  "cookie_path e c =
     (case rs_cookie_file c of
        Some p \<Rightarrow> Inr p
      | None \<Rightarrow>
          bindE (chain_of c) (\<lambda>ch.
          bindE (extra_arg c ''datadir'') (\<lambda>given.
          bindE (extra_arg c ''rpccookiefile'') (\<lambda>explicit.
            let datadir = re_expanduser e (if given \<in> {None, Some ''''} then join_path (re_home e) (path_of ''.bitcoin'')
                                           else path_of (the given));
                chain_dir = (if ch = ''main'' then datadir else join_path datadir (path_of ch))
            in Inr (if explicit \<in> {None, Some ''''} then join_path chain_dir (path_of ''.cookie'')
                    else join_path chain_dir (re_expanduser e (path_of (the explicit))))))))"

section \<open>The HTTP connection\<close>

definition BASE64 :: string where
  "BASE64 = ''ABCDEFGHIJKLMNOPQRSTUVWXYZabcdefghijklmnopqrstuvwxyz0123456789+/''"

fun b64encode :: "nat list \<Rightarrow> string" where
  "b64encode [] = []"
| "b64encode [a] = [BASE64 ! (a div 4), BASE64 ! (a mod 4 * 16), CHR ''='', CHR ''='']"
| "b64encode [a, b] = [BASE64 ! (a div 4), BASE64 ! (a mod 4 * 16 + b div 16), BASE64 ! (b mod 16 * 4), CHR ''='']"
| "b64encode (a # b # d # rest) =
     BASE64 ! (a div 4) # BASE64 ! (a mod 4 * 16 + b div 16) # BASE64 ! (b mod 16 * 4 + d div 64) # BASE64 ! (d mod 64) #
     b64encode rest"

text \<open>A text is its UTF-8 bytes here. The cookie is read when no user and password are set.\<close>

definition auth_header :: "rpc_env \<Rightarrow> rpc_settings \<Rightarrow> string calling" where
  "auth_header e c =
     bindA (case auth_args (re_getenv e) (re_show e) c of
              user # password # _ \<Rightarrow> ret (after_eq user @ '':'' @ after_eq password)
            | _ \<Rightarrow>
                bindA (liftA (cookie_path e c)) (\<lambda>p.
                catchA (bindA (getA (\<lambda>s. re_read_cookie e (rp_asked s) (rp_slept s) p)) (\<lambda>r. bindA (liftA r) (\<lambda>t. ret (strip t))))
                  is_os_error (\<lambda>_. raise (HttpRpcError ''cannot read RPC cookie file''))))
       (\<lambda>userpass. ret (''Basic '' @ b64encode (map of_char userpass)))"

definition on_conn :: "(http_conn \<Rightarrow> http_conn) \<Rightarrow> unit calling" where
  "on_conn f = updA (\<lambda>s. s\<lparr>rp_conn := map_option f (rp_conn s)\<rparr>)"

definition conn :: "rpc_state \<Rightarrow> http_conn" where
  "conn s = the (rp_conn s)"

definition close :: "unit calling" where
  "close = on_conn (\<lambda>h. h\<lparr>hc_open := False\<rparr>)"

definition roundtrip :: "rpc_env \<Rightarrow> rpc_settings \<Rightarrow> string \<Rightarrow> http_response calling" where
  "roundtrip e c body =
     bindA (getA conn) (\<lambda>h.
     thenA (if hc_open h then ret ()
            else bindA (auth_header e c) (\<lambda>a. on_conn (\<lambda>h. h\<lparr>hc_auth := Some a, hc_open := True\<rparr>)))
     (bindA (getA conn) (\<lambda>h. rp_ask (\<lambda>n t. re_request e n t (hc_endpoint h) (hc_auth h) body))))"

fun connection_lost :: "exn \<Rightarrow> bool" where
  "connection_lost (OSError m) = True"
| "connection_lost HTTPException = True"
| "connection_lost _ = False"

definition http_body :: "rpc_env \<Rightarrow> int \<Rightarrow> string \<Rightarrow> pyval list \<Rightarrow> string" where
  "http_body e n meth params =
     re_dumps e (VMap [(''jsonrpc'', VStr ''1.0''), (''id'', VInt n), (''method'', VStr meth), (''params'', VList params)])"

text \<open>The reply once it has parsed; \<open>error.get\<close> of an error that is no object raises AttributeError.\<close>

definition reply_result :: "http_response \<Rightarrow> pyval \<Rightarrow> pyval calling" where
  "reply_result resp reply =
     (case reply of
        VMap m \<Rightarrow>
          (case map_of m ''result'' of
             None \<Rightarrow> thenA close (raise (HttpRpcError ''unexpected body''))
           | Some result \<Rightarrow>
               (case map_of m ''error'' of
                  Some (VMap x) \<Rightarrow> raise (HttpRpcCallError ''error code:'')
                | None \<Rightarrow> thenA (if hr_will_close resp then close else ret ()) (ret result)
                | Some VNull \<Rightarrow> thenA (if hr_will_close resp then close else ret ()) (ret result)
                | Some x \<Rightarrow> raise AttributeError))
      | _ \<Rightarrow> thenA close (raise (HttpRpcError ''unexpected body'')))"

text \<open>\<open>resp.status == 401\<close> is tested before the payload is parsed.\<close>

definition response_result :: "rpc_env \<Rightarrow> bool \<Rightarrow> http_response \<Rightarrow> pyval calling" where
  "response_result e dec resp =
     (if hr_status resp = 401 then thenA close (raise (HttpRpcError ''HTTP 401 Unauthorized''))
      else case re_loads e dec (hr_payload resp) of
             Inl (ValueError m) \<Rightarrow> thenA close (raise (HttpRpcError ''non-JSON body''))
           | Inl x \<Rightarrow> raise x
           | Inr reply \<Rightarrow> reply_result resp reply)"

definition conn_call :: "rpc_env \<Rightarrow> rpc_settings \<Rightarrow> string \<Rightarrow> pyval list \<Rightarrow> bool \<Rightarrow> pyval calling" where
  "conn_call e c meth params dec =
     thenA (on_conn (\<lambda>h. h\<lparr>hc_next_id := hc_next_id h + 1\<rparr>))
     (bindA (getA conn) (\<lambda>h.
      let body = http_body e (hc_next_id h) meth params in
      bindA (catchA
               (catchA (roundtrip e c body) connection_lost
                  (\<lambda>x. if \<not> hc_open h then raise x else thenA close (roundtrip e c body)))
               connection_lost
               (\<lambda>_. thenA close (raise (HttpRpcError ''connection failed''))))
        (response_result e dec)))"

fun http_failure :: "exn \<Rightarrow> bool" where
  "http_failure (HttpRpcError m) = True"
| "http_failure (HttpRpcCallError m) = True"
| "http_failure _ = False"

fun http_rpc_error :: "exn \<Rightarrow> bool" where
  "http_rpc_error (HttpRpcCallError m) = True"
| "http_rpc_error _ = False"

text \<open>The connection of this thread and configuration, made at the first call.\<close>

definition http_connection :: "rpc_env \<Rightarrow> rpc_settings \<Rightarrow> unit calling" where
  "http_connection e c =
     bindA (getA rp_conn) (\<lambda>known.
       case known of
         Some h \<Rightarrow> ret ()
       | None \<Rightarrow> bindA (liftA (http_endpoint e c)) (\<lambda>endpoint.
           updA (\<lambda>s. s\<lparr>rp_conn := Some \<lparr>hc_endpoint = endpoint, hc_open = False, hc_auth = None, hc_next_id = 0\<rparr>\<rparr>)))"

definition http_call :: "rpc_env \<Rightarrow> rpc_settings \<Rightarrow> string \<Rightarrow> pyval list \<Rightarrow> bool \<Rightarrow> bool \<Rightarrow> pyval calling" where
  "http_call e c meth params dec retry =
     thenA (http_connection e c)
       (retry_loop (attempts c) retry http_failure http_rpc_error (conn_call e c meth params dec))"

section \<open>One call over the configured transport\<close>

fun cli_arg :: "rpc_env \<Rightarrow> pyval \<Rightarrow> string" where
  "cli_arg e (VBool b) = (if b then ''true'' else ''false'')"
| "cli_arg e (VList xs) = re_dumps e (VList xs)"
| "cli_arg e (VMap m) = re_dumps e (VMap m)"
| "cli_arg e v = val_str (re_show e) v"

definition call :: "rpc_env \<Rightarrow> rpc_settings \<Rightarrow> string \<Rightarrow> pyval list \<Rightarrow> bool \<Rightarrow> bool \<Rightarrow> bool \<Rightarrow> pyval calling" where
  "call e c meth params as_text dec retry =
     (if rs_transport c = ''http'' then http_call e c meth params dec retry
      else bindA (run_cli e c (meth # map (cli_arg e) params) retry) (\<lambda>raw.
        if as_text then ret (VStr raw)
        else if raw = '''' then ret VNull
        else liftA (re_loads e dec raw)))"

definition get_block_count :: "rpc_env \<Rightarrow> rpc_settings \<Rightarrow> int calling" where
  "get_block_count e c = bindA (call e c ''getblockcount'' [] False False True) (\<lambda>v. liftA (val_int v))"

definition get_block_hash :: "rpc_env \<Rightarrow> rpc_settings \<Rightarrow> int \<Rightarrow> pyval calling" where
  "get_block_hash e c height = call e c ''getblockhash'' [VInt height] True False True"

definition get_block :: "rpc_env \<Rightarrow> rpc_settings \<Rightarrow> string \<Rightarrow> int \<Rightarrow> pyval calling" where
  "get_block e c block_hash verbosity = call e c ''getblock'' [VStr block_hash, VInt verbosity] False True True"

definition get_block_header :: "rpc_env \<Rightarrow> rpc_settings \<Rightarrow> string \<Rightarrow> pyval calling" where
  "get_block_header e c block_hash = call e c ''getblockheader'' [VStr block_hash] False False True"

definition get_block_header_raw :: "rpc_env \<Rightarrow> rpc_settings \<Rightarrow> string \<Rightarrow> pyval calling" where
  "get_block_header_raw e c block_hash = call e c ''getblockheader'' [VStr block_hash, VBool False] True False True"

definition get_chain_tips :: "rpc_env \<Rightarrow> rpc_settings \<Rightarrow> pyval calling" where
  "get_chain_tips e c = call e c ''getchaintips'' [] False False True"

definition get_network_info :: "rpc_env \<Rightarrow> rpc_settings \<Rightarrow> pyval calling" where
  "get_network_info e c = call e c ''getnetworkinfo'' [] False False True"

definition get_raw_mempool_txids :: "rpc_env \<Rightarrow> rpc_settings \<Rightarrow> pyval calling" where
  "get_raw_mempool_txids e c = call e c ''getrawmempool'' [] False False True"

definition rpc_raw_transaction :: "rpc_env \<Rightarrow> rpc_settings \<Rightarrow> string \<Rightarrow> string option \<Rightarrow> pyval calling" where
  "rpc_raw_transaction e c txid blockhash =
     call e c ''getrawtransaction''
       ([VStr txid, VInt 2] @ (if blockhash \<in> {None, Some ''''} then [] else [VStr (the blockhash)])) False True False"

definition rpc_tx_out :: "rpc_env \<Rightarrow> rpc_settings \<Rightarrow> string \<Rightarrow> int \<Rightarrow> bool \<Rightarrow> pyval calling" where
  "rpc_tx_out e c txid vout include_mempool =
     call e c ''gettxout'' [VStr txid, VInt vout, VBool include_mempool] False True False"

definition rpc_tx_spending_prevout :: "rpc_env \<Rightarrow> rpc_settings \<Rightarrow> pyval list \<Rightarrow> pyval calling" where
  "rpc_tx_spending_prevout e c outpoints = call e c ''gettxspendingprevout'' [VList outpoints] False False False"

text \<open>\<open>block[key]\<close> of what \<open>getblock\<close> returned.\<close>

fun val_item :: "pyval \<Rightarrow> string \<Rightarrow> exn + pyval" where
  "val_item (VMap m) key = (case map_of m key of None \<Rightarrow> Inl (KeyError key) | Some v \<Rightarrow> Inr v)"
| "val_item _ key = Inl TypeError"

definition get_block_txids :: "rpc_env \<Rightarrow> rpc_settings \<Rightarrow> string \<Rightarrow> (int \<times> int \<times> pyval list) calling" where
  "get_block_txids e c block_hash =
     bindA (get_block e c block_hash 1) (\<lambda>block.
     bindA (liftA (bindE (val_item block ''height'') val_int)) (\<lambda>height.
     bindA (liftA (bindE (val_item block ''confirmations'') val_int)) (\<lambda>confirmations.
     bindA (liftA (bindE (val_item block ''tx'') elements)) (\<lambda>txids. ret (height, confirmations, txids)))))"

section \<open>Every call ends\<close>

text \<open>A step that sleeps through no backoff and asks at most \<open>k\<close> questions.\<close>

definition ticks :: "nat \<Rightarrow> rpc_state \<Rightarrow> rpc_state \<Rightarrow> bool" where
  "ticks k s t \<longleftrightarrow> rp_slept t = rp_slept s \<and> rp_asked s \<le> rp_asked t \<and> rp_asked t \<le> rp_asked s + k"

definition asks_at_most :: "nat \<Rightarrow> 'a calling \<Rightarrow> bool" where
  "asks_at_most k m \<longleftrightarrow> (\<forall>s. ticks k s (snd (m s)))"

lemma ticks_trans: "ticks j s t \<Longrightarrow> ticks k t u \<Longrightarrow> ticks (j + k) s u"
  by (simp add: ticks_def)

lemma ticks_mono: "ticks j s t \<Longrightarrow> j \<le> k \<Longrightarrow> ticks k s t"
  by (simp add: ticks_def)

lemma asks_at_mostD: "asks_at_most k m \<Longrightarrow> m s = (r, t) \<Longrightarrow> ticks k s t"
  by (metis asks_at_most_def snd_conv)

lemma asks_pure [simp]:
  "asks_at_most k (ret x)" "asks_at_most k (raise e)" "asks_at_most k (liftA r)" "asks_at_most k (getA g)"
  "asks_at_most k (on_conn f)" "asks_at_most k close"
  by (simp_all add: asks_at_most_def ticks_def on_conn_def close_def)

lemma asks_ask [simp]: "asks_at_most 1 (rp_ask f)"
  by (simp add: asks_at_most_def ticks_def rp_ask_def)

lemma asks_bindA:
  assumes m: "asks_at_most j m" and f: "\<And>x. asks_at_most k (f x)"
  shows "asks_at_most (j + k) (bindA m f)"
  unfolding asks_at_most_def
proof
  fix s
  show "ticks (j + k) s (snd (bindA m f s))"
  proof (cases rule: bindA_cases [of m s f])
    case (err e s')
    with asks_at_mostD [OF m] show ?thesis by (auto intro: ticks_mono [of j])
  next
    case (ok x s')
    with asks_at_mostD [OF m, of s] asks_at_mostD [OF f, of x s'] show ?thesis
      by (cases "f x s'") (auto intro: ticks_trans)
  qed
qed

lemma asks_thenA: "asks_at_most j m \<Longrightarrow> asks_at_most k m' \<Longrightarrow> asks_at_most (j + k) (thenA m m')"
  by (simp add: thenA_def asks_bindA)

lemma asks_catchA:
  assumes m: "asks_at_most j m" and h: "\<And>x. asks_at_most k (h x)"
  shows "asks_at_most (j + k) (catchA m P h)"
  unfolding asks_at_most_def
proof
  fix s
  obtain r t where r: "m s = (r, t)" by force
  note t = asks_at_mostD [OF m r]
  show "ticks (j + k) s (snd (catchA m P h s))"
  proof (cases "\<exists>x. r = Inl x \<and> P x")
    case True
    then obtain x where x: "r = Inl x" "P x" by blast
    with r asks_at_mostD [OF h, of x t] t show ?thesis
      by (cases "h x t") (auto simp: catchA_def intro: ticks_trans)
  next
    case False
    with r t show ?thesis by (auto simp: catchA_def intro: ticks_mono [of j] split: sum.split)
  qed
qed

lemmas asks_0 = asks_bindA [of 0 _ 0, simplified] asks_thenA [of 0 _ 0, simplified] asks_catchA [of 0 _ 0, simplified]
lemmas asks_then = asks_bindA [of 0, simplified] asks_thenA [of 0, simplified]

lemma asks_ask_then: "(\<And>x. asks_at_most 0 (f x)) \<Longrightarrow> asks_at_most 1 (bindA (rp_ask g) f)"
  using asks_bindA [of 1 "rp_ask g" 0 f, OF asks_ask] by simp

lemma asks_auth: "asks_at_most 0 (auth_header e c)"
  unfolding auth_header_def by (intro asks_0) (auto intro!: asks_0 split: list.split)

lemma asks_roundtrip: "asks_at_most 1 (roundtrip e c body)"
  unfolding roundtrip_def
  by (rule asks_then, simp, rule asks_then) (auto intro!: asks_then(1) asks_0 asks_auth simp del: One_nat_def)

lemma asks_response: "asks_at_most 0 (response_result e dec resp)"
  unfolding response_result_def reply_result_def
  by (auto intro!: asks_0 split: sum.split exn.split pyval.split option.split)

lemma asks_reconnect:
  "asks_at_most 2 (catchA (roundtrip e c body) connection_lost
     (\<lambda>x. if \<not> was_open then raise x else thenA close (roundtrip e c body)))"
  using asks_catchA [of 1 "roundtrip e c body" 1, OF asks_roundtrip]
  by (simp add: asks_then asks_roundtrip numeral_2_eq_2 del: One_nat_def split: if_split)

lemma asks_conn_call: "asks_at_most 2 (conn_call e c meth params dec)"
  unfolding conn_call_def Let_def
  by (rule asks_then, simp, rule asks_then, simp, rule asks_bindA [of 2 _ 0, simplified],
      rule asks_catchA [of 2 _ 0, simplified], rule asks_reconnect, rule asks_0, simp_all add: asks_response)

text \<open>A failure that is retried never comes out of the loop.\<close>

lemma retry_loop_bounds:
  assumes "asks_at_most k attempt" "retry_loop n retry failure rpc_level attempt s = (r, s')"
  shows "rp_asked s' \<le> rp_asked s + n * k \<and> rp_slept s' \<le> rp_slept s + (n - 1) \<and>
         (case r of Inl (RpcCliError m) \<Rightarrow> True | Inl (RpcError m) \<Rightarrow> True | Inl x \<Rightarrow> \<not> failure x | Inr v \<Rightarrow> True)"
  using assms(2)
proof (induction n arbitrary: s)
  case (Suc n)
  obtain a t where a: "attempt s = (a, t)" by fastforce
  with assms(1) have t: "rp_slept t = rp_slept s" "rp_asked t \<le> rp_asked s + k"
    by (auto dest!: asks_at_mostD simp: ticks_def)
  let ?u = "if n = 0 then t else t\<lparr>rp_slept := rp_slept t + 1\<rparr>"
  show ?case
  proof (cases "\<exists>x. a = Inl x \<and> failure x \<and> \<not> (\<not> retry \<and> rpc_level x)")
    case True
    then have "retry_loop n retry failure rpc_level attempt ?u = (r, s')"
      using Suc.prems a by (auto simp: catchA_def thenA_def bindA_def rp_sleep_def split: if_splits)
    from Suc.IH [OF this] t show ?thesis by (auto split: if_splits)
  next
    case False
    with Suc.prems a t show ?thesis
      by (auto simp: catchA_def split: sum.splits exn.splits if_splits)
  qed
qed (auto)

text \<open>A node over a configuration with some defaults, for concrete runs.\<close>

definition sample_rpc :: rpc_settings where
  "sample_rpc =
     \<lparr>rs_bitcoin_cli_path = VStr ''bitcoin-cli'', rs_extra_args = [VStr ''-rpcport=8332''], rs_rpcuser_env = None,
      rs_rpcpassword_env = None, rs_batch_size = 1, rs_output_dir = (True, []), rs_state_dir = (True, []),
      rs_reorg_confirmations = 6, rs_max_reorg_depth = 100, rs_poll_interval_seconds = 30, rs_max_cli_retries = 2,
      rs_cli_retry_backoff_seconds = 5, rs_cli_timeout_seconds = 30, rs_blocks_per_day = 144, rs_max_block_weight = 4000000,
      rs_halving_interval_blocks = 210000, rs_initial_subsidy_sats = 5000000000, rs_transport = ''cli'', rs_http_url = None,
      rs_cookie_file = Some (True, [''cookie'']), rs_catchup_workers = 1\<rparr>"

text \<open>A node that is down until two backoffs have passed and then answers 7.\<close>

definition sample_rpc_env :: rpc_env where
  "sample_rpc_env =
     \<lparr>re_getenv = (\<lambda>_. None), re_show = (\<lambda>_. ''x''), re_dumps = (\<lambda>_. ''{}''),
      re_loads = (\<lambda>_ s. if s = ''7'' then Inr (VInt 7)
                       else if s = ''r'' then Inr (VMap [(''result'', VInt 7), (''error'', VNull)]) else Inl (ValueError ''bad'')),
      re_urlsplit = (\<lambda>_. (None, Inr None)), re_home = (True, []), re_expanduser = (\<lambda>p. p),
      re_process = (\<lambda>n t _. if t < 2 then Inl TimeoutExpired else Inr ''7 ''),
      re_read_cookie = (\<lambda>n t _. Inr ''u:p''),
      re_request = (\<lambda>n t _ _ _. if t < 2 then Inl (OSError ''refused'')
                               else Inr \<lparr>hr_status = 200, hr_will_close = False, hr_payload = ''r''\<rparr>)\<rparr>"

definition sample_rpc_state :: rpc_state where
  "sample_rpc_state = \<lparr>rp_asked = 0, rp_slept = 0, rp_conn = None\<rparr>"



section \<open>Both transports give the same answer\<close>

text \<open>What the node has to say to one call after some backoffs.\<close>

datatype outcome = Answer pyval | Refused | Down

text \<open>The first answer within the attempts that are left, from backoff count \<open>t\<close> on.\<close>

primrec first_answer :: "nat \<Rightarrow> bool \<Rightarrow> (nat \<Rightarrow> outcome) \<Rightarrow> nat \<Rightarrow> exn + pyval" where
  "first_answer 0 retry out t = Inl (RpcCliError ''failed after the last attempt'')"
| "first_answer (Suc left) retry out t =
     (case out t of
        Answer v \<Rightarrow> Inr v
      | Refused \<Rightarrow> if retry then first_answer left retry out (t + 1) else Inl (RpcError ''refused by the node'')
      | Down \<Rightarrow> first_answer left retry out (t + 1))"

text \<open>One attempt, started where \<open>I\<close> holds, shows what the node has to say; \<open>value\<close> reads its result.\<close>

definition shows_outcome ::
    "(rpc_state \<Rightarrow> bool) \<Rightarrow> (exn \<Rightarrow> bool) \<Rightarrow> (exn \<Rightarrow> bool) \<Rightarrow> ('a \<Rightarrow> pyval) \<Rightarrow> (nat \<Rightarrow> outcome) \<Rightarrow> 'a calling \<Rightarrow> bool" where
  "shows_outcome I failure rpc_level value out attempt \<longleftrightarrow>
     (\<forall>s. I s \<longrightarrow>
        I (snd (attempt s)) \<and> rp_slept (snd (attempt s)) = rp_slept s \<and>
        (case fst (attempt s) of
           Inr y \<Rightarrow> out (rp_slept s) = Answer (value y)
         | Inl x \<Rightarrow> failure x \<and> out (rp_slept s) = (if rpc_level x then Refused else Down)))"

lemma retry_loop_first_answer:
  assumes att: "shows_outcome I failure rpc_level value out attempt"
    and later: "\<And>s. I s \<Longrightarrow> I (s\<lparr>rp_slept := rp_slept s + 1\<rparr>)" and s: "I s"
  shows "map_sum (\<lambda>x. x) value (fst (retry_loop n retry failure rpc_level attempt s)) = first_answer n retry out (rp_slept s)"
  using s
proof (induction n arbitrary: s)
  case (Suc n)
  obtain r t where r: "attempt s = (r, t)" by force
  from att Suc.prems r have t: "I t" "rp_slept t = rp_slept s"
    and out: "case r of Inr y \<Rightarrow> out (rp_slept s) = Answer (value y)
        | Inl x \<Rightarrow> failure x \<and> out (rp_slept s) = (if rpc_level x then Refused else Down)"
    using att [unfolded shows_outcome_def, rule_format, of s] by simp_all
  let ?u = "t\<lparr>rp_slept := rp_slept t + 1\<rparr>"
  have next_try: "map_sum (\<lambda>x. x) value (fst (thenA (if n = 0 then ret () else rp_sleep)
        (retry_loop n retry failure rpc_level attempt) t)) = first_answer n retry out (rp_slept s + 1)"
    using Suc.IH [OF later [OF t(1)]] t(2)
    by (cases "n = 0") (simp_all add: thenA_def bindA_def rp_sleep_def)
  show ?case
  proof (cases r)
    case (Inr y)
    with r out show ?thesis by (simp add: catchA_def)
  next
    case (Inl x)
    with r out next_try show ?thesis by (cases "rpc_level x") (auto simp: catchA_def)
  qed
qed simp

text \<open>What bitcoin-cli prints for a value.\<close>

definition prints :: "rpc_env \<Rightarrow> bool \<Rightarrow> bool \<Rightarrow> string \<Rightarrow> exn + pyval" where
  "prints e as_text dec raw =
     (if as_text then Inr (VStr raw) else if raw = '''' then Inr VNull else re_loads e dec raw)"

definition cli_speaks :: "rpc_env \<Rightarrow> rpc_settings \<Rightarrow> string list \<Rightarrow> bool \<Rightarrow> bool \<Rightarrow> (nat \<Rightarrow> outcome) \<Rightarrow> bool" where
  "cli_speaks e c cmd as_text dec out \<longleftrightarrow>
     (\<forall>n t. case re_process e n t (cli_command e c cmd) of
        Inr w \<Rightarrow> (\<exists>v. prints e as_text dec (strip w) = Inr v \<and> out t = Answer v)
      | Inl x \<Rightarrow> cli_failure x \<and> out t = (if cli_rpc_error x then Refused else Down))"

text \<open>A JSON-RPC 1.0 server sends an object with \<open>result\<close> and \<open>error\<close>, one of them null.\<close>

definition rpc_reply :: "pyval \<Rightarrow> outcome option" where
  "rpc_reply reply =
     (case reply of
        VMap m \<Rightarrow>
          (case (map_of m ''result'', map_of m ''error'') of
             (Some v, Some VNull) \<Rightarrow> Some (Answer v)
           | (Some v, Some (VMap x)) \<Rightarrow> Some Refused
           | _ \<Rightarrow> None)
      | _ \<Rightarrow> None)"

definition http_speaks :: "rpc_env \<Rightarrow> string \<times> int \<Rightarrow> string \<Rightarrow> pyval list \<Rightarrow> bool \<Rightarrow> (nat \<Rightarrow> outcome) \<Rightarrow> bool" where
  "http_speaks e endpoint meth params dec out \<longleftrightarrow>
     (\<forall>n t auth id. case re_request e n t endpoint auth (http_body e id meth params) of
        Inl x \<Rightarrow> connection_lost x \<and> out t = Down
      | Inr resp \<Rightarrow>
          if hr_status resp = 401 then out t = Down
          else (case re_loads e dec (hr_payload resp) of
                  Inl (ValueError m) \<Rightarrow> out t = Down
                | Inl x \<Rightarrow> False
                | Inr reply \<Rightarrow> rpc_reply reply = Some (out t)))"

definition cookie_ready :: "rpc_env \<Rightarrow> rpc_settings \<Rightarrow> bool" where
  "cookie_ready e c \<longleftrightarrow> (\<exists>p. cookie_path e c = Inr p \<and> (\<forall>n t. \<exists>content. re_read_cookie e n t p = Inr content))"

lemma auth_header_ready: "cookie_ready e c \<Longrightarrow> \<exists>a. auth_header e c s = (Inr a, s)"
proof -
  assume "cookie_ready e c"
  then obtain p content where "cookie_path e c = Inr p" "re_read_cookie e (rp_asked s) (rp_slept s) p = Inr content"
    by (metis cookie_ready_def)
  then show ?thesis
    by (auto simp: auth_header_def bindA_def catchA_def split: list.split)
qed

text \<open>A thread whose connection, open or not, goes to the given endpoint.\<close>

definition connected_to :: "string \<times> int \<Rightarrow> rpc_state \<Rightarrow> bool" where
  "connected_to endpoint s \<longleftrightarrow> (\<exists>h. rp_conn s = Some h \<and> hc_endpoint h = endpoint)"

definition asked :: "rpc_state \<Rightarrow> rpc_state" where
  "asked s = s\<lparr>rp_asked := rp_asked s + 1\<rparr>"

lemma roundtrip_ready:
  assumes "cookie_ready e c" "connected_to endpoint s"
  shows "\<exists>s' a. roundtrip e c body s = (re_request e (rp_asked s) (rp_slept s) endpoint a body, s') \<and>
               connected_to endpoint s' \<and> rp_slept s' = rp_slept s"
proof -
  from assms(2) obtain h where h: "rp_conn s = Some h" "hc_endpoint h = endpoint" by (auto simp: connected_to_def)
  from auth_header_ready [OF assms(1), of s] obtain a where a: "auth_header e c s = (Inr a, s)" by blast
  show ?thesis
    using h a by (cases "hc_open h")
      (auto simp: roundtrip_def bindA_def thenA_def conn_def on_conn_def rp_ask_def connected_to_def)
qed

lemma reply_result_shows:
  assumes "rpc_reply reply = Some outcome" "connected_to endpoint s"
  shows "connected_to endpoint (snd (reply_result resp reply s)) \<and>
         rp_slept (snd (reply_result resp reply s)) = rp_slept s \<and>
         (case fst (reply_result resp reply s) of
            Inr v \<Rightarrow> outcome = Answer v
          | Inl x \<Rightarrow> http_failure x \<and> outcome = (if http_rpc_error x then Refused else Down))"
  using assms
  by (auto simp: rpc_reply_def reply_result_def connected_to_def thenA_def bindA_def close_def on_conn_def
      split: pyval.splits option.splits)

lemma response_result_shows:
  assumes "if hr_status resp = 401 then outcome = Down
           else (case re_loads e dec (hr_payload resp) of
                   Inl (ValueError m) \<Rightarrow> outcome = Down
                 | Inl x \<Rightarrow> False
                 | Inr reply \<Rightarrow> rpc_reply reply = Some outcome)"
    and "connected_to endpoint s"
  shows "connected_to endpoint (snd (response_result e dec resp s)) \<and>
         rp_slept (snd (response_result e dec resp s)) = rp_slept s \<and>
         (case fst (response_result e dec resp s) of
            Inr v \<Rightarrow> outcome = Answer v
          | Inl x \<Rightarrow> http_failure x \<and> outcome = (if http_rpc_error x then Refused else Down))"
  using assms(1)
proof (cases "re_loads e dec (hr_payload resp)")
  case (Inr reply)
  show ?thesis
  proof (cases "hr_status resp = 401")
    case False
    with assms(1) Inr have "rpc_reply reply = Some outcome" by simp
    from reply_result_shows [OF this assms(2), of resp] False Inr show ?thesis by (simp add: response_result_def)
  qed (use assms in \<open>auto simp: response_result_def connected_to_def thenA_def bindA_def close_def on_conn_def\<close>)
qed (use assms in \<open>auto simp: response_result_def connected_to_def thenA_def bindA_def close_def on_conn_def
      split: exn.splits if_splits\<close>)

lemma conn_call_shows:
  assumes http: "http_speaks e endpoint meth params dec out" and cookie: "cookie_ready e c"
  shows "shows_outcome (connected_to endpoint) http_failure http_rpc_error id out (conn_call e c meth params dec)"
  unfolding shows_outcome_def
proof (intro allI impI)
  fix s assume s: "connected_to endpoint s"
  define s1 where "s1 = snd (on_conn (\<lambda>h. h\<lparr>hc_next_id := hc_next_id h + 1\<rparr>) s)"
  have s1_eq: "on_conn (\<lambda>h. h\<lparr>hc_next_id := hc_next_id h + 1\<rparr>) s = (Inr (), s1)"
    by (simp add: s1_def on_conn_def)
  have s1: "connected_to endpoint s1" "rp_slept s1 = rp_slept s"
    using s by (auto simp: s1_def on_conn_def connected_to_def)
  let ?body = "http_body e (hc_next_id (conn s1)) meth params"
  let ?h = "\<lambda>x. if \<not> hc_open (conn s1) then raise x else thenA close (roundtrip e c ?body)"
  let ?out = "out (rp_slept s)"
  from roundtrip_ready [OF cookie s1(1), of ?body] s1(2) obtain s2 a where
    rt: "roundtrip e c ?body s1 = (re_request e (rp_asked s1) (rp_slept s) endpoint a ?body, s2)"
    and s2: "connected_to endpoint s2" "rp_slept s2 = rp_slept s" by metis
  have again: "\<exists>r s3. ?h x s2 = (r, s3) \<and> connected_to endpoint s3 \<and> rp_slept s3 = rp_slept s \<and>
      (r = Inl x \<or> (\<exists>n a. r = re_request e n (rp_slept s) endpoint a ?body))" for x
  proof (cases "hc_open (conn s1)")
    case True
    let ?s2 = "snd (close s2)"
    have "connected_to endpoint ?s2" "rp_slept ?s2 = rp_slept s"
      using s2 by (auto simp: close_def on_conn_def connected_to_def)
    moreover have "thenA close (roundtrip e c ?body) s2 = roundtrip e c ?body ?s2"
      by (simp add: thenA_def bindA_def close_def on_conn_def)
    ultimately show ?thesis using True roundtrip_ready [OF cookie, of endpoint ?s2 ?body] by fastforce
  qed (use s2 in simp)
  obtain r s3 where req: "catchA (roundtrip e c ?body) connection_lost ?h s1 = (r, s3)"
    and s3: "connected_to endpoint s3" "rp_slept s3 = rp_slept s"
    and r: "\<exists>n a. r = re_request e n (rp_slept s) endpoint a ?body"
  proof -
    obtain r0 where r0: "re_request e (rp_asked s1) (rp_slept s) endpoint a ?body = r0" by blast
    show thesis
    proof (cases "\<exists>x. r0 = Inl x \<and> connection_lost x")
      case True
      then obtain x where x: "r0 = Inl x" "connection_lost x" by blast
      from again [of x] obtain r s3 where r: "?h x s2 = (r, s3)" "connected_to endpoint s3" "rp_slept s3 = rp_slept s"
        "r = Inl x \<or> (\<exists>n a. r = re_request e n (rp_slept s) endpoint a ?body)" by blast
      from r(4) r0 x have "\<exists>n a. r = re_request e n (rp_slept s) endpoint a ?body" by metis
      with r rt r0 x show thesis by (auto simp: catchA_def intro!: that)
    next
      case False
      then have "catchA (roundtrip e c ?body) connection_lost ?h s1 = (r0, s2)"
        using rt r0 by (auto simp: catchA_def split: sum.splits)
      with that s2 r0 show thesis by metis
    qed
  qed
  from r obtain n a' where r: "r = re_request e n (rp_slept s) endpoint a' ?body" by blast
  let ?m = "bindA (catchA (catchA (roundtrip e c ?body) connection_lost ?h) connection_lost
              (\<lambda>_. thenA close (raise (HttpRpcError ''connection failed'')))) (response_result e dec)"
  have unfolded: "conn_call e c meth params dec s = ?m s1"
    by (simp add: conn_call_def thenA_def Let_def bindA_Inr [where m = "on_conn f" for f, OF s1_eq] bindA_Inr [where m = "getA conn", OF getA_apply])
  note said = http [unfolded http_speaks_def, rule_format, where n = n and t = "rp_slept s" and auth = a' and
      id = "hc_next_id (conn s1)", folded r]
  show "connected_to endpoint (snd (conn_call e c meth params dec s)) \<and>
        rp_slept (snd (conn_call e c meth params dec s)) = rp_slept s \<and>
        (case fst (conn_call e c meth params dec s) of
           Inr y \<Rightarrow> out (rp_slept s) = Answer (id y)
         | Inl x \<Rightarrow> http_failure x \<and> out (rp_slept s) = (if http_rpc_error x then Refused else Down))"
  proof (cases r)
    case (Inl x)
    with said have "connection_lost x" "?out = Down" by auto
    with Inl req s3 show ?thesis
      by (auto simp: unfolded bindA_def catchA_def thenA_def close_def on_conn_def connected_to_def)
  next
    case (Inr resp)
    with req have "?m s1 = response_result e dec resp s3" by (simp add: bindA_def catchA_def)
    moreover have "if hr_status resp = 401 then ?out = Down
           else (case re_loads e dec (hr_payload resp) of
                   Inl (ValueError m) \<Rightarrow> ?out = Down
                 | Inl x \<Rightarrow> False
                 | Inr reply \<Rightarrow> rpc_reply reply = Some ?out)"
      using said Inr by simp
    note response_result_shows [OF this s3(1)]
    ultimately show ?thesis unfolding unfolded using s3(2)
      by (cases "fst (response_result e dec resp s3)") auto
  qed
qed

lemma run_cli_shows:
  assumes "cli_speaks e c cmd as_text dec out"
  shows "shows_outcome (\<lambda>_. True) cli_failure cli_rpc_error (\<lambda>raw. projr (prints e as_text dec raw)) out
           (bindA (rp_ask (\<lambda>n t. re_process e n t (cli_command e c cmd))) (\<lambda>w. ret (strip w)))"
  unfolding shows_outcome_def
proof (intro allI impI)
  fix s :: rpc_state
  from assms have "case re_process e (rp_asked s) (rp_slept s) (cli_command e c cmd) of
        Inr w \<Rightarrow> (\<exists>v. prints e as_text dec (strip w) = Inr v \<and> out (rp_slept s) = Answer v)
      | Inl x \<Rightarrow> cli_failure x \<and> out (rp_slept s) = (if cli_rpc_error x then Refused else Down)"
    by (simp add: cli_speaks_def)
  then show "True \<and>
         rp_slept (snd (bindA (rp_ask (\<lambda>n t. re_process e n t (cli_command e c cmd))) (\<lambda>w. ret (strip w)) s)) = rp_slept s \<and>
         (case fst (bindA (rp_ask (\<lambda>n t. re_process e n t (cli_command e c cmd))) (\<lambda>w. ret (strip w)) s) of
            Inr y \<Rightarrow> out (rp_slept s) = Answer (projr (prints e as_text dec y))
          | Inl x \<Rightarrow> cli_failure x \<and> out (rp_slept s) = (if cli_rpc_error x then Refused else Down))"
    by (auto simp: bindA_def rp_ask_def split: sum.splits)
qed

text \<open>A text that \<open>run_cli\<close> returns is one the node printed.\<close>

lemma run_cli_prints:
  assumes cli: "cli_speaks e c cmd as_text dec out" and run: "run_cli e c cmd retry s = (Inr raw, s')"
  shows "\<exists>v. prints e as_text dec raw = Inr v"
proof -
  have "retry_loop k retry cli_failure cli_rpc_error
         (bindA (rp_ask (\<lambda>n t. re_process e n t (cli_command e c cmd))) (\<lambda>w. ret (strip w))) u = (Inr raw, s') \<Longrightarrow> ?thesis"
    for k u
  proof (induction k arbitrary: u)
    case (Suc k)
    from cli have "case re_process e (rp_asked u) (rp_slept u) (cli_command e c cmd) of
        Inr w \<Rightarrow> (\<exists>v. prints e as_text dec (strip w) = Inr v \<and> out (rp_slept u) = Answer v)
      | Inl x \<Rightarrow> cli_failure x \<and> out (rp_slept u) = (if cli_rpc_error x then Refused else Down)"
      by (simp add: cli_speaks_def)
    with Suc show ?case
      by (auto simp: catchA_def thenA_def bindA_def rp_ask_def rp_sleep_def split: sum.splits if_splits)
  qed simp
  with run show ?thesis by (simp add: run_cli_def)
qed

text \<open>
  C17. The two transports are the same call. Whatever a node says over time, answers, refusals or silence,
  and as long as bitcoin-cli prints and the server sends what it says, both transports return the first
  answer within the configured attempts, or the same exception: a refusal at once when the caller asked
  for that, and otherwise the failure of the last attempt.
\<close>

theorem transports_agree:
  assumes cli: "rs_transport c1 \<noteq> ''http''" "cli_speaks e c1 (meth # map (cli_arg e) params) as_text dec out"
    and http: "rs_transport c2 = ''http''" "http_endpoint e c2 = Inr endpoint" "cookie_ready e c2"
      "http_speaks e endpoint meth params dec out"
    and same: "rs_max_cli_retries c1 = rs_max_cli_retries c2"
  shows "fst (call e c1 meth params as_text dec retry \<lparr>rp_asked = n, rp_slept = t, rp_conn = None\<rparr>) =
           first_answer (attempts c1) retry out t \<and>
         fst (call e c2 meth params as_text dec retry \<lparr>rp_asked = m, rp_slept = t, rp_conn = None\<rparr>) =
           first_answer (attempts c1) retry out t"
proof
  let ?s = "\<lparr>rp_asked = n, rp_slept = t, rp_conn = None\<rparr>"
  have all: "map_sum (\<lambda>x. x) (\<lambda>raw. projr (prints e as_text dec raw)) (fst (run_cli e c1 (meth # map (cli_arg e) params) retry ?s)) =
      first_answer (attempts c1) retry out t"
    using retry_loop_first_answer [where s = ?s and n = "attempts c1" and retry = retry, OF run_cli_shows [OF cli(2)]] by (simp add: run_cli_def)
  obtain r s' where r: "run_cli e c1 (meth # map (cli_arg e) params) retry ?s = (r, s')" by force
  show "fst (call e c1 meth params as_text dec retry ?s) = first_answer (attempts c1) retry out t"
  proof (cases r)
    case (Inl x)
    with all r cli(1) show ?thesis by (simp add: call_def bindA_def)
  next
    case (Inr raw)
    with r run_cli_prints [OF cli(2)] obtain v where v: "prints e as_text dec raw = Inr v" by blast
    moreover from v r Inr cli(1) have "fst (call e c1 meth params as_text dec retry ?s) = Inr v"
      by (auto simp: call_def bindA_def prints_def split: if_splits)
    ultimately show ?thesis using all r Inr by simp
  qed
next
  let ?s = "\<lparr>rp_asked = m, rp_slept = t, rp_conn = None\<rparr>"
  let ?s1 = "?s\<lparr>rp_conn := Some \<lparr>hc_endpoint = endpoint, hc_open = False, hc_auth = None, hc_next_id = 0\<rparr>\<rparr>"
  have start: "http_connection e c2 ?s = (Inr (), ?s1)" "connected_to endpoint ?s1"
    by (simp_all add: http_connection_def bindA_def http(2) connected_to_def)
  have n: "attempts c2 = attempts c1" using same by (simp add: attempts_def)
  have "map_sum (\<lambda>x. x) id (fst (retry_loop (attempts c2) retry http_failure http_rpc_error (conn_call e c2 meth params dec) ?s1)) =
      first_answer (attempts c1) retry out t"
    unfolding n using retry_loop_first_answer [where n = "attempts c1" and retry = retry, OF conn_call_shows [OF http(4) http(3)] _ start(2)]
    by (auto simp: connected_to_def)
  with start http(1) show "fst (call e c2 meth params as_text dec retry ?s) = first_answer (attempts c1) retry out t"
    by (simp add: call_def http_call_def thenA_def bindA_def sum.map_id0 [unfolded id_def] id_def)
qed

lemma sample_rpc_speaks:
  "cli_speaks sample_rpc_env sample_rpc (''getblockcount'' # map (cli_arg sample_rpc_env) []) False False
     (\<lambda>t. if t < 2 then Down else Answer (VInt 7))"
  "http_speaks sample_rpc_env (LOCALHOST, 8332) ''getblockcount'' [] False (\<lambda>t. if t < 2 then Down else Answer (VInt 7))"
proof -
  have "strip ''7 '' = ''7''" by code_simp
  then show "cli_speaks sample_rpc_env sample_rpc (''getblockcount'' # map (cli_arg sample_rpc_env) []) False False
     (\<lambda>t. if t < 2 then Down else Answer (VInt 7))"
    by (simp add: cli_speaks_def sample_rpc_env_def prints_def)
  show "http_speaks sample_rpc_env (LOCALHOST, 8332) ''getblockcount'' [] False (\<lambda>t. if t < 2 then Down else Answer (VInt 7))"
    by (simp add: http_speaks_def sample_rpc_env_def rpc_reply_def)
qed

theorem transports_agree_witness:
  "fst (call sample_rpc_env sample_rpc ''getblockcount'' [] False False True sample_rpc_state) = Inr (VInt 7) \<and>
   fst (call sample_rpc_env (sample_rpc\<lparr>rs_transport := ''http''\<rparr>) ''getblockcount'' [] False False True sample_rpc_state) =
     Inr (VInt 7)"
proof -
  have "http_endpoint sample_rpc_env (sample_rpc\<lparr>rs_transport := ''http''\<rparr>) = Inr (LOCALHOST, 8332)"
    by code_simp
  moreover have "cookie_ready sample_rpc_env (sample_rpc\<lparr>rs_transport := ''http''\<rparr>)"
    unfolding cookie_ready_def cookie_path_def sample_rpc_def sample_rpc_env_def by simp blast
  moreover have first: "first_answer (attempts sample_rpc) True (\<lambda>t. if t < 2 then Down else Answer (VInt 7)) 0 = Inr (VInt 7)"
    by (simp add: attempts_def sample_rpc_def numeral_3_eq_3)
  moreover have "rs_transport sample_rpc \<noteq> ''http''" "rs_transport (sample_rpc\<lparr>rs_transport := ''http''\<rparr>) = ''http''"
    "rs_max_cli_retries sample_rpc = rs_max_cli_retries (sample_rpc\<lparr>rs_transport := ''http''\<rparr>)"
    by (simp_all add: sample_rpc_def)
  ultimately show ?thesis
    unfolding sample_rpc_state_def
    using transports_agree [OF _ sample_rpc_speaks(1) _ _ _ sample_rpc_speaks(2)] by metis
qed

text \<open>
  A port after a bracketed address in \<open>-rpcconnect\<close> is neither split off nor used: the host keeps it
  and the chain's default port is taken.
\<close>

theorem bracketed_port_is_lost:
  "http_endpoint sample_rpc_env (sample_rpc\<lparr>rs_extra_args := [VStr ''-regtest'', VStr ''-rpcconnect=[::1]:9999'']\<rparr>) =
     Inr (''::1]:9999'', 18443)"
  by code_simp

end
