(* ===== verification/Price_Backfill.thy ===== *)
theory Price_Backfill
  imports Csv_Files Config
begin

text \<open>
  btc_parser_app/api/price_gap_backfill.py: one request a minute of the gap, rows and checkpoint flushed
  together, and a spot check of every n-th price against a second instance. The two instances and the
  clock are oracles of the number of the question; waiting is not modelled, time passes in the clock.
\<close>

section \<open>The environment and the state of a run\<close>

record price_response =
  pr_status :: int
  pr_retry_after :: string
  pr_json :: "exn + pyval"

text \<open>
  \<open>pe_get n url currency timestamp\<close> is the answer to the n-th request; a RequestException is an OSError.
\<close>

record price_env =
  pe_write :: csv_write
  pe_read :: csv_read
  pe_clock :: "nat \<Rightarrow> rat"
  pe_get :: "nat \<Rightarrow> string \<Rightarrow> string \<Rightarrow> int \<Rightarrow> exn + price_response"

record price_config =
  pc_start :: int
  pc_end :: int
  pc_export_dir :: string
  pc_rate_limit_per_second :: rat
  pc_base_url :: string
  pc_currency :: string
  pc_validation_base_url :: string
  pc_validate_every :: int
  pc_validation_warn_percent :: rat

record validator =
  vl_datapoints_seen :: int
  vl_pending :: bool
  vl_not_before :: rat
  vl_checked :: nat
  vl_warnings :: nat
  vl_failed :: nat

text \<open>A pending row is its date and the two prices as they came.\<close>

record backfill =
  bf_next :: int
  bf_dates :: "int list"
  bf_pending :: "(int \<times> pyval \<times> pyval) list"
  bf_since_flush :: nat
  bf_last_flush :: rat
  bf_next_request :: rat
  bf_written :: nat
  bf_validator :: validator
  bf_disk :: disk
  bf_looks :: nat

type_synonym 'a backfilling = "(backfill, 'a) action"

definition bf_ask :: "(nat \<Rightarrow> exn + 'a) \<Rightarrow> 'a backfilling" where
  "bf_ask answer s = (answer (bf_looks s), s\<lparr>bf_looks := bf_looks s + 1\<rparr>)"

definition monotonic :: "price_env \<Rightarrow> rat backfilling" where
  "monotonic e = bf_ask (\<lambda>n. Inr (pe_clock e n))"

definition on_validator :: "(validator \<Rightarrow> validator) \<Rightarrow> unit backfilling" where
  "on_validator f = updA (\<lambda>s. s\<lparr>bf_validator := f (bf_validator s)\<rparr>)"

definition STEP_SECONDS :: int where
  "STEP_SECONDS = 60"

definition FLUSH_EVERY_STEPS :: nat where
  "FLUSH_EVERY_STEPS = 1000"

definition FLUSH_EVERY_SECONDS :: rat where
  "FLUSH_EVERY_SECONDS = 5"

definition EXIT_RATE_LIMITED :: int where
  "EXIT_RATE_LIMITED = 75"

definition VALIDATION_MIN_INTERVAL_SECONDS :: rat where
  "VALIDATION_MIN_INTERVAL_SECONDS = 1"

definition VALIDATION_RATE_LIMITED_BACKOFF_SECONDS :: rat where
  "VALIDATION_RATE_LIMITED_BACKOFF_SECONDS = 60"

section \<open>Files\<close>

definition prices_base :: "string \<Rightarrow> base" where
  "prices_base dir = \<lparr>b_dir = dir, b_stem = ''prices'', b_suffix = ''.csv''\<rparr>"

definition state_path :: "string \<Rightarrow> path" where
  "state_path dir = (dir, ''price_gap_backfill_state.csv'')"

definition existing_dates :: "price_env \<Rightarrow> disk \<Rightarrow> base \<Rightarrow> exn + int list" where
  "existing_dates e d b =
     (if \<not> csv_parts_exist d b then Inr []
      else bindE (read_csv_parts (pe_read e) d b) (mapE (\<lambda>r. bindE (row_get r ''date_unix'') py_int)))"

definition load_checkpoint :: "price_env \<Rightarrow> disk \<Rightarrow> path \<Rightarrow> int \<Rightarrow> exn + int" where
  "load_checkpoint e d p start =
     bindE (read_single_row_csv (pe_read e) d p) (\<lambda>row.
       case row of
         None \<Rightarrow> Inr start
       | Some r \<Rightarrow>
           bindE (bindE (row_get r ''range_start'') py_int) (\<lambda>range_start.
             if range_start \<noteq> start then Inr start else bindE (row_get r ''next_timestamp'') py_int))"

definition checkpoint_row :: "int \<Rightarrow> int \<Rightarrow> row" where
  "checkpoint_row start next = [(''range_start'', CInt start), (''next_timestamp'', CInt next)]"

definition save_checkpoint :: "price_env \<Rightarrow> path \<Rightarrow> int \<Rightarrow> int \<Rightarrow> disk \<Rightarrow> disk" where
  "save_checkpoint e p start next = write_single_row_csv (pe_write e) p (checkpoint_row start next)"

section \<open>Requests\<close>

fun request_failed :: "exn \<Rightarrow> bool" where
  "request_failed (OSError m) = True"
| "request_failed _ = False"

definition fetch_historical_price :: "price_env \<Rightarrow> string \<Rightarrow> string \<Rightarrow> int \<Rightarrow> pyval backfilling" where
  "fetch_historical_price e base_url currency timestamp =
     bindA (catchA (bf_ask (\<lambda>n. pe_get e n base_url currency timestamp)) request_failed
              (\<lambda>_. raise (FetchError ''request failed''))) (\<lambda>response.
       if pr_status response = 429 then raise (RateLimited (pr_retry_after response))
       else if pr_status response \<noteq> 200 then raise (FetchError ''unexpected status'')
       else case pr_json response of
              Inl (ValueError m) \<Rightarrow> raise (FetchError ''failed to decode JSON'')
            | Inl x \<Rightarrow> raise x
            | Inr data \<Rightarrow> ret data)"

text \<open>\<open>prices[0]\<close> of what is truthy; the result None is VNull.\<close>

fun item_0 :: "pyval \<Rightarrow> exn + pyval" where
  "item_0 (VList (x # xs)) = Inr x"
| "item_0 (VStr (c # cs)) = Inr (VStr [c])"
| "item_0 (VMap m) = Inl (KeyError ''0'')"
| "item_0 _ = Inl TypeError"

definition first_price :: "pyval \<Rightarrow> exn + pyval" where
  "first_price data =
     (case data of
        VMap m \<Rightarrow>
          (case map_of m ''prices'' of
             None \<Rightarrow> Inr VNull
           | Some prices \<Rightarrow> if truthy prices then item_0 prices else Inr VNull)
      | _ \<Rightarrow> Inr VNull)"

section \<open>The spot check\<close>

definition percent_diff :: "pyval \<Rightarrow> pyval \<Rightarrow> rat option" where
  "percent_diff v reference =
     (case (val_float v, val_float reference) of
        (Inr x, Inr y) \<Rightarrow> if y = 0 then None else Some (fl (fl (fl (x - y) / y) * 100))
      | _ \<Rightarrow> None)"

fun fetch_error :: "exn \<Rightarrow> bool" where
  "fetch_error (RateLimited m) = True"
| "fetch_error (FetchError m) = True"
| "fetch_error _ = False"

text \<open>What the request of a check gives: the data, or None after it has failed.\<close>

definition validation_data :: "price_env \<Rightarrow> price_config \<Rightarrow> int \<Rightarrow> pyval option backfilling" where
  "validation_data e c timestamp =
     catchA (bindA (fetch_historical_price e (pc_validation_base_url c) (pc_currency c) timestamp) (\<lambda>d. ret (Some d)))
       fetch_error
       (\<lambda>x. thenA (on_validator (\<lambda>v. v\<lparr>vl_failed := vl_failed v + 1\<rparr>))
         (case x of
            RateLimited m \<Rightarrow>
              bindA (monotonic e) (\<lambda>now.
              thenA (on_validator (\<lambda>v. v\<lparr>vl_not_before := now + VALIDATION_RATE_LIMITED_BACKOFF_SECONDS\<rparr>)) (ret None))
          | _ \<Rightarrow> ret None))"

definition compare_prices :: "price_config \<Rightarrow> pyval \<Rightarrow> pyval \<Rightarrow> unit backfilling" where
  "compare_prices c entry reference =
     thenA (on_validator (\<lambda>v. v\<lparr>vl_checked := vl_checked v + 1\<rparr>))
     (bindA (liftA (get_default entry ''USD'' VNull)) (\<lambda>usd.
     (bindA (liftA (get_default reference ''USD'' VNull)) (\<lambda>usd_ref.
     (bindA (liftA (get_default entry ''EUR'' VNull)) (\<lambda>eur.
     (bindA (liftA (get_default reference ''EUR'' VNull)) (\<lambda>eur_ref.
       if \<exists>d \<in> set [percent_diff usd usd_ref, percent_diff eur eur_ref].
            (case d of None \<Rightarrow> False | Some q \<Rightarrow> \<bar>q\<bar> > pc_validation_warn_percent c)
       then on_validator (\<lambda>v. v\<lparr>vl_warnings := vl_warnings v + 1\<rparr>)
       else ret ()))))))))"

definition validate :: "price_env \<Rightarrow> price_config \<Rightarrow> int \<Rightarrow> pyval \<Rightarrow> unit backfilling" where
  "validate e c timestamp entry =
     bindA (monotonic e) (\<lambda>now.
     thenA (on_validator (\<lambda>v. v\<lparr>vl_not_before := now + VALIDATION_MIN_INTERVAL_SECONDS\<rparr>))
     (bindA (validation_data e c timestamp) (\<lambda>r.
       case r of
         None \<Rightarrow> ret ()
       | Some data \<Rightarrow>
           bindA (liftA (first_price data)) (\<lambda>reference.
             if reference = VNull then on_validator (\<lambda>v. v\<lparr>vl_failed := vl_failed v + 1\<rparr>)
             else compare_prices c entry reference))))"

definition observe :: "price_env \<Rightarrow> price_config \<Rightarrow> int \<Rightarrow> pyval \<Rightarrow> unit backfilling" where
  "observe e c timestamp entry =
     (if pc_validate_every c \<le> 0 then ret ()
      else thenA (on_validator (\<lambda>v. v\<lparr>vl_pending := (vl_pending v \<or> vl_datapoints_seen v mod pc_validate_every c = 0),
                                     vl_datapoints_seen := vl_datapoints_seen v + 1\<rparr>))
        (bindA (getA bf_validator) (\<lambda>v.
           if \<not> vl_pending v then ret ()
           else bindA (monotonic e) (\<lambda>now.
                  if now < vl_not_before v then ret ()
                  else thenA (on_validator (\<lambda>v. v\<lparr>vl_pending := False\<rparr>)) (validate e c timestamp entry)))))"

section \<open>The run\<close>

text \<open>A price as a CSV cell; polars does not write nested values to a CSV.\<close>

fun price_cell :: "pyval \<Rightarrow> exn + cell" where
  "price_cell VNull = Inr CNull"
| "price_cell (VBool b) = Inr (CBool b)"
| "price_cell (VInt n) = Inr (CInt n)"
| "price_cell (VFloat q) = Inr (CFloat q)"
| "price_cell (VStr s) = Inr (CStr s)"
| "price_cell _ = Inl ComputeError"

definition price_row :: "int \<times> pyval \<times> pyval \<Rightarrow> exn + row" where
  "price_row p =
     (case p of (date, usd, eur) \<Rightarrow>
        bindE (price_cell usd) (\<lambda>u. bindE (price_cell eur) (\<lambda>v.
          Inr [(''date_unix'', CInt date), (''usd'', u), (''eur'', v)])))"

definition flush :: "price_env \<Rightarrow> price_config \<Rightarrow> unit backfilling" where
  "flush e c =
     bindA (getA bf_pending) (\<lambda>pending.
     bindA (liftA (mapE price_row pending)) (\<lambda>rows.
     thenA (updA (\<lambda>s. s\<lparr>bf_disk := write_rows_to_csv (pe_write e) rows (prices_base (pc_export_dir c)) MAX_PART_BYTES (bf_disk s),
                       bf_pending := [], bf_since_flush := 0\<rparr>))
     (bindA (monotonic e) (\<lambda>now.
        updA (\<lambda>s. s\<lparr>bf_last_flush := now,
                   bf_disk := save_checkpoint e (state_path (pc_export_dir c)) (pc_start c) (bf_next s) (bf_disk s)\<rparr>)))))"

text \<open>The body of the loop from the answer to \<open>existing_dates.add\<close>.\<close>

definition add_price :: "pyval \<Rightarrow> unit backfilling" where
  "add_price entry =
     bindA (liftA (get_default entry ''time'' VNull)) (\<lambda>time.
       if time = VNull then ret ()
       else bindA (liftA (val_int time)) (\<lambda>date.
       bindA (getA bf_dates) (\<lambda>dates.
         if date \<in> set dates then ret ()
         else bindA (liftA (get_default entry ''USD'' VNull)) (\<lambda>usd.
              bindA (liftA (get_default entry ''EUR'' VNull)) (\<lambda>eur.
                updA (\<lambda>s. s\<lparr>bf_pending := bf_pending s @ [(date, usd, eur)], bf_dates := date # bf_dates s,
                           bf_written := bf_written s + 1\<rparr>))))))"

definition take_price :: "price_env \<Rightarrow> price_config \<Rightarrow> int \<Rightarrow> pyval \<Rightarrow> unit backfilling" where
  "take_price e c timestamp data =
     bindA (liftA (first_price data)) (\<lambda>entry.
       if entry = VNull then ret () else thenA (observe e c timestamp entry) (add_price entry))"

text \<open>One turn of the loop: the exit code of an early return, or None to go on.\<close>

definition after_answer :: "price_env \<Rightarrow> price_config \<Rightarrow> int \<Rightarrow> pyval \<Rightarrow> int option backfilling" where
  "after_answer e c timestamp data =
     thenA (take_price e c timestamp data)
     (thenA (updA (\<lambda>s. s\<lparr>bf_next := bf_next s + STEP_SECONDS, bf_since_flush := bf_since_flush s + 1\<rparr>))
     (bindA (monotonic e) (\<lambda>now.
      bindA (getA (\<lambda>s. FLUSH_EVERY_STEPS \<le> bf_since_flush s \<or> FLUSH_EVERY_SECONDS \<le> now - bf_last_flush s)) (\<lambda>due.
        thenA (if due then flush e c else ret ()) (ret None)))))"

definition ask_price :: "price_env \<Rightarrow> price_config \<Rightarrow> int \<Rightarrow> (int + pyval) backfilling" where
  "ask_price e c timestamp =
     catchA (bindA (fetch_historical_price e (pc_base_url c) (pc_currency c) timestamp) (\<lambda>d. ret (Inr d))) fetch_error
       (\<lambda>x. ret (Inl (case x of RateLimited m \<Rightarrow> EXIT_RATE_LIMITED | _ \<Rightarrow> 1)))"

definition backfill_step :: "price_env \<Rightarrow> price_config \<Rightarrow> int option backfilling" where
  "backfill_step e c =
     bindA (monotonic e) (\<lambda>now.
     thenA (updA (\<lambda>s. s\<lparr>bf_next_request := max now (bf_next_request s) + fl (1 / pc_rate_limit_per_second c)\<rparr>))
     (bindA (getA bf_next) (\<lambda>timestamp.
     bindA (ask_price e c timestamp) (\<lambda>r.
       case r of
         Inl code \<Rightarrow> ret (Some code)
       | Inr data \<Rightarrow> after_answer e c timestamp data))))"

text \<open>The loop with at most \<open>fuel\<close> turns; None is out of fuel.\<close>

fun backfill_loop :: "nat \<Rightarrow> price_env \<Rightarrow> price_config \<Rightarrow> int option backfilling" where
  "backfill_loop 0 e c = ret None"
| "backfill_loop (Suc fuel) e c =
     bindA (getA bf_next) (\<lambda>timestamp.
       if timestamp \<le> pc_end c
       then bindA (backfill_step e c) (\<lambda>r. case r of Some code \<Rightarrow> ret (Some code) | None \<Rightarrow> backfill_loop fuel e c)
       else ret (Some 0))"

text \<open>\<open>try: m  finally: f\<close>: an exception of \<open>f\<close> replaces the result.\<close>

definition finallyA :: "('s, 'a) action \<Rightarrow> ('s, unit) action \<Rightarrow> ('s, 'a) action" where
  "finallyA m f s = (case m s of (r, s') \<Rightarrow> (case f s' of (Inl x, s'') \<Rightarrow> (Inl x, s'') | (Inr _, s'') \<Rightarrow> (r, s'')))"

text \<open>\<open>total_steps\<close> of the code, and one turn that sees the end.\<close>

definition enough_turns :: "int \<Rightarrow> int \<Rightarrow> nat" where
  "enough_turns next end_timestamp = nat ((end_timestamp - next) div STEP_SECONDS + 1) + 1"

definition new_validator :: validator where
  "new_validator =
     \<lparr>vl_datapoints_seen = 0, vl_pending = False, vl_not_before = 0, vl_checked = 0, vl_warnings = 0, vl_failed = 0\<rparr>"

definition backfill_start :: "price_env \<Rightarrow> int \<Rightarrow> int list \<Rightarrow> disk \<Rightarrow> backfill" where
  "backfill_start e next dates d =
     \<lparr>bf_next = next, bf_dates = dates, bf_pending = [], bf_since_flush = 0, bf_last_flush = pe_clock e 0,
      bf_next_request = pe_clock e 0, bf_written = 0, bf_validator = new_validator, bf_disk = d, bf_looks = 1\<rparr>"

definition run_backfill :: "price_env \<Rightarrow> price_config \<Rightarrow> disk \<Rightarrow> (exn + int option) \<times> disk" where
  "run_backfill e c d =
     (if pc_end c < pc_start c then (Inr (Some 1), d)
      else case load_checkpoint e d (state_path (pc_export_dir c)) (pc_start c) of
             Inl x \<Rightarrow> (Inl x, d)
           | Inr next \<Rightarrow>
               if pc_end c < next then (Inr (Some 0), d)
               else (case existing_dates e d (prices_base (pc_export_dir c)) of
                       Inl x \<Rightarrow> (Inl x, d)
                     | Inr dates \<Rightarrow>
                         (case finallyA (backfill_loop (enough_turns next (pc_end c)) e c) (flush e c)
                                 (backfill_start e next dates d) of
                            (r, s) \<Rightarrow> (r, bf_disk s))))"

text \<open>The checks of \<open>main\<close> on the command line, after which it runs the backfill.\<close>

definition price_main :: "price_env \<Rightarrow> price_config \<Rightarrow> disk \<Rightarrow> (exn + int option) \<times> disk" where
  "price_main e c d =
     (if pc_rate_limit_per_second c \<le> 0 \<or> pc_validate_every c < 0 \<or> pc_validation_warn_percent c < 0
      then (Inr (Some 2), d)
      else run_backfill e (c\<lparr>pc_base_url := rstrip_slash (pc_base_url c),
                            pc_validation_base_url := rstrip_slash (pc_validation_base_url c)\<rparr>) d)"

section \<open>What a run leaves on disk\<close>

fun appended :: "effect list \<Rightarrow> row list" where
  "appended [] = []"
| "appended (EAppend p h rs # es) = rs @ appended es"
| "appended (x # es) = appended es"

definition appended_dates :: "effect list \<Rightarrow> cell list" where
  "appended_dates es = map (\<lambda>r. case map_of r ''date_unix'' of None \<Rightarrow> CNull | Some c \<Rightarrow> c) (appended es)"

lemma appended_append [simp]: "appended (es @ es') = appended es @ appended es'"
  by (induction es rule: appended.induct) auto

lemma appended_dates_append [simp]: "appended_dates (es @ es') = appended_dates es @ appended_dates es'"
  by (simp add: appended_dates_def)

text \<open>The instance gave this answer to this minute at some time.\<close>

definition heard :: "price_env \<Rightarrow> price_config \<Rightarrow> int \<Rightarrow> pyval \<Rightarrow> bool" where
  "heard e c m v \<longleftrightarrow>
     (\<exists>n resp. pe_get e n (pc_base_url c) (pc_currency c) m = Inr resp \<and> pr_status resp = 200 \<and> pr_json resp = Inr v)"

text \<open>The date of the row an answer gives, if it gives one.\<close>

definition date_of :: "pyval \<Rightarrow> int option" where
  "date_of data =
     (case first_price data of
        Inl x \<Rightarrow> None
      | Inr entry \<Rightarrow>
          if entry = VNull then None
          else (case get_default entry ''time'' VNull of
                  Inl x \<Rightarrow> None
                | Inr time \<Rightarrow> if time = VNull then None else (case val_int time of Inl x \<Rightarrow> None | Inr d \<Rightarrow> Some d)))"

text \<open>Minutes of the walk from \<open>first\<close> on.\<close>

definition on_walk :: "int \<Rightarrow> int \<Rightarrow> bool" where
  "on_walk first m \<longleftrightarrow> first \<le> m \<and> (m - first) mod STEP_SECONDS = 0"

text \<open>Every minute of the walk before \<open>n\<close> was answered, and the price in the answer is among \<open>known\<close>.\<close>

definition done_before :: "price_env \<Rightarrow> price_config \<Rightarrow> int \<Rightarrow> int set \<Rightarrow> int \<Rightarrow> bool" where
  "done_before e c first known n \<longleftrightarrow>
     (\<forall>m. on_walk first m \<longrightarrow> m < n \<longrightarrow> (\<exists>v. heard e c m v \<and> set_option (date_of v) \<subseteq> known))"

definition written_dates :: "int set \<Rightarrow> effect list \<Rightarrow> int set" where
  "written_dates D es = D \<union> {d. CInt d \<in> set (appended_dates es)}"

definition checkpoints_sound :: "price_env \<Rightarrow> price_config \<Rightarrow> int \<Rightarrow> int set \<Rightarrow> effect list \<Rightarrow> bool" where
  "checkpoints_sound e c first D es \<longleftrightarrow>
     (\<forall>pre p row post n. es = pre @ EReplace p [row] # post \<longrightarrow> map_of row ''next_timestamp'' = Some (CInt n) \<longrightarrow>
        done_before e c first (written_dates D pre) n)"

text \<open>The invariant: \<open>D\<close> are the dates on disk at the start, \<open>L\<close> the log, \<open>es\<close> what was done since.\<close>

definition backfill_inv :: "price_env \<Rightarrow> price_config \<Rightarrow> int \<Rightarrow> int set \<Rightarrow> effect list \<Rightarrow> backfill \<Rightarrow> bool" where
  "backfill_inv e c first D L s \<longleftrightarrow>
     (\<exists>es. log (bf_disk s) = L @ es \<and>
        set (bf_dates s) = written_dates D es \<union> fst ` set (bf_pending s) \<and>
        distinct (appended_dates es @ map (\<lambda>p. CInt (fst p)) (bf_pending s)) \<and>
        (\<forall>x \<in> set (appended_dates es @ map (\<lambda>p. CInt (fst p)) (bf_pending s)). \<exists>d. x = CInt d \<and> d \<notin> D) \<and>
        on_walk first (bf_next s) \<and>
        done_before e c first (set (bf_dates s)) (bf_next s) \<and>
        checkpoints_sound e c first D es)"

text \<open>What the checks and the clock leave alone.\<close>

definition core :: "backfill \<Rightarrow> int \<times> int list \<times> (int \<times> pyval \<times> pyval) list \<times> disk" where
  "core s = (bf_next s, bf_dates s, bf_pending s, bf_disk s)"

lemma inv_core: "core s = core t \<Longrightarrow> backfill_inv e c first D L s = backfill_inv e c first D L t"
  by (simp add: core_def backfill_inv_def)

lemma core_ask [keeps_intros]: "keeps (\<lambda>s. core s = x) (bf_ask f)"
  by (simp add: keeps_def bf_ask_def core_def)

lemma core_clock [keeps_intros]: "keeps (\<lambda>s. core s = x) (monotonic e)"
  by (simp add: monotonic_def keeps_intros)

lemma core_on_validator [keeps_intros]: "keeps (\<lambda>s. core s = x) (on_validator f)"
  by (simp add: keeps_def on_validator_def core_def)

lemma core_fetch [keeps_intros]: "keeps (\<lambda>s. core s = x) (fetch_historical_price e url cur t)"
  unfolding fetch_historical_price_def by (auto intro!: keeps_intros split: sum.split exn.split)

lemma core_validation_data [keeps_intros]: "keeps (\<lambda>s. core s = x) (validation_data e c t)"
  unfolding validation_data_def by (auto intro!: keeps_intros split: exn.split)

lemma core_compare [keeps_intros]: "keeps (\<lambda>s. core s = x) (compare_prices c en r)"
  unfolding compare_prices_def by (auto intro!: keeps_intros)

lemma core_validate [keeps_intros]: "keeps (\<lambda>s. core s = x) (validate e c t en)"
  unfolding validate_def by (auto intro!: keeps_intros split: option.split)

lemma core_observe [keeps_intros]: "keeps (\<lambda>s. core s = x) (observe e c t en)"
  unfolding observe_def by (auto intro!: keeps_intros)

lemma keeps_core: "(\<And>x. keeps (\<lambda>s. core s = x) m) \<Longrightarrow> m s = (r, t) \<Longrightarrow> core t = core s"
  using keepsD [of "\<lambda>u. core u = core s" m s] by simp

lemma done_before_mono: "done_before e c first A n \<Longrightarrow> A \<subseteq> B \<Longrightarrow> done_before e c first B n"
  unfolding done_before_def by (meson subset_trans)

lemma on_walkE:
  assumes "on_walk first m"
  obtains k where "m = first + 60 * k" "0 \<le> k"
proof -
  from assms obtain k where "m - first = 60 * k" by (auto simp: on_walk_def STEP_SECONDS_def mod_eq_0_iff_dvd dvd_def)
  with assms show thesis by (intro that [of k]) (auto simp: on_walk_def)
qed

lemma on_walk_next: "on_walk first n \<Longrightarrow> on_walk first (n + STEP_SECONDS)"
proof (elim on_walkE)
  fix k assume "n = first + 60 * k" "0 \<le> k"
  then have "n + STEP_SECONDS - first = (k + 1) * STEP_SECONDS" "first \<le> n + STEP_SECONDS" by (auto simp: STEP_SECONDS_def)
  then show ?thesis by (simp add: on_walk_def)
qed

lemma on_walk_less:
  assumes "on_walk first n" "on_walk first m" "m < n + STEP_SECONDS"
  shows "m < n \<or> m = n"
proof -
  from assms(1,2) obtain j k where "n = first + 60 * j" "m = first + 60 * k" by (auto elim!: on_walkE)
  moreover with assms(3) have "k < j + 1" unfolding STEP_SECONDS_def by linarith
  then have "k < j \<or> k = j" by linarith
  ultimately show ?thesis by auto
qed

lemma written_dates_append [simp]:
  "written_dates D (es @ es') = written_dates D es \<union> {d. CInt d \<in> set (appended_dates es')}"
  by (auto simp: written_dates_def)

lemma checkpoints_snoc:
  assumes "checkpoints_sound e c first D es"
    and "\<And>p row n. x = EReplace p [row] \<Longrightarrow> map_of row ''next_timestamp'' = Some (CInt n) \<Longrightarrow>
           done_before e c first (written_dates D es) n"
  shows "checkpoints_sound e c first D (es @ [x])"
  unfolding checkpoints_sound_def
proof (intro allI impI)
  fix pre p row post n
  assume e: "es @ [x] = pre @ EReplace p [row] # post" and n: "map_of row ''next_timestamp'' = Some (CInt n)"
  show "done_before e c first (written_dates D pre) n"
  proof (cases post rule: rev_cases)
    case Nil
    with e n assms(2) show ?thesis by simp
  next
    case (snoc ys y)
    with e have "es = pre @ EReplace p [row] # ys" by simp
    with assms(1) n show ?thesis by (simp add: checkpoints_sound_def del: split_paired_All)
  qed
qed

text \<open>Adding the price of the current answer.\<close>

lemma inv_add:
  assumes inv: "backfill_inv e c first D L s" and d: "d \<notin> set (bf_dates s)"
  shows "backfill_inv e c first D L
           (s\<lparr>bf_pending := bf_pending s @ [(d, u, v)], bf_dates := d # bf_dates s, bf_written := k\<rparr>)"
proof -
  from inv obtain es where es: "log (bf_disk s) = L @ es" "set (bf_dates s) = written_dates D es \<union> fst ` set (bf_pending s)"
      "distinct (appended_dates es @ map (\<lambda>p. CInt (fst p)) (bf_pending s))"
      "\<forall>x \<in> set (appended_dates es @ map (\<lambda>p. CInt (fst p)) (bf_pending s)). \<exists>d. x = CInt d \<and> d \<notin> D"
      "on_walk first (bf_next s)" "done_before e c first (set (bf_dates s)) (bf_next s)"
      "checkpoints_sound e c first D es"
    by (auto simp: backfill_inv_def)
  from d es(2) have new: "d \<notin> D" "CInt d \<notin> set (appended_dates es)" "d \<notin> fst ` set (bf_pending s)"
    by (auto simp: written_dates_def)
  then have "CInt d \<notin> (\<lambda>p. CInt (fst p)) ` set (bf_pending s)" by auto
  moreover have "done_before e c first (insert d (set (bf_dates s))) (bf_next s)"
    using es(6) by (rule done_before_mono) auto
  ultimately show ?thesis
    using es new by (auto simp: backfill_inv_def intro!: exI [of _ es])
qed

text \<open>Moving on to the next minute.\<close>

lemma inv_next:
  assumes inv: "backfill_inv e c first D L s" and v: "heard e c (bf_next s) v" "set_option (date_of v) \<subseteq> set (bf_dates s)"
  shows "backfill_inv e c first D L (s\<lparr>bf_next := bf_next s + STEP_SECONDS, bf_since_flush := k\<rparr>)"
proof -
  from inv have w: "on_walk first (bf_next s)" and before: "done_before e c first (set (bf_dates s)) (bf_next s)"
    by (auto simp: backfill_inv_def)
  have "done_before e c first (set (bf_dates s)) (bf_next s + STEP_SECONDS)"
    unfolding done_before_def
  proof (intro allI impI)
    fix m assume m: "on_walk first m" "m < bf_next s + STEP_SECONDS"
    from on_walk_less [OF w m] consider "m < bf_next s" | "m = bf_next s" by blast
    then show "\<exists>v. heard e c m v \<and> set_option (date_of v) \<subseteq> set (bf_dates s)"
      by cases (use before m v in \<open>auto simp: done_before_def\<close>)
  qed
  with inv on_walk_next [OF w] show ?thesis by (auto simp: backfill_inv_def)
qed

lemma price_row_date: "price_row p = Inr r \<Longrightarrow> map_of r ''date_unix'' = Some (CInt (fst p))"
  by (cases p) (auto simp: price_row_def bindE_Inr)

lemma price_rows_dates:
  "mapE price_row ps = Inr rs \<Longrightarrow>
   map (\<lambda>r. case map_of r ''date_unix'' of None \<Rightarrow> CNull | Some c \<Rightarrow> c) rs = map (\<lambda>p. CInt (fst p)) ps"
  by (induction ps arbitrary: rs) (auto simp: bindE_Inr dest!: price_row_date)

text \<open>What a flush appends to the log.\<close>

definition flush_effects :: "price_env \<Rightarrow> price_config \<Rightarrow> backfill \<Rightarrow> row list \<Rightarrow> effect list" where
  "flush_effects e c s rows =
     (if rows = [] then []
      else let t = current_part_for_append (bf_disk s) (prices_base (pc_export_dir c)) MAX_PART_BYTES
           in [EAppend t (\<not> file_nonempty (bf_disk s) t) rows])"

lemma flush_cases:
  obtains (err) x where "flush e c s = (Inl x, s)"
  | (ok) rows s' where "flush e c s = (Inr (), s')" "mapE price_row (bf_pending s) = Inr rows"
      "log (bf_disk s') = log (bf_disk s) @ flush_effects e c s rows @
         [EReplace (state_path (pc_export_dir c)) [checkpoint_row (pc_start c) (bf_next s)]]"
      "bf_next s' = bf_next s" "bf_dates s' = bf_dates s" "bf_pending s' = []"
proof (cases "mapE price_row (bf_pending s)")
  case (Inl x)
  then show thesis by (intro err [of x]) (simp add: flush_def bindA_def)
next
  case (Inr rows)
  show thesis
  proof (rule ok [of "snd (flush e c s)" rows])
  qed (simp_all add: Inr flush_def bindA_def thenA_def monotonic_def bf_ask_def save_checkpoint_def
      write_single_row_csv_def write_rows_to_csv_def append_rows_def flush_effects_def Let_def)
qed

lemma flush_dates:
  "mapE price_row (bf_pending s) = Inr rows \<Longrightarrow>
   appended_dates (flush_effects e c s rows) = map (\<lambda>p. CInt (fst p)) (bf_pending s)"
  by (cases rows) (auto simp: flush_effects_def appended_dates_def Let_def dest!: price_rows_dates)

lemma flush_keeps_inv: "keeps (backfill_inv e c first D L) (flush e c)"
proof (rule keepsI)
  fix s assume inv: "backfill_inv e c first D L s"
  show "backfill_inv e c first D L (snd (flush e c s))"
  proof (cases rule: flush_cases [of e c s])
    case (err x)
    with inv show ?thesis by simp
  next
    case (ok rows s')
    from inv obtain es where es: "log (bf_disk s) = L @ es" "set (bf_dates s) = written_dates D es \<union> fst ` set (bf_pending s)"
        "distinct (appended_dates es @ map (\<lambda>p. CInt (fst p)) (bf_pending s))"
        "\<forall>x \<in> set (appended_dates es @ map (\<lambda>p. CInt (fst p)) (bf_pending s)). \<exists>d. x = CInt d \<and> d \<notin> D"
        "on_walk first (bf_next s)" "done_before e c first (set (bf_dates s)) (bf_next s)"
        "checkpoints_sound e c first D es"
      by (auto simp: backfill_inv_def)
    let ?fx = "flush_effects e c s rows"
    let ?ck = "EReplace (state_path (pc_export_dir c)) [checkpoint_row (pc_start c) (bf_next s)]"
    note dates = flush_dates [OF ok(2), of e c]
    have ck: "appended_dates [?ck] = []" by (simp add: appended_dates_def)
    have known: "written_dates D (es @ ?fx) = set (bf_dates s)"
      using es(2) by (auto simp: dates)
    have "checkpoints_sound e c first D (es @ ?fx)"
      using es(7) by (cases "rows = []") (auto simp: flush_effects_def Let_def intro: checkpoints_snoc)
    then have "checkpoints_sound e c first D ((es @ ?fx) @ [?ck])"
    proof (rule checkpoints_snoc)
      fix p row n assume "?ck = EReplace p [row]" "map_of row ''next_timestamp'' = Some (CInt n)"
      then have "n = bf_next s" by (auto simp: checkpoint_row_def)
      with es(6) known show "done_before e c first (written_dates D (es @ ?fx)) n" by simp
    qed
    then have "backfill_inv e c first D L s'"
      unfolding backfill_inv_def using ok es known ck
      by (intro exI [of _ "es @ ?fx @ [?ck]"]) (simp add: dates)
    with ok(1) show ?thesis by simp
  qed
qed

lemma take_price_inv:
  "triple (backfill_inv e c first D L) (take_price e c t data)
     (\<lambda>_ s. backfill_inv e c first D L s \<and> set_option (date_of data) \<subseteq> set (bf_dates s))
     (backfill_inv e c first D L)"
proof (rule tripleI)
  fix s x s' assume inv: "backfill_inv e c first D L s" and run: "take_price e c t data s = (Inl x, s')"
  have "core s' = core s"
    using run keeps_core [OF core_observe]
    by (fastforce simp: take_price_def add_price_def bindA_def thenA_def split: sum.splits prod.splits if_splits)
  with inv inv_core show "backfill_inv e c first D L s'" by blast
next
  fix s x s' assume inv: "backfill_inv e c first D L s" and run: "take_price e c t data s = (Inr x, s')"
  then obtain entry where entry: "first_price data = Inr entry"
    by (cases "first_price data") (auto simp: take_price_def bindA_def)
  show "backfill_inv e c first D L s' \<and> set_option (date_of data) \<subseteq> set (bf_dates s')"
  proof (cases "entry = VNull")
    case True
    with run inv entry show ?thesis by (simp add: take_price_def bindA_def date_of_def)
  next
    case False
    with run entry obtain s1 where ob: "observe e c t entry s = (Inr (), s1)"
      by (cases "observe e c t entry s"; cases "fst (observe e c t entry s)") (auto simp: take_price_def bindA_def thenA_def)
    have inv1: "backfill_inv e c first D L s1"
      using inv_core [OF keeps_core [OF core_observe ob]] inv by blast
    from run entry False ob have k: "add_price entry s1 = (Inr x, s')" by (simp add: take_price_def bindA_def thenA_def)
    then obtain time where time: "get_default entry ''time'' VNull = Inr time"
      by (cases "get_default entry ''time'' VNull") (auto simp: add_price_def bindA_def)
    show ?thesis
    proof (cases "time = VNull")
      case True
      with k time inv1 entry False show ?thesis by (simp add: add_price_def bindA_def date_of_def)
    next
      case t: False
      with k time obtain date where date: "val_int time = Inr date"
        by (cases "val_int time") (auto simp: add_price_def bindA_def)
      have d: "date_of data = Some date" by (simp add: date_of_def entry False time t date)
      show ?thesis
      proof (cases "date \<in> set (bf_dates s1)")
        case True
        with k time t date inv1 d show ?thesis by (simp add: add_price_def bindA_def)
      next
        case new: False
        with k time t date obtain u v where "get_default entry ''USD'' VNull = Inr u" "get_default entry ''EUR'' VNull = Inr v"
          by (cases "get_default entry ''USD'' VNull"; cases "get_default entry ''EUR'' VNull") (auto simp: add_price_def bindA_def)
        with k time t date new
        have "s' = s1\<lparr>bf_pending := bf_pending s1 @ [(date, u, v)], bf_dates := date # bf_dates s1, bf_written := bf_written s1 + 1\<rparr>"
          by (simp add: add_price_def bindA_def)
        with inv_add [OF inv1 new] d show ?thesis by simp
      qed
    qed
  qed
qed

lemma fetch_heard:
  "fetch_historical_price e (pc_base_url c) (pc_currency c) m s = (Inr data, s') \<Longrightarrow> heard e c m data"
  by (auto simp: fetch_historical_price_def bindA_def catchA_def bf_ask_def heard_def
      split: prod.splits sum.splits exn.splits if_splits)

text \<open>An action that leaves the core alone keeps the invariant and the position.\<close>

lemma core_triple:
  assumes "\<And>x. keeps (\<lambda>s. core s = x) a"
  shows "triple (\<lambda>s. backfill_inv e c first D L s \<and> bf_next s = n) a
           (\<lambda>_ s. backfill_inv e c first D L s \<and> bf_next s = n) (backfill_inv e c first D L)"
proof (rule tripleI)
  fix s x s' assume s: "backfill_inv e c first D L s \<and> bf_next s = n" and run: "a s = (Inr x, s')"
  note same = keeps_core [OF assms run]
  with s inv_core [OF same] show "backfill_inv e c first D L s' \<and> bf_next s' = n" by (simp add: core_def)
next
  fix s x s' assume s: "backfill_inv e c first D L s \<and> bf_next s = n" and run: "a s = (Inl x, s')"
  from s inv_core [OF keeps_core [OF assms run]] show "backfill_inv e c first D L s'" by simp
qed

lemma core_ask_price [keeps_intros]: "keeps (\<lambda>s. core s = x) (ask_price e c m)"
  unfolding ask_price_def by (auto intro!: keeps_intros)

lemma ask_price_triple:
  "triple (\<lambda>s. backfill_inv e c first D L s \<and> bf_next s = m) (ask_price e c m)
     (\<lambda>r s. backfill_inv e c first D L s \<and> bf_next s = m \<and> (\<forall>data. r = Inr data \<longrightarrow> heard e c m data))
     (backfill_inv e c first D L)"
proof (rule tripleI)
  fix s x s' assume s: "backfill_inv e c first D L s \<and> bf_next s = m" "ask_price e c m s = (Inl x, s')"
  show "backfill_inv e c first D L s'" by (rule triple_Inl [OF core_triple [OF core_ask_price] s])
next
  fix s r s' assume s: "backfill_inv e c first D L s \<and> bf_next s = m" "ask_price e c m s = (Inr r, s')"
  have "\<forall>data. r = Inr data \<longrightarrow> heard e c m data"
    using s(2) by (auto simp: ask_price_def catchA_def bindA_def dest!: fetch_heard split: prod.splits sum.splits if_splits)
  with triple_Inr [OF core_triple [OF core_ask_price] s]
  show "backfill_inv e c first D L s' \<and> bf_next s' = m \<and> (\<forall>data. r = Inr data \<longrightarrow> heard e c m data)" by blast
qed

lemma take_price_next: "take_price e c m data s = (r, s') \<Longrightarrow> bf_next s' = bf_next s"
proof -
  assume run: "take_price e c m data s = (r, s')"
  have ob: "bf_next s2 = bf_next s1" if "observe e c t en s1 = (r1, s2)" for t en s1 r1 s2
    using keeps_core [OF core_observe that] by (simp add: core_def)
  show ?thesis
    using run by (auto simp: take_price_def add_price_def bindA_def thenA_def dest!: ob split: prod.splits sum.splits if_splits)
qed

lemma flush_next: "flush e c s = (r, s') \<Longrightarrow> bf_next s' = bf_next s"
  by (cases rule: flush_cases [of e c s]) auto

text \<open>After an answer the walk moves on by one minute.\<close>

lemma after_answer_inv:
  assumes heard: "heard e c m data"
  shows "triple (\<lambda>s. backfill_inv e c first D L s \<and> bf_next s = m) (after_answer e c m data)
     (\<lambda>r s. backfill_inv e c first D L s \<and> bf_next s = m + STEP_SECONDS \<and> r = None) (backfill_inv e c first D L)"
proof -
  let ?I = "backfill_inv e c first D L"
  have take: "triple (\<lambda>s. ?I s \<and> bf_next s = m) (take_price e c m data)
      (\<lambda>_ s. ?I s \<and> bf_next s = m \<and> set_option (date_of data) \<subseteq> set (bf_dates s)) ?I"
  proof (rule tripleI)
    fix s x s' assume s: "?I s \<and> bf_next s = m" and run: "take_price e c m data s = (Inl x, s')"
    from s triple_Inl [OF take_price_inv _ run] show "?I s'" by blast
  next
    fix s x s' assume s: "?I s \<and> bf_next s = m" and run: "take_price e c m data s = (Inr x, s')"
    from s triple_Inr [OF take_price_inv _ run] take_price_next [OF run]
    show "?I s' \<and> bf_next s' = m \<and> set_option (date_of data) \<subseteq> set (bf_dates s')" by auto
  qed
  have move: "triple (\<lambda>s. ?I s \<and> bf_next s = m \<and> set_option (date_of data) \<subseteq> set (bf_dates s))
      (updA (\<lambda>s. s\<lparr>bf_next := bf_next s + STEP_SECONDS, bf_since_flush := bf_since_flush s + 1\<rparr>))
      (\<lambda>_ s. ?I s \<and> bf_next s = m + STEP_SECONDS) ?I"
    using inv_next [of e c first D L _ data] heard by (intro triple_upd) auto
  have flush: "triple (\<lambda>s. ?I s \<and> bf_next s = n) (if due then flush e c else ret ()) (\<lambda>_ s. ?I s \<and> bf_next s = n) ?I" for due n
    by (rule tripleI) (use keepsD [OF flush_keeps_inv] flush_next in \<open>fastforce split: if_splits\<close>)+
  show ?thesis
    unfolding after_answer_def
    by (rule triple_then [OF take], rule triple_then [OF move], rule triple_bind [OF core_triple [OF core_clock]],
        rule triple_bind [OF core_triple [OF keeps_getA]], rule triple_then [OF flush], rule triple_ret, simp)
qed

lemma step_inv:
  "triple (\<lambda>s. backfill_inv e c first D L s \<and> bf_next s = m) (backfill_step e c)
     (\<lambda>r s. backfill_inv e c first D L s \<and> bf_next s = (if r = None then m + STEP_SECONDS else m))
     (backfill_inv e c first D L)"
proof -
  let ?I = "backfill_inv e c first D L"
  have pace: "triple (\<lambda>s. ?I s \<and> bf_next s = m) (updA (\<lambda>s. s\<lparr>bf_next_request := f s\<rparr>)) (\<lambda>_ s. ?I s \<and> bf_next s = m) ?I" for f
    by (rule core_triple) (simp add: keeps_def core_def)
  have now: "triple (\<lambda>s. ?I s \<and> bf_next s = m) (getA bf_next) (\<lambda>t s. (?I s \<and> bf_next s = m) \<and> t = m) ?I"
    by (simp add: triple_def)
  show ?thesis
    unfolding backfill_step_def
  proof (rule triple_bind [OF core_triple [OF core_clock]], rule triple_then [OF pace], rule triple_bind [OF now], rule triple_cond)
    fix t assume t: "t = m"
    show "triple (\<lambda>s. ?I s \<and> bf_next s = m)
        (bindA (ask_price e c t) (\<lambda>r. case r of Inl code \<Rightarrow> ret (Some code) | Inr data \<Rightarrow> after_answer e c t data))
        (\<lambda>r s. ?I s \<and> bf_next s = (if r = None then m + STEP_SECONDS else m)) ?I"
      unfolding t
    proof (rule triple_bind [OF ask_price_triple])
      fix r :: "int + pyval"
      show "triple (\<lambda>s. ?I s \<and> bf_next s = m \<and> (\<forall>data. r = Inr data \<longrightarrow> heard e c m data))
          (case r of Inl code \<Rightarrow> ret (Some code) | Inr data \<Rightarrow> after_answer e c m data)
          (\<lambda>r s. ?I s \<and> bf_next s = (if r = None then m + STEP_SECONDS else m)) ?I"
      proof (cases r)
        case (Inl code)
        then show ?thesis by (auto intro: triple_ret)
      next
        case (Inr data)
        have "triple (\<lambda>s. (?I s \<and> bf_next s = m) \<and> heard e c m data) (after_answer e c m data)
            (\<lambda>r s. ?I s \<and> bf_next s = (if r = None then m + STEP_SECONDS else m)) ?I"
          by (rule triple_cond, rule triple_weaken [OF after_answer_inv]) auto
        then show ?thesis using Inr by (auto elim: triple_weaken)
      qed
    qed
  qed
qed

lemma after_answer_None: "after_answer e c m data s = (Inr r, s') \<Longrightarrow> r = None"
  by (auto simp: after_answer_def bindA_def thenA_def split: prod.splits sum.splits)

lemma step_code: "backfill_step e c s = (Inr (Some code), s') \<Longrightarrow> code \<noteq> 0"
  by (auto simp: backfill_step_def bindA_def thenA_def ask_price_def catchA_def EXIT_RATE_LIMITED_def dest: after_answer_None
      split: prod.splits sum.splits exn.splits if_splits)

text \<open>
  The loop with enough turns returns an exit code or raises: zero past the end, another code at the
  minute that failed.
\<close>

lemma loop_inv:
  assumes "backfill_inv e c first D L s" "enough_turns (bf_next s) (pc_end c) \<le> fuel"
    and "backfill_loop fuel e c s = (r, s')"
  shows "backfill_inv e c first D L s' \<and> r \<noteq> Inr None \<and> (r = Inr (Some 0) \<longrightarrow> pc_end c < bf_next s')"
  using assms
proof (induction fuel arbitrary: s)
  case 0
  then show ?case by (simp add: enough_turns_def)
next
  case (Suc fuel)
  show ?case
  proof (cases "bf_next s \<le> pc_end c")
    case False
    with Suc.prems show ?thesis by (auto simp: bindA_def)
  next
    case True
    obtain q t where step: "backfill_step e c s = (q, t)" by force
    have start: "backfill_inv e c first D L s \<and> bf_next s = bf_next s" using Suc.prems(1) by simp
    show ?thesis
    proof (cases q)
      case (Inl x)
      with Suc.prems True step triple_Inl [OF step_inv start] show ?thesis by (auto simp: bindA_def)
    next
      case (Inr o1)
      have t: "backfill_inv e c first D L t" "bf_next t = (if o1 = None then bf_next s + STEP_SECONDS else bf_next s)"
        using triple_Inr [OF step_inv start] step Inr by auto
      show ?thesis
      proof (cases o1)
        case None
        have "(pc_end c - (bf_next s + 60)) div 60 = (pc_end c - bf_next s) div 60 - 1"
          using div_mult_self1 [of 60 "pc_end c - bf_next s" "- 1"] by (simp add: algebra_simps)
        moreover have "0 \<le> (pc_end c - bf_next s) div 60" using True by simp
        ultimately have "enough_turns (bf_next t) (pc_end c) \<le> fuel"
          using Suc.prems(2) t(2) None by (simp add: enough_turns_def STEP_SECONDS_def)
        moreover have "backfill_loop fuel e c t = (r, s')"
          using Suc.prems(3) True step Inr None by (simp add: bindA_def)
        ultimately show ?thesis using Suc.IH [OF t(1)] by blast
      next
        case (Some code)
        have "code \<noteq> 0" using step Inr Some by (rule_tac step_code) simp
        with Suc.prems(3) True step Inr Some t show ?thesis by (auto simp: bindA_def)
      qed
    qed
  qed
qed

text \<open>The run as a whole, when it gets past the checks and has work to do.\<close>

lemma start_inv:
  "existing_dates e d (prices_base (pc_export_dir c)) = Inr dates \<Longrightarrow>
   backfill_inv e c first (set dates) (log d) (backfill_start e first dates d)"
  by (simp add: backfill_inv_def backfill_start_def written_dates_def appended_dates_def on_walk_def done_before_def
      checkpoints_sound_def)

lemma run_backfill_cases:
  assumes "run_backfill e c d = (r, d')"
  obtains (idle) "d' = d" "r \<noteq> Inr None"
      "r = Inr (Some 0) \<longrightarrow> (\<exists>n. load_checkpoint e d (state_path (pc_export_dir c)) (pc_start c) = Inr n \<and> pc_end c < n)"
  | (ran) first dates s q r2 t where "load_checkpoint e d (state_path (pc_export_dir c)) (pc_start c) = Inr first"
      "existing_dates e d (prices_base (pc_export_dir c)) = Inr dates"
      "backfill_inv e c first (set dates) (log d) s" "q \<noteq> Inr None" "q = Inr (Some 0) \<longrightarrow> pc_end c < bf_next s"
      "flush e c s = (r2, t)" "d' = bf_disk t" "r = (case r2 of Inl x \<Rightarrow> Inl x | Inr u \<Rightarrow> q)"
proof (cases "pc_end c < pc_start c")
  case True
  with assms idle show thesis by (auto simp: run_backfill_def)
next
  case go: False
  let ?cp = "load_checkpoint e d (state_path (pc_export_dir c)) (pc_start c)"
  show thesis
  proof (cases ?cp)
    case (Inl x)
    with assms go idle show thesis by (auto simp: run_backfill_def)
  next
    case (Inr first)
    let ?ed = "existing_dates e d (prices_base (pc_export_dir c))"
    show thesis
    proof (cases "pc_end c < first")
      case True
      with Inr assms go idle show thesis by (auto simp: run_backfill_def)
    next
      case work: False
      show thesis
      proof (cases ?ed)
        case (Inl x)
        with Inr work assms go idle show thesis by (auto simp: run_backfill_def)
      next
        case dates: (Inr dates)
        let ?s = "backfill_start e first dates d"
        obtain q s where loop: "backfill_loop (enough_turns first (pc_end c)) e c ?s = (q, s)" by force
        obtain r2 t where fl: "flush e c s = (r2, t)" by force
        have "bf_next ?s = first" by (simp add: backfill_start_def)
        with loop_inv [OF start_inv [OF dates] _ loop] have inv: "backfill_inv e c first (set dates) (log d) s" "q \<noteq> Inr None"
            "q = Inr (Some 0) \<longrightarrow> pc_end c < bf_next s" by simp_all
        have "d' = bf_disk t" "r = (case r2 of Inl x \<Rightarrow> Inl x | Inr u \<Rightarrow> q)"
          using assms go Inr work dates loop fl by (auto simp: run_backfill_def finallyA_def split: sum.splits)
        with ran [OF Inr dates inv fl] show thesis by blast
      qed
    qed
  qed
qed

text \<open>The log of a run and what the invariant says of it.\<close>

lemma run_backfill_log:
  assumes run: "run_backfill e c d = (r, d')"
    and first: "load_checkpoint e d (state_path (pc_export_dir c)) (pc_start c) = Inr first"
    and dates: "existing_dates e d (prices_base (pc_export_dir c)) = Inr dates"
  shows "\<exists>es. log d' = log d @ es \<and> distinct (appended_dates es) \<and>
              (\<forall>x \<in> set (appended_dates es). \<exists>n. x = CInt n \<and> n \<notin> set dates) \<and>
              checkpoints_sound e c first (set dates) es"
  using run
proof (cases rule: run_backfill_cases)
  case idle
  then show ?thesis by (auto simp: appended_dates_def checkpoints_sound_def)
next
  case (ran f ds s q r2 t)
  with first dates have "backfill_inv e c first (set dates) (log d) s" by simp
  then have "backfill_inv e c first (set dates) (log d) t"
    using keepsD [OF flush_keeps_inv] ran(6) by (metis snd_conv)
  then obtain es where "log (bf_disk t) = log d @ es" "distinct (appended_dates es @ map (\<lambda>p. CInt (fst p)) (bf_pending t))"
      "\<forall>x \<in> set (appended_dates es @ map (\<lambda>p. CInt (fst p)) (bf_pending t)). \<exists>d. x = CInt d \<and> d \<notin> set dates"
      "checkpoints_sound e c first (set dates) es"
    unfolding backfill_inv_def by blast
  with ran(7) show ?thesis by (intro exI [of _ es]) simp
qed

section \<open>Properties\<close>


text \<open>
  C22. A checkpoint never runs ahead of the prices: cut off after any effect, a checkpoint on disk that
  says \<open>n\<close> means that every minute of the walk before \<open>n\<close> was answered and that the price in its answer was
  in the files already, from before the run or appended earlier in it. A resumed run so misses no price.
\<close>

theorem checkpoint_follows_the_prices:
  assumes "run_backfill e c d = (r, d')"
    and "load_checkpoint e d (state_path (pc_export_dir c)) (pc_start c) = Inr first"
    and "existing_dates e d (prices_base (pc_export_dir c)) = Inr dates"
    and "log d' = log d @ pre @ EReplace p [row] # post" "map_of row ''next_timestamp'' = Some (CInt n)"
    and "first \<le> m" "m < n" "(m - first) mod STEP_SECONDS = 0"
  shows "\<exists>v. heard e c m v \<and> (\<forall>date. date_of v = Some date \<longrightarrow> date \<in> set dates \<or> CInt date \<in> set (appended_dates pre))"
proof -
  from run_backfill_log [OF assms(1-3)] assms(4) have "checkpoints_sound e c first (set dates) (pre @ EReplace p [row] # post)"
    by auto
  with assms(5) have "done_before e c first (written_dates (set dates) pre) n"
    unfolding checkpoints_sound_def by blast
  with assms(6-8) show ?thesis
    by (fastforce simp: done_before_def on_walk_def written_dates_def)
qed

text \<open>
  C34. Every run ends, with an exit code or an exception, within the steps the code announces; exit code
  0 means that the saved checkpoint is past the end of the range.
\<close>

theorem backfill_ends:
  assumes "run_backfill e c d = (r, d')"
  shows "r \<noteq> Inr None \<and>
         (r = Inr (Some 0) \<longrightarrow>
            (\<exists>n. pc_end c < n \<and>
               (load_checkpoint e d (state_path (pc_export_dir c)) (pc_start c) = Inr n \<or>
                (\<exists>pre. log d' = pre @ [EReplace (state_path (pc_export_dir c)) [checkpoint_row (pc_start c) n]]))))"
  using assms
proof (cases rule: run_backfill_cases)
  case idle
  then show ?thesis by blast
next
  case (ran f ds s q r2 t)
  show ?thesis
  proof (cases rule: flush_cases [of e c s])
    case (err x)
    with ran show ?thesis by auto
  next
    case (ok rows s')
    with ran have "r = q" "log d' = (log (bf_disk s) @ flush_effects e c s rows) @
        [EReplace (state_path (pc_export_dir c)) [checkpoint_row (pc_start c) (bf_next s)]]" by auto
    with ran(4,5) show ?thesis by blast
  qed
qed

text \<open>Two minutes, one price each, and nothing on disk.\<close>

definition sample_price_env :: price_env where
  "sample_price_env =
     \<lparr>pe_write = (\<lambda>_ _. ''x''), pe_read = (\<lambda>_. None), pe_clock = (\<lambda>_. 0),
      pe_get = (\<lambda>_ url _ t. Inr \<lparr>pr_status = 200, pr_retry_after = '''',
        pr_json = Inr (VMap [(''prices'', if url = ''v'' then VList [VInt 1] else
          VList [VMap [(''time'', VInt (t + 5)), (''USD'', VInt 7), (''EUR'', VInt 8)]])])\<rparr>)\<rparr>"

definition sample_price_config :: price_config where
  "sample_price_config =
     \<lparr>pc_start = 0, pc_end = 60, pc_export_dir = ''out'', pc_rate_limit_per_second = 1, pc_base_url = ''u'', pc_currency = ''EUR'',
      pc_validation_base_url = ''v'', pc_validate_every = 0, pc_validation_warn_percent = 2\<rparr>"

lemma sample_backfill_run:
  "log (snd (run_backfill sample_price_env sample_price_config empty_disk)) =
     [EAppend (''out'', ''prices.csv'') True
        [[(''date_unix'', CInt 5), (''usd'', CInt 7), (''eur'', CInt 8)], [(''date_unix'', CInt 65), (''usd'', CInt 7), (''eur'', CInt 8)]],
      EReplace (''out'', ''price_gap_backfill_state.csv'') [[(''range_start'', CInt 0), (''next_timestamp'', CInt 120)]]]"
proof -
  have blank: "files empty_disk = []" "log empty_disk = []" by (simp_all add: empty_disk_def)
  have paths: "state_path ''out'' = (''out'', ''price_gap_backfill_state.csv'')" "base_path (prices_base ''out'') = (''out'', ''prices.csv'')"
    by (simp_all add: state_path_def prices_base_def base_path_def)
  have empty: "load_checkpoint sample_price_env empty_disk (''out'', ''price_gap_backfill_state.csv'') 0 = Inr 0"
      "existing_dates sample_price_env empty_disk (prices_base ''out'') = Inr []"
    by (simp_all add: load_checkpoint_def read_single_row_csv_def path_exists_def blank existing_dates_def
        csv_parts_exist_def all_parts_def)
  have turns: "enough_turns 0 60 = Suc (Suc (Suc 0))" by (simp add: enough_turns_def STEP_SECONDS_def)
  have cfg: "pc_start sample_price_config = 0" "pc_end sample_price_config = 60" "pc_export_dir sample_price_config = ''out''"
      "pc_base_url sample_price_config = ''u''" "pc_validate_every sample_price_config = 0"
    by (simp_all add: sample_price_config_def)
  have env: "pe_clock sample_price_env n = 0"
      "pe_get sample_price_env n ''u'' cur t = Inr \<lparr>pr_status = 200, pr_retry_after = '''',
         pr_json = Inr (VMap [(''prices'', VList [VMap [(''time'', VInt (t + 5)), (''USD'', VInt 7), (''EUR'', VInt 8)]])])\<rparr>" for n cur t
    by (simp_all add: sample_price_env_def)
  show ?thesis
    by (simp add: run_backfill_def cfg env empty turns paths backfill_start_def finallyA_def bindA_def thenA_def
        backfill_step_def monotonic_def bf_ask_def ask_price_def catchA_def fetch_historical_price_def
        after_answer_def take_price_def first_price_def observe_def add_price_def STEP_SECONDS_def FLUSH_EVERY_STEPS_def
        FLUSH_EVERY_SECONDS_def flush_def price_row_def save_checkpoint_def write_single_row_csv_def write_rows_to_csv_def
        append_rows_def current_part_for_append_def file_nonempty_def path_exists_def blank checkpoint_row_def)
qed

lemma sample_price_start:
  "load_checkpoint sample_price_env empty_disk (state_path (pc_export_dir sample_price_config)) (pc_start sample_price_config) = Inr 0"
  "existing_dates sample_price_env empty_disk (prices_base (pc_export_dir sample_price_config)) = Inr []"
  by (simp_all add: load_checkpoint_def read_single_row_csv_def path_exists_def existing_dates_def
      csv_parts_exist_def all_parts_def) (simp_all add: empty_disk_def sample_price_config_def)


theorem checkpoint_follows_the_prices_witness:
  "\<exists>v. heard sample_price_env sample_price_config 60 v \<and> (\<forall>date. date_of v = Some date \<longrightarrow> CInt date \<in> {CInt 5, CInt 65})"
proof -
  obtain r d' where run: "run_backfill sample_price_env sample_price_config empty_disk = (r, d')" by force
  have "log empty_disk = []" by (simp add: empty_disk_def)
  with run sample_backfill_run have "log d' = log empty_disk @
     [EAppend (''out'', ''prices.csv'') True
        [[(''date_unix'', CInt 5), (''usd'', CInt 7), (''eur'', CInt 8)], [(''date_unix'', CInt 65), (''usd'', CInt 7), (''eur'', CInt 8)]]] @
     EReplace (''out'', ''price_gap_backfill_state.csv'') [[(''range_start'', CInt 0), (''next_timestamp'', CInt 120)]] # []"
    by simp
  from checkpoint_follows_the_prices [OF run sample_price_start this, of 120 60]
  show ?thesis by (simp add: appended_dates_def STEP_SECONDS_def)
qed

theorem backfill_ends_witness:
  "fst (run_backfill sample_price_env sample_price_config empty_disk) \<noteq> Inr None"
  using backfill_ends [of sample_price_env sample_price_config empty_disk]
  by (cases "run_backfill sample_price_env sample_price_config empty_disk") simp

text \<open>
  The spot check is not harmless: when the second instance answers a price list whose first entry is
  no object, the check raises, and the run stops at the first price without a row.
\<close>

theorem malformed_check_stops_the_backfill:
  "fst (take_price sample_price_env (sample_price_config\<lparr>pc_validate_every := 1\<rparr>) 0
          (VMap [(''prices'', VList [VMap [(''time'', VInt 5), (''USD'', VInt 7), (''EUR'', VInt 8)]])])
          (backfill_start sample_price_env 0 [] empty_disk)) = Inl AttributeError"
  by (simp add: take_price_def first_price_def bindA_def thenA_def observe_def on_validator_def backfill_start_def
      new_validator_def monotonic_def bf_ask_def validate_def validation_data_def catchA_def fetch_historical_price_def
      sample_price_env_def sample_price_config_def compare_prices_def)

end
