(* ===== verification/Api_Client.thy ===== *)
theory Api_Client
  imports Csv_Files Config
begin

text \<open>
  btc_parser_app/api/rate_limiter.py, api/client.py and api/mining_pools_dataset.py: the token bucket, a
  client that retries within its budget, and the refresh of the pools data set over it. Clocks, the server,
  file times and JSON texts are the environment.
\<close>

section \<open>The token bucket\<close>

record bucket =
  tb_rate_per_second :: rat
  tb_capacity :: rat
  tb_tokens :: rat
  tb_last_refill :: rat

definition new_bucket :: "rat \<Rightarrow> int \<Rightarrow> rat \<Rightarrow> exn + bucket" where
  "new_bucket requests_per_minute bucket_size now =
     (if requests_per_minute \<le> 0 then Inl (ValueError ''requests_per_minute must be > 0'')
      else if bucket_size < 1 then Inl (ValueError ''bucket_size must be >= 1'')
      else Inr \<lparr>tb_rate_per_second = fl (requests_per_minute / 60), tb_capacity = fl (of_int bucket_size),
                tb_tokens = fl (of_int bucket_size), tb_last_refill = now\<rparr>)"

definition refill :: "rat \<Rightarrow> bucket \<Rightarrow> bucket" where
  "refill now b =
     (let elapsed = fl (now - tb_last_refill b) in
      if 0 < elapsed
      then b\<lparr>tb_tokens := min (tb_capacity b) (fl (tb_tokens b + fl (elapsed * tb_rate_per_second b))),
             tb_last_refill := now\<rparr>
      else b)"

text \<open>What \<open>acquire\<close> does under the lock: refill, and take a token if there is one.\<close>

definition try_take :: "rat \<Rightarrow> bucket \<Rightarrow> bool \<times> bucket" where
  "try_take now b =
     (let b' = refill now b in
      if 1 \<le> tb_tokens b' then (True, b'\<lparr>tb_tokens := fl (tb_tokens b' - 1)\<rparr>) else (False, b'))"

definition wait_seconds :: "bucket \<Rightarrow> rat" where
  "wait_seconds b = fl (fl (1 - tb_tokens b) / tb_rate_per_second b)"

text \<open>A bucket as it is made and used: tokens between nothing and the capacity, which a double counts exactly.\<close>

definition bucket_ok :: "bucket \<Rightarrow> bool" where
  "bucket_ok b \<longleftrightarrow> 0 \<le> tb_rate_per_second b \<and> 0 \<le> tb_tokens b \<and> tb_tokens b \<le> tb_capacity b \<and> tb_capacity b \<le> 2 ^ 53"

lemma new_bucket_ok: "new_bucket rpm n now = Inr b \<Longrightarrow> n < 2 ^ 53 \<Longrightarrow> bucket_ok b"
  using of_int_le_iff [of n "2 ^ 53", where 'a = rat]
  by (auto simp: new_bucket_def bucket_ok_def fl_nonneg fl_of_int split: if_splits)

lemma refill_ok: "bucket_ok b \<Longrightarrow> bucket_ok (refill now b)"
  by (auto simp: bucket_ok_def refill_def Let_def fl_nonneg)

lemma refill_static [simp]: "tb_capacity (refill now b) = tb_capacity b" "tb_rate_per_second (refill now b) = tb_rate_per_second b"
  by (simp_all add: refill_def Let_def)

section \<open>The budget\<close>

text \<open>The unit roundoff of a double.\<close>

definition eps :: rat where
  "eps = 1 / 2 ^ 53"

lemma fl_le: "0 \<le> q \<Longrightarrow> fl q \<le> q * (1 + eps)"
proof -
  assume "0 \<le> q"
  then have "fl q - q \<le> q / 2 ^ 53" using fl_error [of q] by linarith
  moreover have "q * (1 + eps) = q + q / 2 ^ 53" by (simp add: eps_def distrib_left)
  ultimately show ?thesis by linarith
qed

lemma eps_pos: "0 < eps" "0 \<le> eps"
  by (simp_all add: eps_def)

text \<open>
  What one use of the bucket adds at most to the tokens left and taken: the refill for the time that
  passed, and what the roundings may add.
\<close>

lemma refill_adds:
  assumes ok: "bucket_ok b"
  shows "tb_tokens (refill now b) \<le> tb_tokens b +
           (tb_last_refill (refill now b) - tb_last_refill b) * tb_rate_per_second b * (1 + eps) ^ 3 + tb_capacity b * eps
         \<and> tb_last_refill b \<le> tb_last_refill (refill now b)"
proof (cases "0 < fl (now - tb_last_refill b)")
  case False
  with ok eps_pos show ?thesis by (simp add: refill_def bucket_ok_def)
next
  case True
  let ?d = "now - tb_last_refill b" and ?r = "tb_rate_per_second b" and ?t = "tb_tokens b"
  have d: "0 \<le> ?d"
  proof (rule ccontr)
    assume "\<not> 0 \<le> ?d"
    then have "0 \<le> fl (- ?d)" by (intro fl_nonneg) simp
    with True fl_uminus [of ?d] show False by linarith
  qed
  from ok have r: "0 \<le> ?r" "0 \<le> ?t" "?t \<le> tb_capacity b" by (auto simp: bucket_ok_def)
  have "fl ?d * ?r \<le> ?d * (1 + eps) * ?r" using fl_le [OF d] r(1) by (rule mult_right_mono)
  then have 1: "fl ?d * ?r \<le> ?d * ?r * (1 + eps)" by (simp only: mult_ac)
  have "0 \<le> fl ?d * ?r" using True r(1) by simp
  then have "fl (fl ?d * ?r) \<le> fl ?d * ?r * (1 + eps)" by (rule fl_le)
  also have "\<dots> \<le> ?d * ?r * (1 + eps) * (1 + eps)" using 1 eps_pos by (intro mult_right_mono) auto
  finally have 2: "fl (fl ?d * ?r) \<le> ?d * ?r * (1 + eps) ^ 2" by (simp add: power2_eq_square mult.assoc)
  have "0 \<le> fl (fl ?d * ?r)" using True r(1) by (intro fl_nonneg) simp
  with r(2) have "fl (?t + fl (fl ?d * ?r)) \<le> (?t + fl (fl ?d * ?r)) * (1 + eps)" by (intro fl_le) simp
  also have "\<dots> \<le> (?t + ?d * ?r * (1 + eps) ^ 2) * (1 + eps)" using 2 eps_pos by (intro mult_right_mono) auto
  also have "\<dots> = ?t + ?d * ?r * (1 + eps) ^ 3 + ?t * eps" by (simp add: algebra_simps power2_eq_square power3_eq_cube)
  also have "\<dots> \<le> ?t + ?d * ?r * (1 + eps) ^ 3 + tb_capacity b * eps" using r(3) eps_pos by (simp add: mult_right_mono)
  finally show ?thesis using True d by (simp add: refill_def)
qed

lemma try_take_adds:
  assumes ok: "bucket_ok b" and run: "try_take now b = (got, b')"
  shows "bucket_ok b' \<and> tb_capacity b' = tb_capacity b \<and> tb_rate_per_second b' = tb_rate_per_second b \<and>
         tb_last_refill b \<le> tb_last_refill b' \<and>
         (if got then 1 else 0) + tb_tokens b' \<le> tb_tokens b +
           (tb_last_refill b' - tb_last_refill b) * tb_rate_per_second b * (1 + eps) ^ 3 + 2 * tb_capacity b * eps"
proof -
  let ?b = "refill now b"
  have okr: "bucket_ok ?b" by (rule refill_ok [OF ok])
  note adds = refill_adds [OF ok, of now]
  have c: "0 \<le> tb_capacity b * eps" using ok eps_pos by (simp add: bucket_ok_def)
  show ?thesis
  proof (cases "1 \<le> tb_tokens ?b")
    case False
    with run okr adds c show ?thesis by (auto simp: try_take_def Let_def)
  next
    case True
    let ?t = "tb_tokens ?b - 1"
    from True okr have t: "0 \<le> ?t" "tb_tokens ?b \<le> tb_capacity b" by (auto simp: bucket_ok_def)
    have "fl ?t \<le> ?t * (1 + eps)" using t(1) by (rule fl_le)
    also have "\<dots> = ?t + ?t * eps" by (simp add: distrib_left)
    also have "\<dots> \<le> ?t + tb_capacity b * eps" using t eps_pos by (intro add_left_mono mult_right_mono) auto
    finally have f: "fl ?t \<le> ?t + tb_capacity b * eps" .
    have "tb_capacity b * eps \<le> 1" using okr by (simp add: bucket_ok_def eps_def)
    with f t have "fl ?t \<le> tb_capacity b" by linarith
    moreover have "0 \<le> fl ?t" using t(1) by (rule fl_nonneg)
    ultimately have "bucket_ok (?b\<lparr>tb_tokens := fl ?t\<rparr>)" using okr by (simp add: bucket_ok_def)
    with run True adds f show ?thesis by (auto simp: try_take_def Let_def)
  qed
qed

section \<open>The client\<close>

record api_response =
  as_status :: int
  as_retry_after :: string
  as_text :: string
  as_json :: "pyval option"

text \<open>
  \<open>ae_get n url\<close> is the answer to the n-th question, a RequestException is an OSError; \<open>as_json\<close> is None
  where \<open>response.json()\<close> raises a ValueError; \<open>ae_stop\<close> is what waiting on the stop event returns, when the client
  has one.
\<close>

record api_env =
  ae_clock :: "nat \<Rightarrow> rat"
  ae_get :: "nat \<Rightarrow> string \<Rightarrow> exn + api_response"
  ae_stop :: "(nat \<Rightarrow> bool) option"

record api_state =
  ap_bucket :: bucket
  ap_disk :: disk
  ap_looks :: nat

type_synonym 'a api = "(api_state, 'a) action"

definition ap_ask :: "(nat \<Rightarrow> exn + 'a) \<Rightarrow> 'a api" where
  "ap_ask answer s = (answer (ap_looks s), s\<lparr>ap_looks := ap_looks s + 1\<rparr>)"

definition stop_waited :: "api_env \<Rightarrow> bool api" where
  "stop_waited e = (case ae_stop e of None \<Rightarrow> ret False | Some stop \<Rightarrow> ap_ask (\<lambda>n. Inr (stop n)))"

definition take_token :: "api_env \<Rightarrow> bool api" where
  "take_token e =
     bindA (ap_ask (\<lambda>n. Inr (ae_clock e n))) (\<lambda>now s.
       case try_take now (ap_bucket s) of (got, b) \<Rightarrow> (Inr got, s\<lparr>ap_bucket := b\<rparr>))"

text \<open>At most \<open>turns\<close> rounds of waiting; None is still waiting.\<close>

fun acquire :: "nat \<Rightarrow> api_env \<Rightarrow> bool option api" where
  "acquire 0 e = ret None"
| "acquire (Suc turns) e =
     bindA (take_token e) (\<lambda>got.
       if got then ret (Some True)
       else bindA (stop_waited e) (\<lambda>stop. if stop then ret (Some False) else acquire turns e))"

primrec get_attempts :: "nat \<Rightarrow> nat \<Rightarrow> api_env \<Rightarrow> string \<Rightarrow> api_response option api" where
  "get_attempts 0 turns e url = raise (FetchError ''request failed after the last attempt'')"
| "get_attempts (Suc left) turns e url =
     bindA (acquire turns e) (\<lambda>a.
       case a of
         None \<Rightarrow> ret None
       | Some False \<Rightarrow> raise (FetchError ''aborted while waiting for rate limit'')
       | Some True \<Rightarrow>
           catchA (bindA (ap_ask (\<lambda>n. ae_get e n url)) (\<lambda>r. ret (Some r))) is_os_error (\<lambda>_.
             bindA (if left = 0 then ret False else stop_waited e) (\<lambda>stop.
               if stop then raise (FetchError ''aborted during retry backoff'') else get_attempts left turns e url)))"

definition get_with_retry :: "nat \<Rightarrow> api_env \<Rightarrow> int \<Rightarrow> string \<Rightarrow> api_response option api" where
  "get_with_retry turns e max_connection_retries url = get_attempts (nat (max_connection_retries + 1)) turns e url"

definition checked_status :: "api_response \<Rightarrow> exn + api_response" where
  "checked_status r =
     (if as_status r = 429 then Inl (RateLimited (as_retry_after r))
      else if as_status r \<noteq> 200 then Inl (FetchError ''unexpected status'')
      else Inr r)"

definition decoded_json :: "api_response \<Rightarrow> exn + pyval" where
  "decoded_json r =
     (case as_json r of None \<Rightarrow> Inl (FetchError ''failed to decode JSON'') | Some v \<Rightarrow> Inr v)"

definition get_json :: "nat \<Rightarrow> api_env \<Rightarrow> int \<Rightarrow> string \<Rightarrow> pyval option api" where
  "get_json turns e retries url =
     bindA (get_with_retry turns e retries url) (\<lambda>r.
       case r of None \<Rightarrow> ret None | Some resp \<Rightarrow> liftA (bindE (bindE (checked_status resp) decoded_json) (\<lambda>v. Inr (Some v))))"

definition get_text :: "nat \<Rightarrow> api_env \<Rightarrow> int \<Rightarrow> string \<Rightarrow> string option api" where
  "get_text turns e retries url =
     bindA (get_with_retry turns e retries url) (\<lambda>r.
       case r of None \<Rightarrow> ret None | Some resp \<Rightarrow> liftA (bindE (checked_status resp) (\<lambda>x. Inr (Some (as_text x)))))"

section \<open>The pools data set\<close>

definition pool_ok :: "pyval \<Rightarrow> bool" where
  "pool_ok p = (case p of VMap m \<Rightarrow> map_of m ''name'' \<noteq> None | _ \<Rightarrow> False)"

definition validate_pools :: "pyval \<Rightarrow> exn + pyval list" where
  "validate_pools pools =
     (case pools of
        VList (p # ps) \<Rightarrow>
          if list_all pool_ok (p # ps) then Inr (p # ps) else Inl (ValueError ''each pool entry must be an object'')
      | _ \<Rightarrow> Inl (ValueError ''expected a non-empty JSON list''))"

definition fetch_pools_dataset :: "nat \<Rightarrow> api_env \<Rightarrow> string \<Rightarrow> pyval list option api" where
  "fetch_pools_dataset turns e url =
     bindA (get_json turns e 2 url) (\<lambda>data.
       case data of None \<Rightarrow> ret None | Some v \<Rightarrow> liftA (bindE (validate_pools v) (\<lambda>ps. Inr (Some ps))))"

text \<open>\<open>dumps\<close> is \<open>json.dumps(pools, indent=2)\<close>; \<open>W\<close> is not used by a text effect.\<close>

definition refresh_pools :: "nat \<Rightarrow> api_env \<Rightarrow> csv_write \<Rightarrow> (pyval list \<Rightarrow> string) \<Rightarrow> string \<Rightarrow> path \<Rightarrow> unit option api" where
  "refresh_pools turns e W dumps url local =
     bindA (fetch_pools_dataset turns e url) (\<lambda>r.
       case r of
         None \<Rightarrow> ret None
       | Some pools \<Rightarrow>
           thenA (updA (\<lambda>s. s\<lparr>ap_disk := do_effect W (EText local (dumps pools)) (ap_disk s)\<rparr>)) (ret (Some ())))"

fun refresh_failed :: "exn \<Rightarrow> bool" where
  "refresh_failed (FetchError m) = True"
| "refresh_failed (RateLimited m) = True"
| "refresh_failed (ValueError m) = True"
| "refresh_failed (OSError m) = True"
| "refresh_failed _ = False"

definition refresh_if_stale ::
    "nat \<Rightarrow> api_env \<Rightarrow> csv_write \<Rightarrow> (pyval list \<Rightarrow> string) \<Rightarrow> string \<Rightarrow> path \<Rightarrow> rat \<Rightarrow> rat \<Rightarrow> rat \<Rightarrow> bool option api" where
  "refresh_if_stale turns e W dumps url local mtime now refresh_interval =
     bindA (getA (\<lambda>s. path_exists (ap_disk s) local)) (\<lambda>here.
       if here \<and> fl (now - mtime) < refresh_interval then ret (Some False)
       else catchA (bindA (refresh_pools turns e W dumps url local) (\<lambda>r. ret (map_option (\<lambda>_. True) r)))
              refresh_failed (\<lambda>_. ret (Some False)))"

section \<open>A token comes\<close>

text \<open>A double just below one, and everything above, is rounded to at least one.\<close>

lemma fl_ge_exponent: "0 < q \<Longrightarrow> pow2 (exponent q) \<le> fl q"
proof -
  assume q: "0 < q"
  let ?k = "exponent q - 52"
  have p: "pow2 (exponent q) = 2 ^ 52 * pow2 ?k" using pow2_add [of 52 ?k] by (simp add: pow2_def)
  have "of_int (2 ^ 52) \<le> q / pow2 ?k" using exponent_bounds [OF q] by (simp add: p field_simps)
  from round_half_even_mono [OF this] have "2 ^ 52 \<le> round_half_even (q / pow2 ?k)" by (simp only: round_half_even_of_int)
  then have "rat_of_int (2 ^ 52) \<le> of_int (round_half_even (q / pow2 ?k))" by (simp only: of_int_le_iff)
  then have "2 ^ 52 * pow2 ?k \<le> of_int (round_half_even (q / pow2 ?k)) * pow2 ?k" by (intro mult_right_mono) (auto simp: less_imp_le)
  then show ?thesis using q by (simp add: fl_def Let_def p)
qed

lemma pow2_mono: "a \<le> b \<Longrightarrow> pow2 a \<le> pow2 b"
proof -
  assume "a \<le> b"
  then have "pow2 b = pow2 a * 2 ^ nat (b - a)" using pow2_add [of a "b - a"] pow2_nat [of "nat (b - a)"] by simp
  moreover have "(1 :: rat) \<le> 2 ^ nat (b - a)" by simp
  ultimately show ?thesis using mult_left_mono [of 1 "2 ^ nat (b - a)" "pow2 a"] by simp
qed

lemma fl_ge_1: "1 - 1 / 2 ^ 55 \<le> q \<Longrightarrow> 1 \<le> fl q"
proof -
  assume a: "1 - 1 / 2 ^ 55 \<le> q"
  then have q: "0 < q" by (rule less_le_trans [rotated]) simp
  note b = exponent_bounds [OF q]
  have e: "-1 \<le> exponent q"
  proof (rule ccontr)
    assume "\<not> -1 \<le> exponent q"
    then have "pow2 (exponent q + 1) \<le> pow2 (-1)" by (intro pow2_mono) simp
    with b a show False by (simp add: pow2_def)
  qed
  show ?thesis
  proof (cases "exponent q = -1")
    case False
    with e have "pow2 0 \<le> pow2 (exponent q)" by (intro pow2_mono) simp
    with fl_ge_exponent [OF q] show ?thesis by (simp add: pow2_def)
  next
    case True
    let ?p = "q * 2 ^ 53"
    have "of_int (2 ^ 53) - 1 / 2 < ?p" using a by (simp add: field_simps)
    moreover have "of_int (round_half_even ?p) \<ge> ?p - 1 / 2" using round_half_even_error [of ?p] by linarith
    ultimately have "of_int (2 ^ 53 - 1) < rat_of_int (round_half_even ?p)" by simp
    then have "2 ^ 53 \<le> round_half_even ?p" by (simp only: of_int_less_iff)
    then have "rat_of_int (2 ^ 53) \<le> of_int (round_half_even ?p)" by (simp only: of_int_le_iff)
    then have "1 \<le> rat_of_int (round_half_even ?p) / 2 ^ 53" by simp
    with q True show ?thesis by (simp add: fl_def Let_def pow2_def)
  qed
qed

lemma fl_ge: "0 \<le> q \<Longrightarrow> q * (1 - eps) \<le> fl q"
proof -
  assume "0 \<le> q"
  then have "q - fl q \<le> q / 2 ^ 53" using fl_error [of q] by linarith
  moreover have "q * (1 - eps) = q - q / 2 ^ 53" by (simp add: eps_def right_diff_distrib)
  ultimately show ?thesis by linarith
qed

lemma fl_ge_mult: "0 \<le> q \<Longrightarrow> 0 \<le> c \<Longrightarrow> c \<le> q \<Longrightarrow> c * (1 - eps) \<le> fl q"
proof -
  assume a: "0 \<le> q" "0 \<le> c" "c \<le> q"
  have "c * (1 - eps) \<le> q * (1 - eps)" using a by (intro mult_right_mono) (simp_all add: eps_def)
  with fl_ge [OF a(1)] show ?thesis by linarith
qed

lemma fl_pos: "0 < q \<Longrightarrow> 0 < fl q"
  using fl_ge_exponent [of q] pow2_pos [of "exponent q"] by linarith

text \<open>After the wait a bucket asks for, it holds one token less four roundings of what was missing.\<close>

lemma wait_refills:
  assumes ok: "bucket_ok b" "0 < tb_rate_per_second b" and t: "tb_tokens b < 1"
    and now: "tb_last_refill b + wait_seconds b \<le> now"
  obtains x where "1 - 4 * eps * (1 - tb_tokens b) \<le> x" "tb_tokens (refill now b) = min (tb_capacity b) (fl x)"
    "tb_last_refill (refill now b) = now"
proof -
  let ?r = "tb_rate_per_second b" and ?d = "1 - tb_tokens b" and ?u = "1 - eps" and ?e = "now - tb_last_refill b"
  have u: "0 < ?u" by (simp add: eps_def)
  have d: "0 < ?d" using t by simp
  have 1: "?d / ?r * ?u \<le> fl ?d / ?r" using fl_ge [of ?d] d ok(2) by (simp add: divide_right_mono)
  have "0 \<le> fl ?d / ?r" using fl_nonneg [of ?d] d ok(2) by simp
  then have 2: "?d / ?r * ?u * ?u \<le> wait_seconds b"
    unfolding wait_seconds_def using 1 d ok(2) u by (intro fl_ge_mult) auto
  have "0 < ?d / ?r * ?u * ?u" using d ok(2) u by simp
  with 2 have w: "0 < wait_seconds b" by linarith
  with now have e: "0 < ?e" by linarith
  have "?d / ?r * ?u * ?u \<le> ?e" using 2 now by linarith
  then have 3: "?d / ?r * ?u * ?u * ?u \<le> fl ?e" using e d ok(2) u by (intro fl_ge_mult) auto
  have "?d / ?r * ?u * ?u * ?u * ?r \<le> fl ?e * ?r" using 3 ok(2) by (intro mult_right_mono) auto
  then have "?d * ?u * ?u * ?u \<le> fl ?e * ?r" using ok(2) by simp
  then have 4: "?d * ?u * ?u * ?u * ?u \<le> fl (fl ?e * ?r)"
    using d u ok(2) fl_pos [OF e] by (intro fl_ge_mult) auto
  have "1 - 4 * eps \<le> ?u * ?u * ?u * ?u" by (simp add: eps_def)
  then have "?d * (1 - 4 * eps) \<le> ?d * (?u * ?u * ?u * ?u)" using d by (intro mult_left_mono) auto
  with 4 have 5: "?d - 4 * eps * ?d \<le> fl (fl ?e * ?r)" by (simp add: algebra_simps)
  show ?thesis
    by (rule that [of "tb_tokens b + fl (fl ?e * ?r)"]) (use 5 fl_pos [OF e] in \<open>simp_all add: refill_def\<close>)
qed

text \<open>
  A clock and sleeps as documented over \<open>k\<close> waits from a state: the monotonic clock does not run backwards,
  and a wait that ends without the stop event lasts at least as long as asked for.
\<close>

primrec sleeps_last :: "nat \<Rightarrow> api_env \<Rightarrow> api_state \<Rightarrow> bool" where
  "sleeps_last 0 e s \<longleftrightarrow> tb_last_refill (ap_bucket s) \<le> ae_clock e (ap_looks s)"
| "sleeps_last (Suc k) e s \<longleftrightarrow> tb_last_refill (ap_bucket s) \<le> ae_clock e (ap_looks s) \<and>
     (let s1 = snd (take_token e s); s2 = snd (stop_waited e s1) in
      fst (take_token e s) = Inr False \<longrightarrow> fst (stop_waited e s1) = Inr False \<longrightarrow>
        ae_clock e (ap_looks s) + wait_seconds (ap_bucket s1) \<le> ae_clock e (ap_looks s2) \<and> sleeps_last k e s2)"

lemma take_token_eq:
  "take_token e s =
     (Inr (fst (try_take (ae_clock e (ap_looks s)) (ap_bucket s))),
      s\<lparr>ap_bucket := snd (try_take (ae_clock e (ap_looks s)) (ap_bucket s)), ap_looks := ap_looks s + 1\<rparr>)"
  by (simp add: take_token_def bindA_def ap_ask_def split: prod.splits)

lemma stop_waited_eq:
  "stop_waited e s =
     (case ae_stop e of None \<Rightarrow> (Inr False, s) | Some stop \<Rightarrow> (Inr (stop (ap_looks s)), s\<lparr>ap_looks := ap_looks s + 1\<rparr>))"
  by (simp add: stop_waited_def ap_ask_def split: option.split)

lemma stop_waited_cases:
  obtains stop s' where "stop_waited e s = (Inr stop, s')" "stop \<Longrightarrow> ae_stop e \<noteq> None"
    "ap_bucket s' = ap_bucket s" "ap_disk s' = ap_disk s"
proof (cases "ae_stop e")
  case None
  then show ?thesis by (intro that [of False s]) (simp_all add: stop_waited_eq)
next
  case (Some stop)
  then show ?thesis by (intro that [of "stop (ap_looks s)" "s\<lparr>ap_looks := ap_looks s + 1\<rparr>"]) (simp_all add: stop_waited_eq)
qed

lemma refill_now: "tb_last_refill b \<le> now \<Longrightarrow> tb_last_refill (refill now b) = now"
  using fl_pos [of "now - tb_last_refill b"] by (cases "now = tb_last_refill b") (auto simp: refill_def)

lemma try_take_fails:
  assumes "try_take now b = (False, b')"
  shows "b' = refill now b \<and> tb_tokens b' < 1"
  using assms by (auto simp: try_take_def Let_def split: if_splits)

text \<open>A failed attempt, a wait as long as asked for, and the bucket then, or the stop.\<close>

lemma acquire_round:
  assumes ok: "bucket_ok (ap_bucket s)" "0 < tb_rate_per_second (ap_bucket s)" and slept: "sleeps_last (Suc k) e s"
  obtains (got) s' where "\<And>turns. acquire (Suc turns) e s = (Inr (Some True), s')"
  | (stopped) s' where "\<And>turns. acquire (Suc turns) e s = (Inr (Some False), s')" "ae_stop e \<noteq> None"
  | (again) s' x where "\<And>turns. acquire (Suc turns) e s = acquire turns e s'" "sleeps_last k e s'"
      "ap_bucket s' = refill (ae_clock e (ap_looks s)) (ap_bucket s)"
      "bucket_ok (ap_bucket s')" "tb_rate_per_second (ap_bucket s') = tb_rate_per_second (ap_bucket s)"
      "tb_capacity (ap_bucket s') = tb_capacity (ap_bucket s)" "tb_tokens (ap_bucket s') < 1"
      "1 - 4 * eps * (1 - tb_tokens (ap_bucket s')) \<le> x"
      "tb_tokens (refill (ae_clock e (ap_looks s')) (ap_bucket s')) = min (tb_capacity (ap_bucket s)) (fl x)"
proof -
  let ?now = "ae_clock e (ap_looks s)" and ?b = "ap_bucket s"
  obtain g b' where tt: "try_take ?now ?b = (g, b')" by force
  show ?thesis
  proof (cases g)
    case True
    with tt show ?thesis by (intro got) (simp add: bindA_def take_token_eq)
  next
    case False
    with tt have b': "b' = refill ?now ?b" "tb_tokens b' < 1" using try_take_fails by auto
    define s1 where "s1 = s\<lparr>ap_bucket := b', ap_looks := ap_looks s + 1\<rparr>"
    have t1: "take_token e s = (Inr False, s1)" using tt False by (simp add: take_token_eq s1_def)
    obtain st s2 where sw: "stop_waited e s1 = (Inr st, s2)" and st: "st \<Longrightarrow> ae_stop e \<noteq> None"
        and b2: "ap_bucket s2 = b'" by (rule stop_waited_cases [of e s1]) (simp add: s1_def)
    show ?thesis
    proof (cases st)
      case True
      with t1 sw st show ?thesis by (intro stopped [of s2]) (simp_all add: bindA_def)
    next
      case False
      with slept t1 sw have l: "tb_last_refill ?b \<le> ?now" "?now + wait_seconds b' \<le> ae_clock e (ap_looks s2)" "sleeps_last k e s2"
        by (auto simp: Let_def s1_def)
      from l(1) have r: "tb_last_refill b' = ?now" by (simp add: b' refill_now)
      have okb: "bucket_ok b'" "0 < tb_rate_per_second b'" using ok b' by (simp_all add: refill_ok)
      obtain x where "1 - 4 * eps * (1 - tb_tokens b') \<le> x"
          "tb_tokens (refill (ae_clock e (ap_looks s2)) b') = min (tb_capacity b') (fl x)"
        using l(2) r by (metis wait_refills [OF okb b'(2)])
      with False t1 sw l(3) okb b' b2 show ?thesis by (intro again [of s2 x]) (simp_all add: bindA_def)
    qed
  qed
qed

lemma acquire_succeeds:
  assumes "1 \<le> tb_tokens (refill (ae_clock e (ap_looks s)) (ap_bucket s))"
  shows "\<exists>s'. acquire (Suc turns) e s = (Inr (Some True), s')"
  using assms by (simp add: bindA_def take_token_eq try_take_def Let_def)

lemma acquire_ends:
  assumes ok: "bucket_ok (ap_bucket s)" "0 < tb_rate_per_second (ap_bucket s)" "1 \<le> tb_capacity (ap_bucket s)"
    and slept: "sleeps_last 2 e s"
  shows "\<exists>got s'. acquire (3 + turns) e s = (Inr (Some got), s') \<and> (got \<or> ae_stop e \<noteq> None)"
proof -
  have turns: "3 + turns = Suc (Suc (Suc turns))" "2 = Suc (Suc 0)" by simp_all
  note slept' = slept [unfolded turns(2)]
  show ?thesis unfolding turns
  proof (cases rule: acquire_round [OF ok(1,2) slept', case_names got stopped again])
    case (again s1 x1)
    have ok1: "bucket_ok (ap_bucket s1)" "0 < tb_rate_per_second (ap_bucket s1)" "tb_capacity (ap_bucket s1) = tb_capacity (ap_bucket s)"
      using again ok by simp_all
    have "\<exists>got s'. acquire (Suc (Suc turns)) e s1 = (Inr (Some got), s') \<and> (got \<or> ae_stop e \<noteq> None)"
    proof (cases rule: acquire_round [OF ok1(1,2) again(2), case_names got stopped again])
      case (again s2 x2)
      note first = \<open>1 - 4 * eps * (1 - tb_tokens (ap_bucket s1)) \<le> x1\<close>
        \<open>tb_tokens (refill (ae_clock e (ap_looks s1)) (ap_bucket s1)) = min (tb_capacity (ap_bucket s)) (fl x1)\<close>
        \<open>bucket_ok (ap_bucket s1)\<close>
      have "0 \<le> tb_tokens (ap_bucket s1)" using first(3) by (simp add: bucket_ok_def)
      then have "4 * eps * (1 - tb_tokens (ap_bucket s1)) \<le> 4 * eps * 1" using eps_pos by (intro mult_left_mono) auto
      with first(1) have x1: "1 - 4 * eps \<le> x1" by simp
      have "tb_tokens (ap_bucket s2) = fl x1"
        using again first(2) ok(3) by auto
      moreover have "(1 - 4 * eps) * (1 - eps) \<le> fl x1"
        using x1 by (intro fl_ge_mult) (auto simp: eps_def)
      moreover have "1 - 5 * eps \<le> (1 - 4 * eps) * (1 - eps)" by (simp add: eps_def)
      ultimately have "1 - tb_tokens (ap_bucket s2) \<le> 5 * eps" by linarith
      then have "4 * eps * (1 - tb_tokens (ap_bucket s2)) \<le> 4 * eps * (5 * eps)" using eps_pos by (intro mult_left_mono) auto
      also have "\<dots> \<le> 1 / 2 ^ 55" by (simp add: eps_def)
      finally have "1 \<le> fl x2" using again by (intro fl_ge_1) linarith
      then have "1 \<le> tb_tokens (refill (ae_clock e (ap_looks s2)) (ap_bucket s2))"
        using again ok1 ok(3) by simp
      then obtain s3 where "acquire (Suc turns) e s2 = (Inr (Some True), s3)" using acquire_succeeds by blast
      with again have "acquire (Suc (Suc turns)) e s1 = (Inr (Some True), s3)" by (simp del: acquire.simps)
      then show ?thesis by blast
    qed blast+
    with again(1) [of "Suc (Suc turns)"] show "\<exists>got s'. acquire (Suc (Suc (Suc turns))) e s = (Inr (Some got), s') \<and> (got \<or> ae_stop e \<noteq> None)"
      by (simp only:)
  qed blast+
qed

section \<open>What the client answers\<close>

text \<open>
  Waiting, asking and retrying leave the disk alone; an answer is one the server gave, and an exception is
  the client's own or one of the transport that is not retried.
\<close>

lemma take_token_run:
  obtains got s' where "take_token e s = (Inr got, s')" "ap_disk s' = ap_disk s"
  by (simp add: take_token_eq)

lemma acquire_run: "\<exists>a s'. acquire turns e s = (Inr a, s') \<and> ap_disk s' = ap_disk s"
proof (induction turns arbitrary: s)
  case 0
  show ?case by simp
next
  case (Suc turns)
  obtain got s1 where t: "take_token e s = (Inr got, s1)" "ap_disk s1 = ap_disk s" by (rule take_token_run)
  obtain st s2 where w: "stop_waited e s1 = (Inr st, s2)" "ap_disk s2 = ap_disk s1" by (rule stop_waited_cases)
  from t w Suc [of s2] show ?case by (simp add: bindA_def)
qed

definition answered :: "api_env \<Rightarrow> string \<Rightarrow> api_response \<Rightarrow> bool" where
  "answered e url r \<longleftrightarrow> (\<exists>n. ae_get e n url = Inr r)"

definition client_error :: "api_env \<Rightarrow> string \<Rightarrow> exn \<Rightarrow> bool" where
  "client_error e url x \<longleftrightarrow>
     refresh_failed x \<or> (\<exists>n. ae_get e n url = Inl x \<and> \<not> is_os_error x)"

lemma get_attempts_run:
  "\<exists>r s'. get_attempts left turns e url s = (r, s') \<and> ap_disk s' = ap_disk s \<and>
     (case r of Inl x \<Rightarrow> client_error e url x | Inr None \<Rightarrow> True | Inr (Some resp) \<Rightarrow> answered e url resp)"
proof (induction left arbitrary: s)
  case 0
  show ?case by (simp add: client_error_def)
next
  case (Suc left)
  obtain a s1 where a: "acquire turns e s = (Inr a, s1)" "ap_disk s1 = ap_disk s" using acquire_run by blast
  let ?s2 = "s1\<lparr>ap_looks := ap_looks s1 + 1\<rparr>"
  obtain st s3 where w: "(if left = 0 then ret False else stop_waited e) ?s2 = (Inr st, s3)" "ap_disk s3 = ap_disk s1"
  proof (cases "left = 0")
    case True
    then show ?thesis by (intro that [of False ?s2]) simp_all
  next
    case False
    obtain st s3 where "stop_waited e ?s2 = (Inr st, s3)" "ap_disk s3 = ap_disk ?s2" by (rule stop_waited_cases)
    with False show ?thesis by (intro that [of st s3]) simp_all
  qed
  consider "a = None" | "a = Some False" | (go) "a = Some True" by auto
  then show ?case
  proof cases
    case go
    show ?thesis
    proof (cases "ae_get e (ap_looks s1) url")
      case (Inr resp)
      with go a show ?thesis by (auto simp: bindA_def catchA_def ap_ask_def answered_def)
    next
      case (Inl x)
      show ?thesis
      proof (cases "is_os_error x")
        case False
        with Inl go a show ?thesis by (auto simp: bindA_def catchA_def ap_ask_def client_error_def)
      next
        case True
        with Inl go a w Suc [of s3] show ?thesis
          by (cases st) (simp_all add: bindA_def catchA_def ap_ask_def client_error_def)
      qed
    qed
  qed (use a in \<open>simp_all add: bindA_def client_error_def\<close>)
qed

lemma get_json_run:
  "\<exists>r s'. get_json turns e retries url s = (r, s') \<and> ap_disk s' = ap_disk s \<and>
     (case r of Inl x \<Rightarrow> client_error e url x | Inr None \<Rightarrow> True
      | Inr (Some v) \<Rightarrow> \<exists>resp. answered e url resp \<and> as_status resp = 200 \<and> as_json resp = Some v)"
proof -
  obtain r s' where r: "get_attempts (nat (retries + 1)) turns e url s = (r, s')" "ap_disk s' = ap_disk s"
      "case r of Inl x \<Rightarrow> client_error e url x | Inr None \<Rightarrow> True | Inr (Some resp) \<Rightarrow> answered e url resp"
    using get_attempts_run by blast
  show ?thesis
  proof (cases r)
    case (Inl x)
    with r show ?thesis by (simp add: get_json_def get_with_retry_def bindA_def)
  next
    case (Inr ans)
    show ?thesis
    proof (cases ans)
      case None
      with Inr r show ?thesis by (simp add: get_json_def get_with_retry_def bindA_def)
    next
      case (Some resp)
      with Inr r show ?thesis
        by (auto simp: get_json_def get_with_retry_def bindA_def checked_status_def decoded_json_def bindE_def
            client_error_def split: option.split)
    qed
  qed
qed

text \<open>The disk holds the list of pools one of the server's answers consists of, and is otherwise as before.\<close>

definition refreshed :: "api_env \<Rightarrow> csv_write \<Rightarrow> (pyval list \<Rightarrow> string) \<Rightarrow> string \<Rightarrow> path \<Rightarrow> disk \<Rightarrow> disk \<Rightarrow> bool" where
  "refreshed e W dumps url local d d' \<longleftrightarrow>
     (\<exists>resp pools. answered e url resp \<and> as_status resp = 200 \<and> as_json resp = Some (VList pools) \<and>
        pools \<noteq> [] \<and> list_all pool_ok pools \<and> d' = do_effect W (EText local (dumps pools)) d)"

lemma refreshedI:
  "answered e url resp \<Longrightarrow> as_status resp = 200 \<Longrightarrow> as_json resp = Some (VList pools) \<Longrightarrow> pools \<noteq> [] \<Longrightarrow>
   list_all pool_ok pools \<Longrightarrow> refreshed e W dumps url local d (do_effect W (EText local (dumps pools)) d)"
  by (auto simp: refreshed_def)

lemma refresh_pools_run:
  "\<exists>r s'. refresh_pools turns e W dumps url local s = (r, s') \<and>
     (case r of
        Inl x \<Rightarrow> ap_disk s' = ap_disk s \<and> client_error e url x
      | Inr None \<Rightarrow> ap_disk s' = ap_disk s
      | Inr (Some _) \<Rightarrow> refreshed e W dumps url local (ap_disk s) (ap_disk s'))"
proof -
  obtain r s' where r: "get_json turns e 2 url s = (r, s')" "ap_disk s' = ap_disk s"
      "case r of Inl x \<Rightarrow> client_error e url x | Inr None \<Rightarrow> True
       | Inr (Some v) \<Rightarrow> \<exists>resp. answered e url resp \<and> as_status resp = 200 \<and> as_json resp = Some v"
    using get_json_run by blast
  show ?thesis
  proof (cases r)
    case (Inl x)
    with r show ?thesis by (simp add: refresh_pools_def fetch_pools_dataset_def bindA_def)
  next
    case (Inr ans)
    show ?thesis
    proof (cases ans)
      case None
      with Inr r show ?thesis by (simp add: refresh_pools_def fetch_pools_dataset_def bindA_def)
    next
      case (Some v)
      have "(\<exists>pools. v = VList pools \<and> pools \<noteq> [] \<and> list_all pool_ok pools \<and> validate_pools v = Inr pools) \<or>
            (\<exists>m. validate_pools v = Inl (ValueError m))"
        by (auto simp: validate_pools_def split: pyval.split list.split)
      with Inr Some r show ?thesis
        by (auto simp: refresh_pools_def fetch_pools_dataset_def bindA_def thenA_def bindE_def client_error_def
            intro: refreshedI)
    qed
  qed
qed

text \<open>
  C27. A failed refresh leaves the data set on disk as it is: the file changes only when the server answered 200
  with a non-empty list of named pools, and then it is replaced as a whole by that list. A fresh copy asks
  nothing, and no failed request, status, text or data set escapes as an exception.
\<close>

theorem refresh_keeps_a_valid_data_set:
  assumes run: "refresh_if_stale turns e W dumps url local mtime now interval s = (r, s')"
  shows "(case r of
            Inr (Some True) \<Rightarrow> refreshed e W dumps url local (ap_disk s) (ap_disk s')
          | Inr _ \<Rightarrow> ap_disk s' = ap_disk s
          | Inl x \<Rightarrow> ap_disk s' = ap_disk s \<and> \<not> refresh_failed x) \<and>
         (path_exists (ap_disk s) local \<and> fl (now - mtime) < interval \<longrightarrow> r = Inr (Some False) \<and> s' = s)"
proof (cases "path_exists (ap_disk s) local \<and> fl (now - mtime) < interval")
  case True
  with run show ?thesis by (auto simp: refresh_if_stale_def bindA_def)
next
  case False
  obtain q s1 where q: "refresh_pools turns e W dumps url local s = (q, s1)"
    "case q of
        Inl x \<Rightarrow> ap_disk s1 = ap_disk s \<and> client_error e url x
      | Inr None \<Rightarrow> ap_disk s1 = ap_disk s
      | Inr (Some _) \<Rightarrow> refreshed e W dumps url local (ap_disk s) (ap_disk s1)"
    using refresh_pools_run by blast
  with False run show ?thesis
    by (cases q) (auto simp: refresh_if_stale_def bindA_def catchA_def split: if_splits option.splits)
qed

definition demo_pools :: "pyval list" where
  "demo_pools = [VMap [(''name'', VStr ''AntPool'')]]"

definition demo_api :: api_env where
  "demo_api = \<lparr>ae_clock = (\<lambda>n. 2 * of_nat n),
     ae_get = (\<lambda>n url. if n < 3 then Inl (OSError ''reset'')
                       else Inr \<lparr>as_status = 200, as_retry_after = '''', as_text = '''', as_json = Some (VList demo_pools)\<rparr>),
     ae_stop = None\<rparr>"

definition demo_start :: api_state where
  "demo_start = \<lparr>ap_bucket = \<lparr>tb_rate_per_second = 1 / 2, tb_capacity = 1, tb_tokens = 0, tb_last_refill = 0\<rparr>,
     ap_disk = \<lparr>files = [], log = []\<rparr>, ap_looks = 0\<rparr>"

lemma refresh_keeps_a_valid_data_set_witness:
  "map_of (files (ap_disk (snd (refresh_if_stale 3 demo_api (\<lambda>h rs. '''') (\<lambda>ps. ''[1]'') ''url'' (''config'', ''pools-v2.json'')
     0 0 604800 demo_start)))) (''config'', ''pools-v2.json'') = Some ''[1]''"
proof -
  let ?run = "refresh_if_stale 3 demo_api (\<lambda>h rs. '''') (\<lambda>ps. ''[1]'') ''url'' (''config'', ''pools-v2.json'') 0 0 604800 demo_start"
  have f: "fst ?run = Inr (Some True)" by code_simp
  have d: "files (ap_disk demo_start) = []" by (simp add: demo_start_def)
  show ?thesis
    using refresh_keeps_a_valid_data_set [of 3 demo_api "\<lambda>h rs. ''''" "\<lambda>ps. ''[1]''" "''url''" "(''config'', ''pools-v2.json'')"
        0 0 604800 demo_start "fst ?run" "snd ?run"] f d
    by (auto simp: prod_eq_iff refreshed_def)
qed




end
