(* ===== verification/Api_Poller.thy ===== *)
theory Api_Poller
  imports Api_Client Price_Backfill
begin

text \<open>
  btc_parser_app/api/poller.py and api/mempool_endpoints.py: one thread per endpoint over a shared client, a
  stop event and a rate limited event, and the main thread that waits for the stop. A run is a list of events
  that says whose turn it is; every access to something shared is a step of its own, so all interleavings are
  runs. A wait may end in any step; how long it lasted is in the clock.
\<close>

section \<open>Rows and start offsets\<close>

definition parse_prices :: "pyval \<Rightarrow> exn + (string \<times> pyval) list list" where
  "parse_prices data =
     bindE (get_default data ''time'' VNull) (\<lambda>t.
     bindE (get_default data ''USD'' VNull) (\<lambda>u.
     bindE (get_default data ''EUR'' VNull) (\<lambda>v.
       Inr [[(''date_unix'', t), (''usd'', u), (''eur'', v)]])))"

fun hashable :: "pyval \<Rightarrow> bool" where
  "hashable (VList xs) = False"
| "hashable (VMap m) = False"
| "hashable _ = True"

definition parser_registry :: "pyval \<Rightarrow> exn + (pyval \<Rightarrow> exn + (string \<times> pyval) list list) option" where
  "parser_registry name =
     (if \<not> hashable name then Inl TypeError
      else Inr (if name = VStr ''prices'' then Some parse_prices else None))"

text \<open>\<open>by_interval.setdefault(interval, []).append(endpoint)\<close>.\<close>

definition add_to_group :: "endpoint_config \<Rightarrow> (rat \<times> endpoint_config list) list \<Rightarrow> (rat \<times> endpoint_config list) list" where
  "add_to_group ep groups =
     (let i = ep_interval_seconds ep in
      AList.update i ((case map_of groups i of None \<Rightarrow> [] | Some g \<Rightarrow> g) @ [ep]) groups)"

definition group_offsets :: "rat \<times> endpoint_config list \<Rightarrow> (pyval \<times> rat) list" where
  "group_offsets g =
     (let stagger = fl (fst g / of_nat (length (snd g))) in
      map (\<lambda>(i, ep). (ep_name ep, fl (of_nat i * stagger))) (enumerate 0 (snd g)))"

definition compute_start_offsets :: "endpoint_config list \<Rightarrow> exn + (pyval \<times> rat) list" where
  "compute_start_offsets endpoints =
     (if \<not> list_all (\<lambda>ep. hashable (ep_name ep)) endpoints then Inl TypeError
      else Inr (fold (\<lambda>(k, v). AList.update k v)
                  (concat (map group_offsets (fold add_to_group endpoints []))) []))"

section \<open>Threads\<close>

text \<open>
  Where a thread is, with the time its next request is due and, inside \<open>_get_with_retry\<close>, the attempts left
  after this one: waiting for its start; at the head of its loop; entering \<open>fetch_and_write\<close>; at the bucket;
  waiting for a token; sending; awaiting the answer; waiting before a retry; refused by a 429, with the rate
  limited event to set and then the stop event; writing rows; after \<open>fetch_and_write\<close>; waiting for the next
  time; ended.
\<close>

datatype poll_pc =
    Starting
  | At_loop rat
  | Entering rat
  | Acquiring rat nat
  | Waiting_token rat nat
  | Sending rat nat
  | Awaiting rat nat
  | Backing_off rat nat
  | Refused rat
  | Stopping rat
  | Writing rat "(string \<times> pyval) list list"
  | Fetched rat
  | Sleeping rat
  | Finished

text \<open>The main thread: watching the stop event, joining the threads, or joining them after an interrupt.\<close>

datatype main_pc =
    Watching
  | Joining nat
  | Interrupted nat
  | Returned int

record poller =
  pl_bucket :: bucket
  pl_stop :: bool
  pl_limited :: bool
  pl_disk :: disk
  pl_looks :: nat
  pl_threads :: "poll_pc list"
  pl_main :: main_pc
  pl_sent :: "nat list"
  pl_answers :: "(exn + api_response) list"

text \<open>
  \<open>pl_sent\<close> records the threads of the requests sent and \<open>pl_answers\<close> what came back; the code keeps neither.
  \<open>pv_get n url\<close> is the answer at the n-th look at the environment. \<open>pv_show\<close> is \<open>str\<close> of a value that is no text.
\<close>

record poll_env =
  pv_clock :: "nat \<Rightarrow> rat"
  pv_get :: "nat \<Rightarrow> string \<Rightarrow> exn + api_response"
  pv_write :: csv_write
  pv_show :: "pyval \<Rightarrow> string"
  pv_out_dir :: string

definition endpoint_base :: "poll_env \<Rightarrow> endpoint_config \<Rightarrow> base" where
  "endpoint_base e ep = \<lparr>b_dir = pv_out_dir e, b_stem = val_str (pv_show e) (ep_name ep), b_suffix = ''.csv''\<rparr>"

definition endpoint_url :: "mempool_api_config \<Rightarrow> endpoint_config \<Rightarrow> exn + string" where
  "endpoint_url c ep = (case ep_path ep of VStr p \<Rightarrow> Inr (ma_base_url c @ p) | _ \<Rightarrow> Inl TypeError)"

definition row_cells :: "(string \<times> pyval) list \<Rightarrow> exn + row" where
  "row_cells r = mapE (\<lambda>(k, v). bindE (price_cell v) (\<lambda>x. Inr (k, x))) r"

text \<open>The number of attempts \<open>_get_with_retry\<close> may make.\<close>

definition poll_attempts :: "mempool_api_config \<Rightarrow> nat" where
  "poll_attempts c = nat (ma_max_connection_retries c + 1)"

definition look :: "poller \<Rightarrow> poller" where
  "look s = s\<lparr>pl_looks := pl_looks s + 1\<rparr>"

text \<open>\<open>fetch_and_write\<close> up to its call of \<open>get_json\<close>; a TypeError of a malformed endpoint ends the thread.\<close>

definition enter_fetch :: "mempool_api_config \<Rightarrow> endpoint_config \<Rightarrow> rat \<Rightarrow> poller \<Rightarrow> poll_pc" where
  "enter_fetch c ep due s =
     (if pl_stop s then Fetched due
      else case parser_registry (ep_parser ep) of
             Inl x \<Rightarrow> Finished
           | Inr None \<Rightarrow> Fetched due
           | Inr (Some parser) \<Rightarrow>
               (case endpoint_url c ep of
                  Inl x \<Rightarrow> Finished
                | Inr url \<Rightarrow> (case poll_attempts c of 0 \<Rightarrow> Fetched due | Suc left \<Rightarrow> Acquiring due left)))"

text \<open>What an answer leads to: a retry, a 429 to handle, a FetchError that is logged, rows, or an exception nobody catches.\<close>

definition after_get :: "endpoint_config \<Rightarrow> rat \<Rightarrow> nat \<Rightarrow> exn + api_response \<Rightarrow> poll_pc" where
  "after_get ep due left answer =
     (case answer of
        Inl x \<Rightarrow> (if \<not> is_os_error x then Finished else if left = 0 then Fetched due else Backing_off due (left - 1))
      | Inr r \<Rightarrow>
          (case bindE (checked_status r) decoded_json of
             Inl (RateLimited m) \<Rightarrow> Refused due
           | Inl (FetchError m) \<Rightarrow> Fetched due
           | Inl x \<Rightarrow> Finished
           | Inr data \<Rightarrow>
               (case parser_registry (ep_parser ep) of
                  Inr (Some parser) \<Rightarrow> (case parser data of Inl x \<Rightarrow> Fetched due | Inr rows \<Rightarrow> Writing due rows)
                | _ \<Rightarrow> Finished)))"

text \<open>The time of the next request: a thread that is late starts again from now.\<close>

definition next_time :: "endpoint_config \<Rightarrow> rat \<Rightarrow> rat \<Rightarrow> rat \<Rightarrow> rat" where
  "next_time ep due now later =
     (let next_due = fl (due + ep_interval_seconds ep) in if fl (next_due - now) < 0 then later else next_due)"

text \<open>One step of thread \<open>i\<close>: where it is afterwards, and what is shared.\<close>

fun thread_step :: "poll_env \<Rightarrow> mempool_api_config \<Rightarrow> endpoint_config \<Rightarrow> nat \<Rightarrow> poll_pc \<Rightarrow> poller \<Rightarrow> poll_pc \<times> poller" where
  "thread_step e c ep i Starting s = (if pl_stop s then (Finished, s) else (At_loop (pv_clock e (pl_looks s)), look s))"
| "thread_step e c ep i (At_loop due) s = (if pl_stop s then Finished else Entering due, s)"
| "thread_step e c ep i (Entering due) s = (enter_fetch c ep due s, s)"
| "thread_step e c ep i (Acquiring due left) s =
     (case try_take (pv_clock e (pl_looks s)) (pl_bucket s) of (got, b) \<Rightarrow>
        (if got then Sending due left else Waiting_token due left, look (s\<lparr>pl_bucket := b\<rparr>)))"
| "thread_step e c ep i (Waiting_token due left) s = (if pl_stop s then Fetched due else Acquiring due left, s)"
| "thread_step e c ep i (Sending due left) s = (Awaiting due left, s\<lparr>pl_sent := pl_sent s @ [i]\<rparr>)"
| "thread_step e c ep i (Awaiting due left) s =
     (case endpoint_url c ep of
        Inl x \<Rightarrow> (Finished, s)
      | Inr url \<Rightarrow>
          (let answer = pv_get e (pl_looks s) url in
           (after_get ep due left answer, look (s\<lparr>pl_answers := pl_answers s @ [answer]\<rparr>))))"
| "thread_step e c ep i (Backing_off due left) s = (if pl_stop s then Fetched due else Acquiring due left, s)"
| "thread_step e c ep i (Refused due) s = (Stopping due, s\<lparr>pl_limited := True\<rparr>)"
| "thread_step e c ep i (Stopping due) s = (Fetched due, s\<lparr>pl_stop := True\<rparr>)"
| "thread_step e c ep i (Writing due rows) s =
     (case mapE row_cells rows of
        Inl x \<Rightarrow> (Finished, s)
      | Inr cells \<Rightarrow>
          (Fetched due,
           s\<lparr>pl_disk := write_rows_to_csv (pv_write e) cells (endpoint_base e ep) MAX_PART_BYTES (pl_disk s)\<rparr>))"
| "thread_step e c ep i (Fetched due) s =
     (if pl_stop s then (Finished, s)
      else (Sleeping (next_time ep due (pv_clock e (pl_looks s)) (pv_clock e (pl_looks s + 1))), look (look s)))"
| "thread_step e c ep i (Sleeping due) s = (if pl_stop s then Finished else At_loop due, s)"
| "thread_step e c ep i Finished s = (Finished, s)"

section \<open>The process\<close>

text \<open>
  A turn of a thread or of the main thread, an interrupt while the main thread watches, or the owner of the
  stop event setting it. When the main thread has returned, the daemon threads are gone.
\<close>

datatype poll_event =
    Turn nat
  | Main_turn
  | Interrupt
  | Caller_stop

definition main_step :: "poller \<Rightarrow> poller" where
  "main_step s =
     (case pl_main s of
        Watching \<Rightarrow> (if pl_stop s then s\<lparr>pl_main := Joining 0\<rparr> else s)
      | Joining k \<Rightarrow>
          (if k < length (pl_threads s) then s\<lparr>pl_main := Joining (k + 1)\<rparr>
           else s\<lparr>pl_main := Returned (if pl_limited s then EXIT_RATE_LIMITED else 0)\<rparr>)
      | Interrupted k \<Rightarrow>
          (if k < length (pl_threads s) then s\<lparr>pl_main := Interrupted (k + 1)\<rparr> else s\<lparr>pl_main := Returned 0\<rparr>)
      | Returned code \<Rightarrow> s)"

definition has_returned :: "poller \<Rightarrow> bool" where
  "has_returned s = (case pl_main s of Returned code \<Rightarrow> True | _ \<Rightarrow> False)"

definition poll_step :: "poll_env \<Rightarrow> mempool_api_config \<Rightarrow> poll_event \<Rightarrow> poller \<Rightarrow> poller" where
  "poll_step e c ev s =
     (if has_returned s then s
      else case ev of
             Turn i \<Rightarrow>
               (if i < length (pl_threads s) \<and> i < length (ma_endpoints c) then
                  (case thread_step e c (ma_endpoints c ! i) i (pl_threads s ! i) s of
                     (pc, s') \<Rightarrow> s'\<lparr>pl_threads := (pl_threads s')[i := pc]\<rparr>)
                else s)
           | Main_turn \<Rightarrow> main_step s
           | Interrupt \<Rightarrow> (if pl_main s = Watching then s\<lparr>pl_stop := True, pl_main := Interrupted 0\<rparr> else s)
           | Caller_stop \<Rightarrow> s\<lparr>pl_stop := True\<rparr>)"

definition run_events :: "poll_env \<Rightarrow> mempool_api_config \<Rightarrow> poll_event list \<Rightarrow> poller \<Rightarrow> poller" where
  "run_events e c evs s = fold (poll_step e c) evs s"

text \<open>\<open>run_poller\<close> up to the started threads.\<close>

definition start_poller :: "mempool_api_config \<Rightarrow> disk \<Rightarrow> rat \<Rightarrow> exn + poller" where
  "start_poller c d now =
     bindE (compute_start_offsets (ma_endpoints c)) (\<lambda>offsets.
     bindE (new_bucket (ma_requests_per_minute c) (ma_bucket_size c) now) (\<lambda>b.
       Inr \<lparr>pl_bucket = b, pl_stop = False, pl_limited = False, pl_disk = d, pl_looks = 0,
            pl_threads = map (\<lambda>ep. Starting) (ma_endpoints c), pl_main = Watching, pl_sent = [], pl_answers = []\<rparr>))"

section \<open>Runs of events\<close>

locale event_system =
  fixes step :: "'e \<Rightarrow> 's \<Rightarrow> 's" and inv :: "'s \<Rightarrow> bool"
  assumes step_inv: "inv s \<Longrightarrow> inv (step ev s)"
begin

lemma run_inv: "inv s \<Longrightarrow> inv (fold step evs s)"
  by (induction evs arbitrary: s) (simp_all add: step_inv)

end

text \<open>What one turn changes, in terms of the step of the thread.\<close>

lemma thread_step_rest:
  assumes "thread_step e c ep i pc s = (pc', s')"
  shows "pl_threads s' = pl_threads s \<and> pl_main s' = pl_main s"
  using assms by (cases pc) (auto simp: look_def Let_def split: prod.splits sum.splits if_splits)

lemma poll_step_turn:
  assumes "\<not> has_returned s" "i < length (pl_threads s)" "i < length (ma_endpoints c)"
    and "thread_step e c (ma_endpoints c ! i) i (pl_threads s ! i) s = (pc, s')"
  shows "poll_step e c (Turn i) s = s'\<lparr>pl_threads := (pl_threads s)[i := pc]\<rparr>"
  using assms thread_step_rest [OF assms(4)] by (simp add: poll_step_def)

text \<open>Every other event leaves the threads and what they share alone but for the stop.\<close>

lemma poll_step_other:
  assumes "\<And>i. ev = Turn i \<Longrightarrow> has_returned s \<or> \<not> (i < length (pl_threads s) \<and> i < length (ma_endpoints c))"
  shows "poll_step e c ev s =
    s\<lparr>pl_stop := pl_stop s \<or> \<not> has_returned s \<and> (ev = Caller_stop \<or> ev = Interrupt \<and> pl_main s = Watching),
      pl_main := pl_main (poll_step e c ev s)\<rparr>"
proof -
  obtain b st l d k ts m sent ans where s: "s = \<lparr>pl_bucket = b, pl_stop = st, pl_limited = l, pl_disk = d, pl_looks = k,
      pl_threads = ts, pl_main = m, pl_sent = sent, pl_answers = ans\<rparr>" by (cases s)
  show ?thesis
  proof (cases ev)
    case (Turn i)
    with assms [of i] show ?thesis by (auto simp: s poll_step_def)
  qed (cases m; simp add: s poll_step_def main_step_def has_returned_def)+
qed

lemma poll_step_cases [case_names turn other]:
  obtains (turn) i pc s' where "ev = Turn i" "\<not> has_returned s" "i < length (pl_threads s)" "i < length (ma_endpoints c)"
      "thread_step e c (ma_endpoints c ! i) i (pl_threads s ! i) s = (pc, s')"
      "poll_step e c ev s = s'\<lparr>pl_threads := (pl_threads s)[i := pc]\<rparr>"
  | (other) "\<And>i. ev = Turn i \<Longrightarrow> has_returned s \<or> \<not> (i < length (pl_threads s) \<and> i < length (ma_endpoints c))"
      "poll_step e c ev s =
        s\<lparr>pl_stop := pl_stop s \<or> \<not> has_returned s \<and> (ev = Caller_stop \<or> ev = Interrupt \<and> pl_main s = Watching),
          pl_main := pl_main (poll_step e c ev s)\<rparr>"
proof (cases "\<exists>i. ev = Turn i \<and> \<not> has_returned s \<and> i < length (pl_threads s) \<and> i < length (ma_endpoints c)")
  case True
  then obtain i where i: "ev = Turn i" "\<not> has_returned s" "i < length (pl_threads s)" "i < length (ma_endpoints c)" by blast
  obtain pc s' where t: "thread_step e c (ma_endpoints c ! i) i (pl_threads s ! i) s = (pc, s')" by force
  from turn [OF i t] poll_step_turn [OF i(2-4) t] i(1) show ?thesis by simp
next
  case False
  then have "\<And>i. ev = Turn i \<Longrightarrow> has_returned s \<or> \<not> (i < length (pl_threads s) \<and> i < length (ma_endpoints c))" by blast
  from other [OF this poll_step_other [OF this]] show ?thesis by blast
qed

section \<open>The shared budget\<close>

fun about_to_send :: "poll_pc \<Rightarrow> nat" where
  "about_to_send (Sending due left) = 1"
| "about_to_send pc = 0"

text \<open>The bucket is as made, its last refill was at a reading of the clock, and sent requests and tokens are within the budget.\<close>

definition budget_inv :: "poll_env \<Rightarrow> bucket \<Rightarrow> poller \<Rightarrow> bool" where
  "budget_inv e b0 s \<longleftrightarrow>
     bucket_ok (pl_bucket s) \<and> tb_capacity (pl_bucket s) = tb_capacity b0 \<and>
     tb_rate_per_second (pl_bucket s) = tb_rate_per_second b0 \<and>
     tb_last_refill (pl_bucket s) \<in> insert (tb_last_refill b0) (pv_clock e ` {..<pl_looks s}) \<and>
     of_nat (length (pl_sent s) + sum_list (map about_to_send (pl_threads s))) + tb_tokens (pl_bucket s) \<le>
       tb_capacity b0 + (tb_last_refill (pl_bucket s) - tb_last_refill b0) * tb_rate_per_second b0 * (1 + eps) ^ 3 +
       2 * tb_capacity b0 * eps * of_nat (pl_looks s)"

lemma about_to_send_enter [simp]: "about_to_send (enter_fetch c ep due s) = 0"
  by (simp add: enter_fetch_def split: sum.split option.split nat.split)

lemma about_to_send_after [simp]: "about_to_send (after_get ep due left answer) = 0"
  by (simp add: after_get_def split: sum.split option.split exn.split)

lemma refill_reads: "tb_last_refill (snd (try_take now b)) \<in> {tb_last_refill b, now}"
  by (simp add: try_take_def refill_def Let_def)

lemma thread_step_budget:
  assumes "thread_step e c ep i pc s = (pc', s')" and "\<And>due left. pc \<noteq> Acquiring due left"
  shows "pl_bucket s' = pl_bucket s \<and> pl_looks s \<le> pl_looks s' \<and>
         length (pl_sent s') + about_to_send pc' = length (pl_sent s) + about_to_send pc"
  using assms by (cases pc) (auto simp: look_def Let_def split: prod.splits sum.splits if_splits)

lemma sum_list_map_update:
  fixes f :: "'a \<Rightarrow> nat"
  shows "i < length xs \<Longrightarrow> sum_list (map f (xs[i := x])) + f (xs ! i) = sum_list (map f xs) + f x"
proof (induction xs arbitrary: i)
  case (Cons y ys)
  then show ?case by (cases i) auto
qed simp

lemma budget_turn:
  assumes inv: "budget_inv e b0 s" and i: "i < length (pl_threads s)"
    and step: "thread_step e c ep i (pl_threads s ! i) s = (pc, s')"
  shows "budget_inv e b0 (s'\<lparr>pl_threads := (pl_threads s)[i := pc]\<rparr>)"
proof (cases "\<exists>due left. pl_threads s ! i = Acquiring due left")
  case False
  then have t: "pl_bucket s' = pl_bucket s" "pl_looks s \<le> pl_looks s'"
      "length (pl_sent s') + about_to_send pc = length (pl_sent s) + about_to_send (pl_threads s ! i)"
    using thread_step_budget [OF step] by blast+
  have "length (pl_sent s') + sum_list (map about_to_send ((pl_threads s)[i := pc])) =
        length (pl_sent s) + sum_list (map about_to_send (pl_threads s))"
    using sum_list_map_update [OF i, of about_to_send pc] t(3) by linarith
  moreover have "tb_capacity b0 * eps * of_nat (pl_looks s) \<le> tb_capacity b0 * eps * of_nat (pl_looks s')"
    using inv t(2) eps_pos by (intro mult_left_mono) (auto simp: budget_inv_def bucket_ok_def)
  moreover have "pv_clock e ` {..<pl_looks s} \<subseteq> pv_clock e ` {..<pl_looks s'}" using t(2) by (intro image_mono) auto
  ultimately show ?thesis using inv t(1) by (auto simp: budget_inv_def)
next
  case True
  then obtain due left where pc0: "pl_threads s ! i = Acquiring due left" by blast
  let ?now = "pv_clock e (pl_looks s)" and ?b = "pl_bucket s"
  obtain got b' where tt: "try_take ?now ?b = (got, b')" by force
  from step pc0 tt have s': "s' = look (s\<lparr>pl_bucket := b'\<rparr>)" "pc = (if got then Sending due left else Waiting_token due left)"
    by simp_all
  have ok: "bucket_ok ?b" using inv by (simp add: budget_inv_def)
  note adds = try_take_adds [OF ok tt]
  have "tb_last_refill b' \<in> {tb_last_refill ?b, ?now}" using refill_reads [of ?now ?b] tt by simp
  then have reads: "tb_last_refill b' \<in> insert (tb_last_refill b0) (pv_clock e ` {..<Suc (pl_looks s)})"
    using inv by (auto simp: budget_inv_def lessThan_Suc)
  have "sum_list (map about_to_send ((pl_threads s)[i := pc])) = sum_list (map about_to_send (pl_threads s)) + (if got then 1 else 0)"
    using sum_list_map_update [OF i, of about_to_send pc] pc0 s'(2) by simp
  with inv adds reads s'(1) show ?thesis
    by (auto simp: budget_inv_def look_def algebra_simps)
qed

lemma budget_step: "budget_inv e b0 s \<Longrightarrow> budget_inv e b0 (poll_step e c ev s)"
proof (cases rule: poll_step_cases [of ev s c e])
  case (turn i pc s')
  assume "budget_inv e b0 s"
  with turn show ?thesis using budget_turn by simp
next
  case other
  assume inv: "budget_inv e b0 s"
  show ?thesis by (subst other(2)) (use inv in \<open>simp add: budget_inv_def\<close>)
qed

interpretation budget: event_system "poll_step e c" "budget_inv e b0" for e c b0
  by unfold_locales (rule budget_step)

lemma start_poller_parts:
  assumes "start_poller c d t0 = Inr s"
  obtains b where "new_bucket (ma_requests_per_minute c) (ma_bucket_size c) t0 = Inr b" "pl_bucket s = b" "pl_stop s = False"
    "pl_limited s = False" "pl_looks s = 0" "pl_threads s = map (\<lambda>ep. Starting) (ma_endpoints c)" "pl_main s = Watching"
    "pl_sent s = []" "pl_answers s = []" "pl_disk s = d"
  using assms by (auto simp: start_poller_def bindE_def split: sum.splits)

lemma start_budget:
  assumes "start_poller c d t0 = Inr s" and "ma_bucket_size c < 2 ^ 53"
  shows "budget_inv e (pl_bucket s) s"
proof -
  obtain b where b: "new_bucket (ma_requests_per_minute c) (ma_bucket_size c) t0 = Inr b" "pl_bucket s = b" "pl_looks s = 0"
      "pl_threads s = map (\<lambda>ep. Starting) (ma_endpoints c)" "pl_sent s = []" by (rule start_poller_parts [OF assms(1)])
  have "sum_list (map about_to_send (pl_threads s)) = 0" by (simp add: b(4) o_def)
  with b new_bucket_ok [OF b(1) assms(2)] show ?thesis by (simp add: budget_inv_def bucket_ok_def o_def)
qed

text \<open>
  C15. All endpoints share one budget: however the threads interleave, the requests sent up to a time T are at
  most the bucket size and the configured rate times the time passed, up to the rounding of the doubles.
\<close>

theorem requests_within_the_shared_budget:
  assumes start: "start_poller c d t0 = Inr s0" and size: "ma_bucket_size c < 2 ^ 53"
    and run: "s = run_events e c evs s0"
    and clock: "t0 \<le> T" "\<forall>k < pl_looks s. pv_clock e k \<le> T"
  shows "of_nat (length (pl_sent s)) \<le>
    of_int (ma_bucket_size c) + (T - t0) * fl (ma_requests_per_minute c / 60) * (1 + eps) ^ 3 +
    2 * of_int (ma_bucket_size c) * eps * of_nat (pl_looks s)"
proof -
  obtain b where b: "new_bucket (ma_requests_per_minute c) (ma_bucket_size c) t0 = Inr b" "pl_bucket s0 = b"
    by (rule start_poller_parts [OF start])
  from b(1) have parts: "tb_rate_per_second b = fl (ma_requests_per_minute c / 60)" "tb_capacity b = of_int (ma_bucket_size c)"
      "tb_last_refill b = t0" using size by (auto simp: new_bucket_def fl_of_int split: if_splits)
  have inv: "budget_inv e b s" unfolding run run_events_def
    using start_budget [OF start size, of e] b(2) by (intro budget.run_inv) simp
  then have "tb_last_refill (pl_bucket s) \<le> T" using clock parts by (auto simp: budget_inv_def)
  then have "(tb_last_refill (pl_bucket s) - t0) * (fl (ma_requests_per_minute c / 60) * (1 + eps) ^ 3) \<le>
      (T - t0) * (fl (ma_requests_per_minute c / 60) * (1 + eps) ^ 3)"
    using inv parts eps_pos by (intro mult_right_mono) (auto simp: budget_inv_def bucket_ok_def)
  moreover have "0 \<le> tb_tokens (pl_bucket s)" using inv by (simp add: budget_inv_def bucket_ok_def)
  ultimately show ?thesis using inv parts by (simp add: budget_inv_def mult.assoc)
qed

section \<open>Stopping\<close>

text \<open>The turns a thread has left once the stop event is set, and whether it may still send a request.\<close>

fun turns_left :: "poll_pc \<Rightarrow> nat" where
  "turns_left Starting = 1"
| "turns_left (At_loop due) = 1"
| "turns_left (Entering due) = 2"
| "turns_left (Acquiring due left) = 6"
| "turns_left (Waiting_token due left) = 2"
| "turns_left (Sending due left) = 5"
| "turns_left (Awaiting due left) = 4"
| "turns_left (Backing_off due left) = 2"
| "turns_left (Refused due) = 3"
| "turns_left (Stopping due) = 2"
| "turns_left (Writing due rows) = 2"
| "turns_left (Fetched due) = 1"
| "turns_left (Sleeping due) = 1"
| "turns_left Finished = 0"

fun may_send :: "poll_pc \<Rightarrow> nat" where
  "may_send (Acquiring due left) = 1"
| "may_send (Sending due left) = 1"
| "may_send pc = 0"

lemma after_get_left [simp]: "turns_left (after_get ep due left answer) \<le> 3" "may_send (after_get ep due left answer) = 0"
  by (simp_all add: after_get_def split: sum.split option.split exn.split)

lemma thread_step_stopped:
  assumes "pl_stop s" and "thread_step e c ep i pc s = (pc', s')"
  shows "pl_stop s' \<and> turns_left pc' \<le> turns_left pc - 1 \<and>
         (\<exists>k. pl_sent s' = pl_sent s @ replicate k i \<and> k + may_send pc' \<le> may_send pc)"
proof (cases pc)
  case (Awaiting due left)
  have "turns_left (after_get ep due left a) \<le> 3" for a by simp
  with Awaiting assms show ?thesis by (auto simp: look_def Let_def intro: exI [of _ 0] split: sum.splits)
next
  case (Sending due left)
  with assms show ?thesis by (auto intro: exI [of _ 1])
qed (use assms in \<open>auto simp: look_def enter_fetch_def intro: exI [of _ 0] split: prod.splits sum.splits if_splits\<close>)

fun main_left :: "nat \<Rightarrow> main_pc \<Rightarrow> nat" where
  "main_left n Watching = n + 2"
| "main_left n (Joining k) = n - k + 1"
| "main_left n (Interrupted k) = n - k + 1"
| "main_left n (Returned code) = 0"

lemma main_left_0: "main_left n (pl_main s) = 0 \<longleftrightarrow> has_returned s"
  by (cases "pl_main s") (simp_all add: has_returned_def)

definition turn_of :: "poll_event \<Rightarrow> poll_event \<Rightarrow> nat" where
  "turn_of ev ev' = (if ev' = ev then 1 else 0)"

text \<open>What one event can still change for thread \<open>i\<close> and for the main thread once the stop event is set.\<close>

definition winding_down :: "nat \<Rightarrow> nat \<Rightarrow> nat \<Rightarrow> poller \<Rightarrow> poller \<Rightarrow> bool" where
  "winding_down i turns main_turns s s' \<longleftrightarrow>
     pl_stop s' \<and> length (pl_threads s') = length (pl_threads s) \<and>
     count_list (pl_sent s') i + may_send (pl_threads s' ! i) \<le> count_list (pl_sent s) i + may_send (pl_threads s ! i) \<and>
     (has_returned s' \<or> turns_left (pl_threads s' ! i) \<le> turns_left (pl_threads s ! i) - turns) \<and>
     main_left (length (pl_threads s)) (pl_main s') \<le> main_left (length (pl_threads s)) (pl_main s) - main_turns"

lemma count_list_replicate: "count_list (replicate k x) y = (if x = y then k else 0)"
  by (induction k) auto

lemma winding_down_step:
  assumes stop: "pl_stop s" and i: "i < length (pl_threads s)" "i < length (ma_endpoints c)"
  shows "winding_down i (turn_of (Turn i) ev) (turn_of Main_turn ev) s (poll_step e c ev s)"
proof (cases rule: poll_step_cases [of ev s c e])
  case (turn j pc s')
  from thread_step_stopped [OF stop turn(5)] obtain k where k: "pl_stop s'" "turns_left pc \<le> turns_left (pl_threads s ! j) - 1"
      "pl_sent s' = pl_sent s @ replicate k j" "k + may_send pc \<le> may_send (pl_threads s ! j)" by blast
  moreover have "pl_main s' = pl_main s" using thread_step_rest [OF turn(5)] by simp
  ultimately show ?thesis using turn i
    by (cases "j = i") (simp_all add: winding_down_def turn_of_def count_list_append count_list_replicate)
next
  case other
  have m: "main_left n (pl_main (poll_step e c ev s)) \<le> main_left n (pl_main s) - turn_of Main_turn ev"
    if n: "n = length (pl_threads s)" for n
    using other(1) stop n
    by (cases ev; cases "pl_main s") (auto simp: poll_step_def main_step_def has_returned_def turn_of_def)
  have r: "has_returned (poll_step e c ev s) \<or> turn_of (Turn i) ev = 0"
    using other(1) [of i] i by (auto simp: turn_of_def poll_step_def)
  have "pl_stop (poll_step e c ev s)" "pl_threads (poll_step e c ev s) = pl_threads s" "pl_sent (poll_step e c ev s) = pl_sent s"
    by (subst other(2); simp add: stop)+
  with m r show ?thesis by (auto simp: winding_down_def)
qed

lemma has_returned_stays: "has_returned s \<Longrightarrow> poll_step e c ev s = s"
  by (simp add: poll_step_def)

lemma winding_down_run:
  assumes "pl_stop s" and "i < length (pl_threads s)" and ep: "i < length (ma_endpoints c)"
  shows "winding_down i (sum_list (map (turn_of (Turn i)) evs)) (sum_list (map (turn_of Main_turn) evs)) s (run_events e c evs s)"
  using assms(1,2)
proof (induction evs arbitrary: s)
  case Nil
  then show ?case by (simp add: winding_down_def run_events_def)
next
  case (Cons ev evs)
  let ?s1 = "poll_step e c ev s"
  have 1: "winding_down i (turn_of (Turn i) ev) (turn_of Main_turn ev) s ?s1" by (rule winding_down_step [OF Cons.prems ep])
  then have 2: "winding_down i (sum_list (map (turn_of (Turn i)) evs)) (sum_list (map (turn_of Main_turn) evs)) ?s1 (run_events e c evs ?s1)"
    using Cons.prems by (intro Cons.IH) (auto simp: winding_down_def)
  have "has_returned ?s1 \<Longrightarrow> has_returned (run_events e c evs ?s1)"
    unfolding run_events_def by (induction evs) (simp_all add: has_returned_stays)
  with 1 2 show ?case by (auto simp: winding_down_def run_events_def)
qed

lemma turns_left_le: "turns_left pc \<le> 6"
  by (cases pc) simp_all

lemma may_send_le: "may_send pc \<le> 1"
  by (cases pc) simp_all

lemma main_left_le: "main_left n m \<le> n + 2"
  by (cases m) simp_all

text \<open>
  C14. A stop ends the poller: from then on each endpoint sends at most one more request, only a thread that is
  at the bucket or past it can; after six turns a thread has ended, and after two turns and one per thread the
  main thread has returned, whatever the server answers and however the turns interleave.
\<close>

theorem stop_ends_the_poller:
  assumes stop: "pl_stop s" and i: "i < length (pl_threads s)" "i < length (ma_endpoints c)"
    and run: "s' = run_events e c evs s"
  shows "count_list (pl_sent s') i \<le> count_list (pl_sent s) i + may_send (pl_threads s ! i) \<and>
         may_send (pl_threads s ! i) \<le> 1 \<and>
         (6 \<le> count_list evs (Turn i) \<longrightarrow> has_returned s' \<or> pl_threads s' ! i = Finished) \<and>
         (length (pl_threads s) + 2 \<le> count_list evs Main_turn \<longrightarrow> has_returned s')"
proof -
  have count: "sum_list (map (turn_of ev) evs) = count_list evs ev" for ev
    by (induction evs) (auto simp: turn_of_def)
  have fin: "turns_left pc = 0 \<Longrightarrow> pc = Finished" for pc by (cases pc) simp_all
  have w: "winding_down i (count_list evs (Turn i)) (count_list evs Main_turn) s s'"
    using winding_down_run [OF stop i, of evs e] by (simp only: count run)
  then have "6 \<le> count_list evs (Turn i) \<Longrightarrow> has_returned s' \<or> pl_threads s' ! i = Finished"
    using turns_left_le [of "pl_threads s ! i"] by (auto simp: winding_down_def intro: fin)
  moreover have "length (pl_threads s) + 2 \<le> count_list evs Main_turn \<Longrightarrow> has_returned s'"
    using w main_left_le [of "length (pl_threads s)" "pl_main s"] main_left_0 [of "length (pl_threads s)" s'] by (auto simp: winding_down_def)
  ultimately show ?thesis using w may_send_le by (auto simp: winding_down_def)
qed

section \<open>The exit code\<close>

definition refused :: "poller \<Rightarrow> bool" where
  "refused s \<longleftrightarrow> (\<exists>r. Inr r \<in> set (pl_answers s) \<and> as_status r = 429)"

fun facing_429 :: "poll_pc \<Rightarrow> bool" where
  "facing_429 (Refused due) = True"
| "facing_429 (Stopping due) = True"
| "facing_429 pc = False"

fun stopping :: "poll_pc \<Rightarrow> bool" where
  "stopping (Stopping due) = True"
| "stopping pc = False"

definition exit_inv :: "poller \<Rightarrow> bool" where
  "exit_inv s \<longleftrightarrow>
     (pl_limited s \<longrightarrow> refused s) \<and>
     (\<forall>pc \<in> set (pl_threads s). (facing_429 pc \<longrightarrow> refused s) \<and> (stopping pc \<longrightarrow> pl_limited s)) \<and>
     (\<forall>code. pl_main s = Returned code \<longrightarrow> code = 0 \<or> code = EXIT_RATE_LIMITED \<and> pl_limited s)"

text \<open>As long as nobody outside stops the poller, only a 429 does.\<close>

definition left_alone :: "poller \<Rightarrow> bool" where
  "left_alone s \<longleftrightarrow>
     (pl_stop s \<longrightarrow> pl_limited s) \<and> (\<forall>pc \<in> set (pl_threads s). stopping pc \<longrightarrow> pl_limited s) \<and>
     (case pl_main s of
        Watching \<Rightarrow> True | Joining k \<Rightarrow> pl_stop s | Interrupted k \<Rightarrow> False
      | Returned code \<Rightarrow> code = EXIT_RATE_LIMITED)"

lemma after_get_429:
  "facing_429 (after_get ep due left answer) \<Longrightarrow> \<exists>r. answer = Inr r \<and> as_status r = 429"
  "\<not> stopping (after_get ep due left answer)"
  by (auto simp: after_get_def checked_status_def decoded_json_def bindE_def
      split: sum.splits option.splits exn.splits if_splits)

lemma enter_fetch_429 [simp]: "\<not> facing_429 (enter_fetch c ep due s)" "\<not> stopping (enter_fetch c ep due s)"
  by (simp_all add: enter_fetch_def split: sum.split option.split nat.split)

lemma thread_step_429:
  assumes "thread_step e c ep i pc s = (pc', s')"
  shows "set (pl_answers s) \<subseteq> set (pl_answers s') \<and>
         (facing_429 pc' \<longrightarrow> facing_429 pc \<or> refused s') \<and> (stopping pc' \<longrightarrow> pl_limited s') \<and>
         (pl_limited s' \<longrightarrow> pl_limited s \<or> facing_429 pc) \<and> (pl_limited s \<longrightarrow> pl_limited s') \<and>
         (pl_stop s' \<longrightarrow> pl_stop s \<or> stopping pc) \<and> (pl_stop s \<longrightarrow> pl_stop s')"
proof (cases pc)
  case (Awaiting due left)
  with assms show ?thesis
    by (auto simp: look_def Let_def refused_def after_get_429(2) split: sum.splits dest!: after_get_429(1))
qed (use assms in \<open>auto simp: look_def split: prod.splits sum.splits if_splits\<close>)

lemma exit_step: "exit_inv s \<Longrightarrow> exit_inv (poll_step e c ev s)"
proof (cases rule: poll_step_cases [of ev s c e])
  case (turn i pc s')
  assume inv: "exit_inv s"
  note t = thread_step_429 [OF turn(5)] and rest = thread_step_rest [OF turn(5)]
  have pc0: "pl_threads s ! i \<in> set (pl_threads s)" using turn(3) by simp
  have ref: "refused s \<Longrightarrow> refused s'" using t by (auto simp: refused_def)
  have "(pl_limited s' \<longrightarrow> refused s') \<and> (facing_429 pc \<longrightarrow> refused s') \<and> (stopping pc \<longrightarrow> pl_limited s')"
    using inv t pc0 ref by (auto simp: exit_inv_def)
  moreover have "\<forall>q \<in> set ((pl_threads s)[i := pc]). q = pc \<or> q \<in> set (pl_threads s)"
    using set_update_subset_insert [of "pl_threads s" i pc] by blast
  ultimately show ?thesis unfolding turn(6) using inv t ref rest
    by (simp add: exit_inv_def refused_def) metis
next
  case other
  assume inv: "exit_inv s"
  have "pl_main (poll_step e c ev s) = Returned code \<Longrightarrow> pl_main s = Returned code \<or> code = 0 \<or> code = EXIT_RATE_LIMITED \<and> pl_limited s" for code
    using other(1) by (cases ev; cases "pl_main s") (auto simp: poll_step_def main_step_def has_returned_def split: if_splits)
  with inv show ?thesis by (subst other(2)) (auto simp: exit_inv_def refused_def)
qed

interpretation exits: event_system "poll_step e c" exit_inv for e c
  by unfold_locales (rule exit_step)

lemma left_alone_step:
  assumes alone: "left_alone s" and ev: "Caller_stop \<noteq> ev" "Interrupt \<noteq> ev"
  shows "left_alone (poll_step e c ev s)"
proof (cases rule: poll_step_cases [of ev s c e])
  case (turn i pc s')
  note t = thread_step_429 [OF turn(5)] and rest = thread_step_rest [OF turn(5)]
  have pc0: "pl_threads s ! i \<in> set (pl_threads s)" using turn(3) by simp
  have "\<forall>q \<in> set ((pl_threads s)[i := pc]). q = pc \<or> q \<in> set (pl_threads s)"
    using set_update_subset_insert [of "pl_threads s" i pc] by blast
  moreover have "(pl_stop s' \<longrightarrow> pl_limited s')" using alone t pc0 by (auto simp: left_alone_def)
  ultimately show ?thesis unfolding turn(6) using alone t rest
    by (auto simp: left_alone_def split: main_pc.splits)
next
  case other
  define m where "m = pl_main (poll_step e c ev s)"
  have "(pl_stop s \<or> \<not> has_returned s \<and> (ev = Caller_stop \<or> ev = Interrupt \<and> pl_main s = Watching)) = pl_stop s"
    using ev by auto
  note eq = other(2) [unfolded this, folded m_def]
  have "m = pl_main s \<or> pl_main s = Watching \<and> pl_stop s \<and> m = Joining 0 \<or>
      (\<exists>k. pl_main s = Joining k \<and> (m = Joining (k + 1) \<or> m = Returned (if pl_limited s then EXIT_RATE_LIMITED else 0)))"
    using other(1) ev alone unfolding m_def
    by (cases ev; cases "pl_main s") (auto simp: poll_step_def main_step_def has_returned_def left_alone_def split: if_splits)
  with alone show ?thesis unfolding eq by (auto simp: left_alone_def split: main_pc.splits)
qed

lemma left_alone_run:
  "left_alone s \<Longrightarrow> Caller_stop \<notin> set evs \<Longrightarrow> Interrupt \<notin> set evs \<Longrightarrow> left_alone (run_events e c evs s)"
  unfolding run_events_def by (induction evs arbitrary: s) (simp_all add: left_alone_step)

text \<open>
  C16. The exit code tells why the poller ended: it is 75 only after the server answered some request with a 429,
  and 0 only when an interrupt or the owner of the stop event asked for the end.
\<close>

theorem exit_code_tells_why:
  assumes start: "start_poller c d t0 = Inr s0" and run: "s = run_events e c evs s0"
    and ended: "pl_main s = Returned code"
  shows "code = EXIT_RATE_LIMITED \<and> refused s \<or> code = 0 \<and> (Caller_stop \<in> set evs \<or> Interrupt \<in> set evs)"
proof -
  obtain b where b: "pl_stop s0 = False" "pl_limited s0 = False" "pl_main s0 = Watching"
      "pl_threads s0 = map (\<lambda>ep. Starting) (ma_endpoints c)" by (rule start_poller_parts [OF start])
  then have "exit_inv s0" by (auto simp: exit_inv_def)
  then have "exit_inv s" unfolding run run_events_def by (rule exits.run_inv)
  with ended have code: "code = 0 \<or> code = EXIT_RATE_LIMITED \<and> refused s" by (auto simp: exit_inv_def)
  have "left_alone s0" using b by (auto simp: left_alone_def)
  then have "code = EXIT_RATE_LIMITED" if "Caller_stop \<notin> set evs" "Interrupt \<notin> set evs"
    using left_alone_run [OF _ that, of s0 e c] ended run by (simp add: left_alone_def)
  with code show ?thesis by (auto simp: EXIT_RATE_LIMITED_def)
qed

section \<open>Start offsets\<close>

definition group_of :: "endpoint_config list \<Rightarrow> rat \<Rightarrow> endpoint_config list" where
  "group_of endpoints interval = filter (\<lambda>ep. ep_interval_seconds ep = interval) endpoints"

lemma groups:
  "distinct (map fst (fold add_to_group endpoints [])) \<and>
   map_of (fold add_to_group endpoints []) i = (if group_of endpoints i = [] then None else Some (group_of endpoints i))"
proof (induction endpoints arbitrary: i rule: rev_induct)
  case Nil
  show ?case by (simp add: group_of_def)
next
  case (snoc ep endpoints)
  then have "distinct (map fst (fold add_to_group endpoints []))" by blast
  with snoc [of i] snoc [of "ep_interval_seconds ep"] show ?case
    by (auto simp: add_to_group_def Let_def update_conv' group_of_def distinct_update)
qed

lemma map_of_fold_update:
  "map_of (fold (\<lambda>(k, v). AList.update k v) L al) = map_of al ++ map_of (rev L)"
proof (induction L arbitrary: al)
  case (Cons p L)
  then show ?case by (cases p) (auto simp: update_conv' map_add_def fun_eq_iff split: option.splits)
qed simp

lemma group_offsets_entries:
  "(k, q) \<in> set (group_offsets (i, g)) \<longleftrightarrow>
     (\<exists>j < length g. k = ep_name (g ! j) \<and> q = fl (of_nat j * fl (i / of_nat (length g))))"
proof -
  have e: "(j, ep) \<in> set (enumerate 0 g) \<longleftrightarrow> j < length g \<and> g ! j = ep" for j ep
    by (simp add: in_set_enumerate_eq)
  have "(k, q) \<in> set (group_offsets (i, g)) \<longleftrightarrow>
      (\<exists>j ep. (j, ep) \<in> set (enumerate 0 g) \<and> k = ep_name ep \<and> q = fl (of_nat j * fl (i / of_nat (length g))))"
    unfolding group_offsets_def Let_def set_map image_iff by force
  then show ?thesis unfolding e by blast
qed

lemma offset_entries:
  "(k, q) \<in> set (concat (map group_offsets (fold add_to_group endpoints []))) \<longleftrightarrow>
     (\<exists>i. \<exists>j < length (group_of endpoints i). k = ep_name (group_of endpoints i ! j) \<and>
        q = fl (of_nat j * fl (i / of_nat (length (group_of endpoints i)))))"
proof -
  have g: "(i, g) \<in> set (fold add_to_group endpoints []) \<longleftrightarrow> g = group_of endpoints i \<and> g \<noteq> []" for i g
    using groups [of endpoints i] by (auto simp flip: map_of_eq_Some_iff split: if_splits)
  have "(k, q) \<in> set (concat (map group_offsets (fold add_to_group endpoints []))) \<longleftrightarrow>
      (\<exists>i g. (i, g) \<in> set (fold add_to_group endpoints []) \<and> (k, q) \<in> set (group_offsets (i, g)))"
    by (auto simp: split_paired_Ex)
  then show ?thesis unfolding g group_offsets_entries by (metis list.size(3) not_less_zero)
qed

lemma group_nth:
  assumes "distinct (map ep_name endpoints)" and "j < length (group_of endpoints i)" "j' < length (group_of endpoints i')"
    and "ep_name (group_of endpoints i ! j) = ep_name (group_of endpoints i' ! j')"
  shows "i = i' \<and> j = j'"
proof -
  have m: "group_of endpoints i ! j \<in> set endpoints \<and> ep_interval_seconds (group_of endpoints i ! j) = i"
    if "j < length (group_of endpoints i)" for i j
    using nth_mem [OF that] by (auto simp: group_of_def)
  have "group_of endpoints i ! j = group_of endpoints i' ! j'"
    using assms(1,4) m [OF assms(2)] m [OF assms(3)] by (auto simp: distinct_map dest: inj_onD)
  moreover from this have "i = i'" using m [OF assms(2)] m [OF assms(3)] by simp
  moreover have "distinct (group_of endpoints i)" using assms(1) by (simp add: group_of_def distinct_map)
  ultimately show ?thesis using assms(2,3) by (simp add: nth_eq_iff_index_eq)
qed

lemma offset_range:
  assumes i: "0 < i" and j: "j < n" "n < 2 ^ 50"
  shows "0 \<le> fl (of_nat j * fl (i / of_nat n)) \<and> fl (of_nat j * fl (i / of_nat n)) < i"
proof -
  let ?s = "fl (i / of_nat n)" and ?j = "rat_of_nat j" and ?n = "rat_of_nat n"
  have n: "0 < ?n" "?j \<le> ?n - 1" "?n < 2 ^ 50"
    using j of_nat_less_iff [of n "2 ^ 50", where 'a = rat] by (auto simp: of_nat_less_iff [symmetric] simp del: of_nat_less_iff)
  have s: "0 \<le> ?s" using i n by (intro fl_nonneg) simp
  have "?s \<le> i / ?n * (1 + eps)" using i n by (intro fl_le) simp
  then have "?j * ?s \<le> (?n - 1) * (i / ?n * (1 + eps))" using n s by (intro mult_mono) auto
  then have "?j * ?s * (1 + eps) \<le> (?n - 1) * (i / ?n * (1 + eps)) * (1 + eps)" using eps_pos by (intro mult_right_mono) auto
  also have "\<dots> = i / ?n * ((?n - 1) * ((1 + eps) * (1 + eps)))" by (simp add: mult_ac)
  also have "\<dots> < i / ?n * ?n"
  proof (rule mult_strict_left_mono)
    have "?n * ((1 + eps) * (1 + eps) - 1) \<le> 2 ^ 50 * ((1 + eps) * (1 + eps) - 1)"
      using n by (intro mult_right_mono) (auto simp: eps_def)
    also have "\<dots> < 1" by (simp add: eps_def)
    finally have "?n * ((1 + eps) * (1 + eps)) < 1 + ?n" by (simp add: right_diff_distrib)
    moreover have "1 \<le> (1 + eps) * (1 + eps)" by (simp add: eps_def)
    ultimately show "(?n - 1) * ((1 + eps) * (1 + eps)) < ?n" by (simp add: left_diff_distrib)
  qed (use i n in simp)
  finally have "?j * ?s * (1 + eps) < i" using n by simp
  moreover have "fl (?j * ?s) \<le> ?j * ?s * (1 + eps)" using s by (intro fl_le) simp
  moreover have "0 \<le> fl (?j * ?s)" using s by (intro fl_nonneg) simp
  ultimately show ?thesis by linarith
qed

text \<open>
  Endpoints that share an interval start spread over it: the j-th of n starts at j times the n-th part of the
  interval, in the order of the configuration, within the interval, and an endpoint alone on its interval at once.
\<close>

theorem start_offsets_spread:
  assumes run: "compute_start_offsets endpoints = Inr offsets" and names: "distinct (map ep_name endpoints)"
    and j: "j < length (group_of endpoints i)" and range: "0 < i" "length endpoints < 2 ^ 50"
  shows "\<exists>q. map_of offsets (ep_name (group_of endpoints i ! j)) = Some q \<and>
             q = fl (of_nat j * fl (i / of_nat (length (group_of endpoints i)))) \<and> 0 \<le> q \<and> q < i \<and> (j = 0 \<longrightarrow> q = 0)"
proof -
  let ?L = "concat (map group_offsets (fold add_to_group endpoints []))" and ?k = "ep_name (group_of endpoints i ! j)"
  let ?q = "fl (of_nat j * fl (i / of_nat (length (group_of endpoints i))))"
  have "map_of offsets = map_of (rev ?L)"
    using run by (auto simp: compute_start_offsets_def map_of_fold_update split: if_splits)
  moreover have "(?k, ?q) \<in> set ?L" unfolding offset_entries using j by blast
  then have "?k \<in> fst ` set (rev ?L)" by force
  then obtain q where q: "map_of (rev ?L) ?k = Some q" by (metis map_of_eq_None_iff not_None_eq)
  then have "(?k, q) \<in> set ?L" by (auto dest: map_of_SomeD)
  then have "q = ?q" unfolding offset_entries using group_nth [OF names j] by blast
  moreover have "length (group_of endpoints i) \<le> length endpoints" by (simp add: group_of_def)
  then have "length (group_of endpoints i) < 2 ^ 50" using range(2) by linarith
  ultimately show ?thesis using q offset_range [OF range(1) j] by (intro exI [of _ ?q]) auto
qed

definition demo_endpoints :: "endpoint_config list" where
  "demo_endpoints = map (\<lambda>n. \<lparr>ep_name = VStr [n], ep_path = VStr ''/p'', ep_parser = VStr ''prices'', ep_interval_seconds = 60\<rparr>) ''abcd''"

lemma start_offsets_spread_witness:
  "\<exists>offsets. compute_start_offsets demo_endpoints = Inr offsets \<and> map_of offsets (VStr ''d'') = Some 45"
proof -
  have run: "compute_start_offsets demo_endpoints = Inr (projr (compute_start_offsets demo_endpoints))" by code_simp
  have names: "distinct (map ep_name demo_endpoints)" by (simp add: demo_endpoints_def)
  have g: "length (group_of demo_endpoints 60) = 4" "ep_name (group_of demo_endpoints 60 ! 3) = VStr ''d''"
    by (simp_all add: demo_endpoints_def group_of_def)
  have q: "fl (of_nat 3 * fl (60 / of_nat 4)) = (45 :: rat)" by code_simp
  have "length demo_endpoints < 2 ^ 50" by (simp add: demo_endpoints_def)
  with start_offsets_spread [OF run names, of 3 60] run g q show ?thesis by auto
qed

section \<open>A run\<close>

definition demo_config :: mempool_api_config where
  "demo_config = \<lparr>ma_base_url = ''https://mempool.space'', ma_output_dir = (False, [''api'']),
     ma_request_timeout_seconds = 20, ma_max_connection_retries = 2, ma_retry_backoff_seconds = 3,
     ma_requests_per_minute = 30, ma_bucket_size = 1,
     ma_endpoints = [\<lparr>ep_name = VStr ''prices'', ep_path = VStr ''/api/v1/prices'', ep_parser = VStr ''prices'', ep_interval_seconds = 60\<rparr>]\<rparr>"

definition demo_answers :: "(nat \<Rightarrow> api_response) \<Rightarrow> poll_env" where
  "demo_answers f = \<lparr>pv_clock = (\<lambda>n. of_nat n), pv_get = (\<lambda>n url. Inr (f n)), pv_write = (\<lambda>h rs. if h then ''hr'' else ''r''),
     pv_show = (\<lambda>v. ''''), pv_out_dir = ''api''\<rparr>"

abbreviation demo_429 :: poll_env where
  "demo_429 \<equiv> demo_answers (\<lambda>n. \<lparr>as_status = 429, as_retry_after = ''60'', as_text = '''', as_json = None\<rparr>)"

definition demo_poller :: poller where
  "demo_poller = \<lparr>pl_bucket = \<lparr>tb_rate_per_second = 1 / 2, tb_capacity = 1, tb_tokens = 1, tb_last_refill = 0\<rparr>, pl_stop = False,
     pl_limited = False, pl_disk = \<lparr>files = [], log = []\<rparr>, pl_looks = 0, pl_threads = [Starting], pl_main = Watching,
     pl_sent = [], pl_answers = []\<rparr>"

lemma demo_starts: "start_poller demo_config \<lparr>files = [], log = []\<rparr> 0 = Inr demo_poller"
  by code_simp

text \<open>The thread sends its first request, the server answers 429, and the main thread joins and returns.\<close>

abbreviation run_to_429 :: "poll_event list" where
  "run_to_429 \<equiv> replicate 8 (Turn 0) @ replicate 3 Main_turn"

lemma requests_within_the_shared_budget_witness:
  "of_nat (length (pl_sent (run_events demo_429 demo_config run_to_429 demo_poller))) \<le>
     (1 :: rat) + 10 * fl (1 / 2) * (1 + eps) ^ 3 + 2 * eps * of_nat (pl_looks (run_events demo_429 demo_config run_to_429 demo_poller))"
proof -
  have k: "pl_looks (run_events demo_429 demo_config run_to_429 demo_poller) \<le> 10" by code_simp
  then have "\<forall>k < pl_looks (run_events demo_429 demo_config run_to_429 demo_poller). pv_clock demo_429 k \<le> 10"
    by (simp add: demo_answers_def)
  then show ?thesis
    using requests_within_the_shared_budget [OF demo_starts _ refl, where T = 10 and evs = run_to_429 and e = demo_429]
    by (simp add: demo_config_def)
qed

lemma stop_ends_the_poller_witness:
  "count_list (pl_sent (run_events demo_429 demo_config run_to_429 (demo_poller\<lparr>pl_stop := True\<rparr>))) 0 = 0 \<and>
   has_returned (run_events demo_429 demo_config run_to_429 (demo_poller\<lparr>pl_stop := True\<rparr>))"
proof -
  let ?s = "demo_poller\<lparr>pl_stop := True\<rparr>"
  have p: "pl_stop ?s" "0 < length (pl_threads ?s)" "0 < length (ma_endpoints demo_config)" by (simp_all add: demo_poller_def demo_config_def)
  have "length (pl_threads ?s) + 2 \<le> count_list run_to_429 Main_turn" by code_simp
  with stop_ends_the_poller [OF p refl, of demo_429 run_to_429] show ?thesis by (simp add: demo_poller_def)
qed

lemma exit_code_tells_why_witness:
  "refused (run_events demo_429 demo_config run_to_429 demo_poller)"
proof -
  have "pl_main (run_events demo_429 demo_config run_to_429 demo_poller) = Returned 75" by code_simp
  from exit_code_tells_why [OF demo_starts refl this] show ?thesis by simp
qed

text \<open>
  The owner sets the stop event while a request is out that the server then answers with a 429: the poller ends
  because of the owner and returns the exit code of a 429.
\<close>

lemma caller_stop_reported_as_429:
  "pl_main (run_events demo_429 demo_config
     (replicate 5 (Turn 0) @ [Caller_stop, Main_turn] @ replicate 2 (Turn 0) @ replicate 2 Main_turn) demo_poller) = Returned EXIT_RATE_LIMITED"
  by code_simp

text \<open>
  A price that is no scalar passes the parser and cannot be written: the exception ends the endpoint's thread, and
  the process keeps watching with no thread left to poll.
\<close>

lemma unwritable_row_ends_the_endpoint:
  "let s = run_events (demo_answers (\<lambda>n. \<lparr>as_status = 200, as_retry_after = '''', as_text = '''',
             as_json = Some (VMap [(''time'', VInt 1), (''USD'', VList [])])\<rparr>)) demo_config
             (replicate 7 (Turn 0) @ [Main_turn]) demo_poller
   in pl_threads s = [Finished] \<and> pl_main s = Watching \<and> \<not> pl_stop s"
  by code_simp


end
