(* ===== verification/Field_Config.thy ===== *)
theory Field_Config
  imports Export_Schema
begin

text \<open>
  splunk/build_field_config.py: the Splunk and Cribl field configuration generated from the export schema, as
  texts, and what the regular expressions in them capture from a CSV row. \<open>json.dumps\<close> is a parameter.
\<close>

section \<open>Texts\<close>

abbreviation squote :: char where
  "squote \<equiv> CHR 0x27"

abbreviation dquote :: char where
  "dquote \<equiv> CHR 0x22"

abbreviation backslash :: char where
  "backslash \<equiv> CHR 0x5C"

abbreviation nl :: string where
  "nl \<equiv> [char_of (10 :: nat)]"

definition GENERATED_NOTE :: string where
  "GENERATED_NOTE = ''# Generated by splunk/build_field_config.py from btc_parser_app/export_schema.py - edit those, not this file.''"

definition MAX_DAYS_AGO :: nat where
  "MAX_DAYS_AGO = 10951"

text \<open>\<open>name.split(":", 1)[1]\<close>; every sourcetype name has a colon.\<close>

definition short_name :: "sourcetype \<Rightarrow> string" where
  "short_name st = tl (dropWhile (\<lambda>c. c \<noteq> CHR '':'') (st_name st))"

definition skip_columns_regex :: "nat \<Rightarrow> string" where
  "skip_columns_regex n = (if n = 0 then ''^'' else ''^(?:[^,]*,){'' @ decimal n @ ''}'')"

text \<open>\<open>columns.index(c)\<close> of a column.\<close>

definition column_index :: "sourcetype \<Rightarrow> string \<Rightarrow> nat" where
  "column_index st c = length (takeWhile (\<lambda>x. x \<noteq> c) (columns st))"

section \<open>Index time\<close>

definition INDEX_PROPS_HEADER :: string where
  "INDEX_PROPS_HEADER = join_with nl
     [GENERATED_NOTE,
      ''#'',
      ''# TA-btc-parser-parsing/default/props.conf - INDEX TIME.'',
      ''#'',
      ''# Install on the Splunk instance that READS the CSVs: the standalone test'',
      ''# instance (parser, inputs and Splunk Enterprise on one host). It has no'',
      ''# effect in prod (UF -> Cribl -> Splunk Enterprise): Cribl hands Splunk'',
      ''# already-parsed events, so Splunk skips its parsing/typing for them - the'',
      ''# same work is done by cribl/btc_parser_pipeline.json there. Never install'',
      ''# it on a Universal Forwarder: INDEXED_EXTRACTIONS would make the UF parse'',
      ''# the small sourcetypes and ship every column to Cribl as an indexed field.'',
      ''#'',
      ''# Field concept (docs/10-splunk-integration-und-feldkonzept.md 10.6):'',
      ''# - btc:blocks, btc:stale_block_headers, btc:sanctioned_tx_events,'',
      ''#   btc:prices: INDEXED_EXTRACTIONS = csv, every column an indexed field.'',
      ''# - btc:transactions, btc:inputs, btc:outputs: no INDEXED_EXTRACTIONS.'',
      ''#   Classic line breaking, _time from the block_time column by position,'',
      ''#   header row to nullQueue, and one WRITE_META transform per indexed'',
      ''#   column (transforms.conf). Everything else is extracted at search time'',
      ''#   by TA-btc-parser-search. Column positions come from export_schema.py,'',
      ''#   which tests/test_export_schema.py pins to the rows block_parser.py'',
      ''#   writes.'',
      ''#'',
      ''# MAX_DAYS_AGO = '' @ decimal MAX_DAYS_AGO @ '' (the maximum) on every sourcetype: the default'',
      ''# of 2000 days would give every pre-2021 event a fallback _time.'',
      ''# ANNOTATE_PUNCT = false: punct:: means nothing for CSV rows and costs'',
      ''# index-time CPU and tsidx space on billions of events.'',
      '''']"

definition index_props_structured :: "sourcetype \<Rightarrow> string list" where
  "index_props_structured st =
     [''['' @ st_name st @ '']'',
      ''INDEXED_EXTRACTIONS = csv'',
      ''HEADER_FIELD_LINE_NUMBER = 1'',
      ''FIELD_DELIMITER = ,'',
      ''FIELD_QUOTE = '' @ [dquote],
      ''TIMESTAMP_FIELDS = '' @ time_field st,
      ''TIME_FORMAT = '' @ time_format st,
      ''TZ = UTC'',
      ''SHOULD_LINEMERGE = false'',
      ''MAX_DAYS_AGO = '' @ decimal MAX_DAYS_AGO,
      ''ANNOTATE_PUNCT = false'',
      ''category = Structured'',
      ''description = '' @ description st]"

definition index_transform_name :: "sourcetype \<Rightarrow> string \<Rightarrow> string" where
  "index_transform_name st field = ''btc_idx_'' @ short_name st @ ''_'' @ field"

definition index_transform_names :: "sourcetype \<Rightarrow> string list" where
  "index_transform_names st = map (index_transform_name st) (indexed_fields st)"

definition index_props_positional :: "sourcetype \<Rightarrow> string list" where
  "index_props_positional st =
     [''['' @ st_name st @ '']'',
      ''SHOULD_LINEMERGE = false'',
      ''LINE_BREAKER = (['' @ [backslash] @ ''r'' @ [backslash] @ ''n]+)'',
      ''TIME_PREFIX = '' @ skip_columns_regex (column_index st (time_field st)),
      ''TIME_FORMAT = '' @ time_format st,
      ''MAX_TIMESTAMP_LOOKAHEAD = 10'',
      ''TZ = UTC'',
      ''MAX_DAYS_AGO = '' @ decimal MAX_DAYS_AGO,
      ''ANNOTATE_PUNCT = false'',
      ''TRANSFORMS-btc_00_header = btc_drop_header_'' @ short_name st,
      ''TRANSFORMS-btc_10_indexed = '' @ join_with '', '' (index_transform_names st),
      ''category = Structured'',
      ''description = '' @ description st]"

definition index_props :: "sourcetype list \<Rightarrow> string" where
  "index_props sts =
     INDEX_PROPS_HEADER @ nl @
     join_with (nl @ nl)
       (map (\<lambda>st. join_with nl (case indexed st of None \<Rightarrow> index_props_structured st | Some fs \<Rightarrow> index_props_positional st)) sts) @ nl"

definition index_transform_regex :: "sourcetype \<Rightarrow> string \<Rightarrow> string" where
  "index_transform_regex st field = skip_columns_regex (column_index st field) @ ''([^,]+)''"

definition header_regex :: "sourcetype \<Rightarrow> string" where
  "header_regex st = ''^'' @ header_prefix st"

definition index_transforms :: "sourcetype list \<Rightarrow> string" where
  "index_transforms sts = join_with nl
     ([GENERATED_NOTE,
      ''#'',
      ''# TA-btc-parser-parsing/default/transforms.conf - INDEX TIME, see props.conf.'',
      ''#'',
      ''# btc_idx_<sourcetype>_<field>: pins the regex to that field'' @ [squote] @ ''s column'',
      ''# (export_schema.py) and requires a non-empty value - an empty CSV'',
      ''# value (null, e.g. prevout_type on a coinbase input) writes no indexed'',
      ''# field at all instead of an empty one.''] @
      concat (map (\<lambda>st. case indexed st of None \<Rightarrow> []
        | Some fs \<Rightarrow>
            ['''', ''[btc_drop_header_'' @ short_name st @ '']'', ''REGEX = '' @ header_regex st,
             ''DEST_KEY = queue'', ''FORMAT = nullQueue''] @
            concat (map (\<lambda>(field, name).
              ['''', ''['' @ name @ '']'', ''REGEX = '' @ index_transform_regex st field,
               ''FORMAT = '' @ field @ ''::$1'', ''WRITE_META = true''])
              (zip (indexed_fields st) (index_transform_names st)))) sts)) @ nl"

section \<open>Search time\<close>

definition search_props :: "sourcetype list \<Rightarrow> string" where
  "search_props sts = join_with nl
     ([GENERATED_NOTE,
      ''#'',
      ''# TA-btc-parser-search/default/props.conf - SEARCH TIME.'',
      ''#'',
      ''# Install on the search head(s): the standalone test instance, and'',
      ''# the prod search tier. Indexed fields come back with each event'',
      ''# without any extraction; the REPORT below only extracts the columns'',
      ''# that are not indexed (an indexed column extracted again at search'',
      ''# time would turn into a duplicated multivalue field). KV_MODE = none:'',
      ''# CSV rows hold no key=value pairs worth auto-extracting.''] @
      concat (map (\<lambda>st.
        ['''', ''['' @ st_name st @ '']'', ''KV_MODE = none'', ''AUTO_KV_JSON = false''] @
        (if search_time_fields st \<noteq> [] then [''REPORT-btc_columns = btc_columns_'' @ short_name st] else [])) sts)) @ nl"

definition column_part :: "sourcetype \<Rightarrow> string \<Rightarrow> string" where
  "column_part st c = (if c \<in> set (search_time_fields st) then ''(?<'' @ c @ ''>[^,]*)'' else ''[^,]*'')"

definition search_regex :: "sourcetype \<Rightarrow> string" where
  "search_regex st = ''^'' @ join_with '','' (map (column_part st) (columns st))"

definition search_transforms :: "sourcetype list \<Rightarrow> string" where
  "search_transforms sts = join_with nl
     ([GENERATED_NOTE,
      ''#'',
      ''# TA-btc-parser-search/default/transforms.conf - SEARCH TIME, see props.conf.'',
      ''#'',
      ''# One anchored regex per sourcetype over the whole CSV row: a named'',
      ''# group per search-time column, [^,]* for indexed ones (skipped). These'',
      ''# rows never contain quoted values (hashes, numbers, booleans, script'',
      ''# types, addresses), so splitting on every comma is exact. Empty'',
      ''# values (nulls) produce no field.''] @
      concat (map (\<lambda>st. if search_time_fields st = [] then []
        else ['''', ''[btc_columns_'' @ short_name st @ '']'', ''REGEX = '' @ search_regex st]) sts)) @ nl"

definition indexed_names :: "sourcetype list \<Rightarrow> string list" where
  "indexed_names sts =
     fold (\<lambda>st names. case indexed st of None \<Rightarrow> names | Some fs \<Rightarrow> names @ filter (\<lambda>f. f \<notin> set names) fs) sts []"

definition search_fields :: "sourcetype list \<Rightarrow> string" where
  "search_fields sts = join_with nl
     ([GENERATED_NOTE,
      ''#'',
      ''# TA-btc-parser-search/default/fields.conf - SEARCH TIME.'',
      ''#'',
      ''# INDEXED = true makes `field=value` look up the indexed term'',
      ''# field::value instead of the raw token `value` - which matters for'',
      ''# exactly these fields: their values (true, false, 2, 1, ...) also'',
      ''# appear in many other columns, so a raw-term lookup narrows nothing.'',
      ''# Only the explicitly indexed transactions/inputs/outputs columns are'',
      ''# listed; the INDEXED_EXTRACTIONS sourcetypes need no entry. Global'',
      ''# setting - see the consistency rule in export_schema.py.''] @
      concat (map (\<lambda>name. ['''', ''['' @ name @ '']'', ''INDEXED = true'']) (indexed_names sts))) @ nl"

section \<open>Cribl\<close>

definition js_str :: "(pyval \<Rightarrow> string) \<Rightarrow> string \<Rightarrow> string" where
  "js_str dumps value = dumps (VStr value)"

definition header_checks :: "(pyval \<Rightarrow> string) \<Rightarrow> sourcetype list \<Rightarrow> string" where
  "header_checks dumps sts = join_with '' || '' (map (\<lambda>st.
     ''(sourcetype=='' @ js_str dumps (st_name st) @ '' && _raw.startsWith('' @ js_str dumps (header_prefix st) @ ''))'') sts)"

definition cribl_keep :: "sourcetype \<Rightarrow> string list" where
  "cribl_keep st = indexed_fields st @ (if time_field st \<in> set (indexed_fields st) then [] else [time_field st])"

definition cribl_parser :: "sourcetype \<Rightarrow> (string \<times> pyval) list" where
  "cribl_parser st =
     [(''mode'', VStr ''extract''), (''type'', VStr ''csv''), (''srcField'', VStr ''_raw''),
      (''fields'', VList (map VStr (columns st)))] @
     (if indexed st \<noteq> None then [(''keep'', VList (map VStr (cribl_keep st)))] else [])"

definition cribl_eval :: "sourcetype \<Rightarrow> (string \<times> pyval) list" where
  "cribl_eval st =
     (let expr = (if time_format st = ''%s'' then ''Number('' @ time_field st @ '')'' else ''Date.parse('' @ time_field st @ '') / 1000'')
      in [(''add'', VList [VMap [(''name'', VStr ''_time''), (''value'', VStr expr)]])] @
         (if time_field st \<notin> set (indexed_fields st) then [(''remove'', VList [VStr (time_field st)])] else []))"

definition cribl_functions :: "(pyval \<Rightarrow> string) \<Rightarrow> sourcetype \<Rightarrow> pyval list" where
  "cribl_functions dumps st =
     (let is_st = ''sourcetype=='' @ js_str dumps (st_name st) in
      [VMap [(''id'', VStr ''serde''), (''filter'', VStr is_st),
         (''description'', VStr (st_name st @ '': extract '' @
            (case indexed st of None \<Rightarrow> ''every column'' | Some fs \<Rightarrow> join_with '', '' fs))),
         (''conf'', VMap (cribl_parser st))],
       VMap [(''id'', VStr ''eval''), (''filter'', VStr is_st),
         (''description'', VStr (st_name st @ '': _time from '' @ time_field st)),
         (''conf'', VMap (cribl_eval st))]])"

definition cribl_pipeline :: "(pyval \<Rightarrow> string) \<Rightarrow> (pyval \<Rightarrow> string) \<Rightarrow> sourcetype list \<Rightarrow> string" where
  "cribl_pipeline dumps dumps_indent2 sts =
     dumps_indent2 (VMap [(''id'', VStr ''btc_parser''), (''conf'', VMap [
       (''output'', VStr ''default''), (''streamtags'', VList []), (''groups'', VMap []),
       (''asyncFuncTimeout'', VInt 1000),
       (''description'', VStr ''btc_parser_app export CSVs -> Splunk (docs chapter 10.6)''),
       (''functions'', VList (
          [VMap [(''id'', VStr ''comment''), (''conf'', VMap [(''comment'',
             VStr (''Generated by splunk/build_field_config.py from btc_parser_app/export_schema.py - re-generate and '' @
             ''re-import instead of editing. Every top-level field left on the event becomes an indexed field in '' @
             ''Splunk; _raw stays the CSV row and the rest is extracted at search time by TA-btc-parser-search.''))])],
           VMap [(''id'', VStr ''drop''), (''filter'', VStr (header_checks dumps sts)),
             (''description'', VStr ''CSV header rows (one per part file)''), (''conf'', VMap [])]] @
          concat (map (cribl_functions dumps) sts) @
          [VMap [(''id'', VStr ''code''), (''filter'', VStr (''sourcetype.startsWith('' @ [squote] @ ''btc:'' @ [squote] @ '')'')),
             (''description'', VStr (''Drop empty CSV values (nulls) instead of sending empty indexed fields'')),
             (''conf'', VMap [(''code'', VStr (''for (const k of Object.keys(__e)) { if (__e[k] === '' @ [squote] @ [squote] @ '') delete __e[k]; }'')),
                (''maxNumOfIterations'', VInt 5000)])]]))])]) @ nl"

section \<open>The generator\<close>

definition generated_files ::
    "(pyval \<Rightarrow> string) \<Rightarrow> (pyval \<Rightarrow> string) \<Rightarrow> sourcetype list \<Rightarrow> (path \<times> string) list option" where
  "generated_files dumps dumps_indent2 sts =
     (if check_index_consistency sts \<noteq> [] then None
      else Some
        [((''splunk/TA-btc-parser-parsing/default'', ''props.conf''), index_props sts),
         ((''splunk/TA-btc-parser-parsing/default'', ''transforms.conf''), index_transforms sts),
         ((''splunk/TA-btc-parser-search/default'', ''props.conf''), search_props sts),
         ((''splunk/TA-btc-parser-search/default'', ''transforms.conf''), search_transforms sts),
         ((''splunk/TA-btc-parser-search/default'', ''fields.conf''), search_fields sts),
         ((''cribl'', ''btc_parser_pipeline.json''), cribl_pipeline dumps dumps_indent2 sts)])"

text \<open>One file of the loop of \<open>main\<close>: the stale paths so far and the disk.\<close>

definition refresh_file :: "bool \<Rightarrow> csv_write \<Rightarrow> path \<times> string \<Rightarrow> path list \<times> disk \<Rightarrow> path list \<times> disk" where
  "refresh_file check W f sd =
     (case f of (p, content) \<Rightarrow> case sd of (stale, d) \<Rightarrow>
        (if map_of (files d) p = Some content then (stale, d)
         else (stale @ [p], if check then d else do_effect W (EText p content) d)))"

text \<open>The exit code and the disk; a SystemExit with a message exits with 1.\<close>

definition generate_main ::
    "bool \<Rightarrow> csv_write \<Rightarrow> (pyval \<Rightarrow> string) \<Rightarrow> (pyval \<Rightarrow> string) \<Rightarrow> sourcetype list \<Rightarrow> disk \<Rightarrow> int \<times> disk" where
  "generate_main check W dumps dumps_indent2 sts d =
     (case generated_files dumps dumps_indent2 sts of
        None \<Rightarrow> (1, d)
      | Some fs \<Rightarrow>
          (case fold (refresh_file check W) fs ([], d) of (stale, d') \<Rightarrow> (if check \<and> stale \<noteq> [] then 1 else 0, d')))"

section \<open>Regular expressions\<close>

text \<open>
  The part of the regular expression language the texts use, with its documented meaning: all ways to match at
  the start of a text in the order a backtracking matcher tries them, each with the rest and the captures.
\<close>

datatype rx =
    REmpty
  | RChar char
  | RField
  | RField1
  | RSeq rx rx
  | RRep nat rx
  | RCap string rx

type_synonym rx_matches = "(string \<times> (string \<times> string) list) list"

primrec rx_text :: "rx \<Rightarrow> string" where
  "rx_text REmpty = ''''"
| "rx_text (RChar c) = [c]"
| "rx_text RField = ''[^,]*''"
| "rx_text RField1 = ''[^,]+''"
| "rx_text (RSeq r q) = rx_text r @ rx_text q"
| "rx_text (RRep n r) = ''(?:'' @ rx_text r @ ''){'' @ decimal n @ ''}''"
| "rx_text (RCap g r) = (if g = '''' then ''('' else ''(?<'' @ g @ ''>'') @ rx_text r @ '')''"

definition then_match :: "rx_matches \<Rightarrow> (string \<Rightarrow> rx_matches) \<Rightarrow> rx_matches" where
  "then_match ms f = concat (map (\<lambda>(rest, cs). map (\<lambda>(rest', cs'). (rest', cs @ cs')) (f rest)) ms)"

primrec rep_match :: "nat \<Rightarrow> (string \<Rightarrow> rx_matches) \<Rightarrow> string \<Rightarrow> rx_matches" where
  "rep_match 0 f s = [(s, [])]"
| "rep_match (Suc n) f s = then_match (f s) (rep_match n f)"

text \<open>The longest field first: \<open>*\<close> and \<open>+\<close> are greedy.\<close>

definition fields_from :: "nat \<Rightarrow> string \<Rightarrow> rx_matches" where
  "fields_from n s = map (\<lambda>k. (drop k s, [])) (rev [n..<Suc (length (takeWhile (\<lambda>c. c \<noteq> CHR '','') s))])"

primrec rx_match :: "rx \<Rightarrow> string \<Rightarrow> rx_matches" where
  "rx_match REmpty s = [(s, [])]"
| "rx_match (RChar c) s = (case s of [] \<Rightarrow> [] | x # xs \<Rightarrow> if x = c then [(xs, [])] else [])"
| "rx_match RField s = fields_from 0 s"
| "rx_match RField1 s = fields_from 1 s"
| "rx_match (RSeq r q) s = then_match (rx_match r s) (rx_match q)"
| "rx_match (RRep n r) s = rep_match n (rx_match r) s"
| "rx_match (RCap g r) s = map (\<lambda>(rest, cs). (rest, (g, take (length s - length rest) s) # cs)) (rx_match r s)"

text \<open>The captures of the first match of a pattern anchored by \<open>^\<close>.\<close>

definition rx_search :: "rx \<Rightarrow> string \<Rightarrow> (string \<times> string) list option" where
  "rx_search r s = (case rx_match r s of [] \<Rightarrow> None | (rest, cs) # ms \<Rightarrow> Some cs)"

definition skip_rx :: "nat \<Rightarrow> rx" where
  "skip_rx n = (if n = 0 then REmpty else RRep n (RSeq RField (RChar CHR '','')))"

definition index_rx :: "nat \<Rightarrow> rx" where
  "index_rx n = RSeq (skip_rx n) (RCap '''' RField1)"

definition column_rx :: "sourcetype \<Rightarrow> string \<Rightarrow> rx" where
  "column_rx st c = (if c \<in> set (search_time_fields st) then RCap c RField else RField)"

fun columns_rx :: "sourcetype \<Rightarrow> string list \<Rightarrow> rx" where
  "columns_rx st [] = REmpty"
| "columns_rx st [c] = column_rx st c"
| "columns_rx st (c # cs) = RSeq (column_rx st c) (RSeq (RChar CHR '','') (columns_rx st cs))"

lemma index_rx_text: "index_transform_regex st c = ''^'' @ rx_text (index_rx (column_index st c))"
  by (simp add: index_transform_regex_def skip_columns_regex_def index_rx_def skip_rx_def)

lemma search_rx_text:
  assumes "list_all (\<lambda>c. c \<noteq> '''') (columns st)"
  shows "search_regex st = ''^'' @ rx_text (columns_rx st (columns st))"
proof -
  have "list_all (\<lambda>c. c \<noteq> '''') cs \<Longrightarrow> join_with '','' (map (column_part st) cs) = rx_text (columns_rx st cs)" for cs
    by (induction st cs rule: columns_rx.induct) (auto simp: column_part_def column_rx_def)
  with assms show ?thesis by (simp add: search_regex_def)
qed

section \<open>What they capture\<close>

text \<open>A CSV row whose values have no comma and need no quotes.\<close>

definition plain_row :: "string list \<Rightarrow> bool" where
  "plain_row vs \<longleftrightarrow> list_all (\<lambda>v. CHR '','' \<notin> set v) vs"

lemma join_Cons: "vs \<noteq> [] \<Longrightarrow> join_with '','' (v # vs) = v @ CHR '','' # join_with '','' vs"
  by (cases vs) auto

lemma field_len [simp]:
  assumes "CHR '','' \<notin> set v"
  shows "takeWhile (\<lambda>c. c \<noteq> CHR '','') (v @ CHR '','' # s) = v" "takeWhile (\<lambda>c. c \<noteq> CHR '','') v = v"
  using assms by (auto simp: takeWhile_append1 takeWhile_tail takeWhile_eq_all_conv)

lemma then_match_Nil [simp]: "then_match [] f = []"
  by (simp add: then_match_def)

lemma then_match_Cons [simp]: "then_match ((s, cs) # ms) f = map (\<lambda>(rest, cs'). (rest, cs @ cs')) (f s) @ then_match ms f"
  by (simp add: then_match_def)

lemma then_match_none: "\<forall>(s, cs) \<in> set ms. f s = [] \<Longrightarrow> then_match ms f = []"
  by (induction ms) auto

text \<open>The whole field comes first, and only it leaves a comma or the end of the row.\<close>

lemma fields_from_Cons:
  assumes "CHR '','' \<notin> set v" and s: "s = v \<or> s = v @ CHR '','' # w" and "n \<le> length v"
  shows "\<exists>ms. fields_from n s = (drop (length v) s, []) # ms \<and>
           (\<forall>(rest, cs) \<in> set ms. \<exists>x xs. rest = x # xs \<and> x \<noteq> CHR '','')"
proof -
  have len: "length (takeWhile (\<lambda>c. c \<noteq> CHR '','') s) = length v" using assms(1) s by auto
  have "drop k s \<noteq> [] \<and> hd (drop k s) \<noteq> CHR '',''" if "k < length v" for k
  proof -
    have "drop k v = v ! k # drop (Suc k) v" using that by (rule Cons_nth_drop_Suc [symmetric])
    moreover have "v ! k \<noteq> CHR '',''" using that assms(1) nth_mem [of k v] by metis
    ultimately show ?thesis using s that assms(1) by auto
  qed
  then have "\<exists>x xs. drop k s = x # xs \<and> x \<noteq> CHR '',''" if "k < length v" for k
    using that by (metis list.exhaust_sel)
  then show ?thesis using assms(3)
    by (intro exI [of _ "map (\<lambda>k. (drop k s, [])) (rev [n..<length v])"]) (auto simp: fields_from_def len)
qed

lemma match_field_comma:
  assumes "CHR '','' \<notin> set v"
  shows "rx_match (RSeq RField (RChar CHR '','')) (v @ CHR '','' # w) = [(w, [])]"
proof -
  obtain ms where ms: "fields_from 0 (v @ CHR '','' # w) = (CHR '','' # w, []) # ms"
      "\<forall>(rest, cs) \<in> set ms. \<exists>x xs. rest = x # xs \<and> x \<noteq> CHR '',''"
    using fields_from_Cons [OF assms, of "v @ CHR '','' # w" w 0] by auto
  have "then_match ms (rx_match (RChar CHR '','')) = []"
    by (rule then_match_none) (use ms(2) in auto)
  with ms(1) show ?thesis by simp
qed

lemma match_skip:
  "plain_row vs \<Longrightarrow> n < length vs \<Longrightarrow>
   rep_match n (rx_match (RSeq RField (RChar CHR '',''))) (join_with '','' vs) = [(join_with '','' (drop n vs), [])]"
proof (induction n arbitrary: vs)
  case (Suc n)
  then obtain v ws where vs: "vs = v # ws" "ws \<noteq> []" "CHR '','' \<notin> set v" "plain_row ws" "n < length ws"
    by (cases vs; cases "tl vs") (auto simp: plain_row_def)
  have "rx_match (RSeq RField (RChar CHR '','')) (join_with '','' vs) = [(join_with '','' ws, [])]"
    unfolding vs(1) join_Cons [OF vs(2)] by (rule match_field_comma [OF vs(3)])
  with vs Suc.IH [OF vs(4,5)] show ?case by (simp del: rx_match.simps)
qed simp

lemma index_rx_captures:
  assumes "plain_row vs" "n < length vs"
  shows "rx_search (index_rx n) (join_with '','' vs) = (if vs ! n = '''' then None else Some [('''', vs ! n)])"
proof -
  let ?s = "join_with '','' (drop n vs)" and ?v = "vs ! n"
  have d: "drop n vs = ?v # drop (Suc n) vs" using assms(2) by (rule Cons_nth_drop_Suc [symmetric])
  have v: "CHR '','' \<notin> set ?v" using assms by (auto simp: plain_row_def list_all_iff)
  obtain w where s: "?s = ?v \<or> ?s = ?v @ CHR '','' # w" unfolding d using join_Cons by (cases "drop (Suc n) vs") auto
  have skip: "rx_match (skip_rx n) (join_with '','' vs) = [(?s, [])]"
    using match_skip [OF assms] by (simp add: skip_rx_def del: rx_match.simps(5))
  show ?thesis
  proof (cases "?v = ''''")
    case True
    then have "fields_from 1 ?s = []" using s by (auto simp: fields_from_def)
    with True skip show ?thesis by (simp add: rx_search_def index_rx_def)
  next
    case False
    then have "1 \<le> length ?v" by (cases ?v) auto
    then obtain ms where "fields_from 1 ?s = (drop (length ?v) ?s, []) # ms" using fields_from_Cons [OF v s] by blast
    moreover have "take (length ?s - length (drop (length ?v) ?s)) ?s = ?v" using s by auto
    ultimately show ?thesis using False skip by (simp add: rx_search_def index_rx_def)
  qed
qed

definition captured :: "sourcetype \<Rightarrow> string list \<Rightarrow> string list \<Rightarrow> (string \<times> string) list" where
  "captured st cs vs = filter (\<lambda>p. fst p \<in> set (search_time_fields st)) (zip cs vs)"

lemma match_column:
  assumes "CHR '','' \<notin> set v" and "s = v \<or> s = v @ CHR '','' # w"
  shows "\<exists>ms. rx_match (column_rx st c) s = (drop (length v) s, captured st [c] [v]) # ms \<and>
           (\<forall>(rest, cs) \<in> set ms. \<exists>x xs. rest = x # xs \<and> x \<noteq> CHR '','')"
proof -
  have t: "take (length s - length (drop (length v) s)) s = v" using assms(2) by auto
  obtain ms where ms: "fields_from 0 s = (drop (length v) s, []) # ms"
      "\<forall>(rest, cs) \<in> set ms. \<exists>x xs. rest = x # xs \<and> x \<noteq> CHR '',''" using fields_from_Cons [OF assms, of 0] by auto
  show ?thesis
  proof (cases "c \<in> set (search_time_fields st)")
    case True
    with ms t show ?thesis by (auto simp: column_rx_def captured_def split_beta)
  next
    case False
    with ms show ?thesis by (auto simp: column_rx_def captured_def)
  qed
qed

lemma columns_rx_captures:
  "length cs = length vs \<Longrightarrow> plain_row vs \<Longrightarrow>
   \<exists>rest ms. rx_match (columns_rx st cs) (join_with '','' vs) = (rest, captured st cs vs) # ms"
proof (induction st cs arbitrary: vs rule: columns_rx.induct)
  case (1 st)
  then show ?case by (simp add: captured_def)
next
  case (2 st c)
  then obtain v where v: "vs = [v]" "CHR '','' \<notin> set v" by (cases vs) (auto simp: plain_row_def)
  with match_column [OF v(2), of v "[]" st c] show ?case by auto
next
  case (3 st c d cs)
  then obtain v ws where v: "vs = v # ws" "CHR '','' \<notin> set v" "ws \<noteq> []" "plain_row ws" "length (d # cs) = length ws"
    by (cases vs; cases "tl vs") (auto simp: plain_row_def)
  let ?w = "join_with '','' ws"
  obtain ms where ms: "rx_match (column_rx st c) (v @ CHR '','' # ?w) = (CHR '','' # ?w, captured st [c] [v]) # ms"
      "\<forall>(rest, cs) \<in> set ms. \<exists>x xs. rest = x # xs \<and> x \<noteq> CHR '',''"
    using match_column [OF v(2), of "v @ CHR '','' # ?w" ?w st c] by auto
  obtain rest ns where ih: "rx_match (columns_rx st (d # cs)) ?w = (rest, captured st (d # cs) ws) # ns"
    using 3(1) [OF v(5,4)] by blast
  have "then_match ms (rx_match (RSeq (RChar CHR '','') (columns_rx st (d # cs)))) = []"
    by (rule then_match_none) (use ms(2) in auto)
  with ms(1) ih v show ?case by (simp add: join_Cons captured_def)
qed

section \<open>Every column once\<close>

lemma column_index_nth: "c \<in> set (columns st) \<Longrightarrow> column_index st c < length (columns st) \<and> columns st ! column_index st c = c"
proof -
  have "c \<in> set xs \<Longrightarrow> length (takeWhile (\<lambda>x. x \<noteq> c) xs) < length xs \<and> xs ! length (takeWhile (\<lambda>x. x \<noteq> c) xs) = c" for xs
    by (induction xs) auto
  then show "c \<in> set (columns st) \<Longrightarrow> ?thesis" by (simp add: column_index_def)
qed

lemma map_of_zip_nth:
  "distinct ks \<Longrightarrow> length ks = length vs \<Longrightarrow> n < length ks \<Longrightarrow> map_of (zip ks vs) (ks ! n) = Some (vs ! n)"
  by (rule map_of_is_SomeI) (auto simp: in_set_zip)

lemma map_of_filter_key: "map_of (filter (\<lambda>p. P (fst p)) xs) k = (if P k then map_of xs k else None)"
  by (induction xs) auto

lemma map_of_captured:
  assumes "distinct cs" "length cs = length vs" "n < length cs"
  shows "map_of (captured st cs vs) (cs ! n) = (if cs ! n \<in> set (search_time_fields st) then Some (vs ! n) else None)"
  using map_of_zip_nth [OF assms] map_of_filter_key [of "\<lambda>k. k \<in> set (search_time_fields st)" "zip cs vs" "cs ! n"]
  by (simp add: captured_def)

lemma sourcetypes_regular:
  "list_all (\<lambda>st. distinct (columns st) \<and> list_all (\<lambda>c. c \<noteq> '''') (columns st) \<and>
     (case indexed st of None \<Rightarrow> True | Some fs \<Rightarrow> list_all (\<lambda>f. f \<in> set (columns st)) fs)) SOURCETYPES"
  by code_simp

text \<open>
  C20. The generated configuration extracts every column of a row exactly once, by position, with the value the row
  has there: the transform of an indexed column captures it and nothing when it is empty, the search time regex
  captures each other column under its name and no indexed one, on any row with the columns of the schema whose
  values have no comma.
\<close>

theorem columns_extracted_once:
  fixes row :: row
  assumes st: "st \<in> set SOURCETYPES" "indexed st = Some fs" and row: "map fst row = columns st"
    and plain: "plain_row (map (\<lambda>p. render (snd p)) row)" and cell: "map_of row c = Some cell"
  shows "index_transform_regex st c = ''^'' @ rx_text (index_rx (column_index st c)) \<and>
         search_regex st = ''^'' @ rx_text (columns_rx st (columns st)) \<and>
         (let line = join_with '','' (map (\<lambda>p. render (snd p)) row) in
          \<exists>captures. rx_search (columns_rx st (columns st)) line = Some captures \<and>
            (if c \<in> set fs
             then rx_search (index_rx (column_index st c)) line = (if render cell = '''' then None else Some [('''', render cell)]) \<and>
                  map_of captures c = None
             else map_of captures c = Some (render cell)))"
proof -
  let ?vs = "map (\<lambda>p. render (snd p)) row" and ?n = "column_index st c"
  from st(1) sourcetypes_regular have reg: "distinct (columns st)" "list_all (\<lambda>c. c \<noteq> '''') (columns st)"
    by (auto simp: list_all_iff)
  have len: "length (columns st) = length ?vs" using row by (metis length_map)
  have "c \<in> set (columns st)" unfolding row [symmetric] using cell by (metis map_of_SomeD fst_conv imageI set_map)
  then have n: "?n < length (columns st)" "columns st ! ?n = c" using column_index_nth by blast+
  have "map_of (zip (map fst row) (map snd row)) (map fst row ! ?n) = Some (map snd row ! ?n)"
    using reg n row len by (intro map_of_zip_nth) simp_all
  moreover have "zip (map fst row) (map snd row) = row" by (rule zip_map_fst_snd)
  ultimately have v: "?vs ! ?n = render cell" using cell n row len by simp
  obtain rest ms where "rx_match (columns_rx st (columns st)) (join_with '','' ?vs) = (rest, captured st (columns st) ?vs) # ms"
    using columns_rx_captures [OF len plain] by blast
  then have s: "rx_search (columns_rx st (columns st)) (join_with '','' ?vs) = Some (captured st (columns st) ?vs)"
    by (simp add: rx_search_def)
  have m: "map_of (captured st (columns st) ?vs) c = (if c \<in> set fs then None else Some (render cell))"
    using map_of_captured [OF reg(1) len n(1), of st] n(2) v \<open>c \<in> set (columns st)\<close> st(2)
    by (simp add: search_time_fields_def indexed_fields_def)
  have i: "rx_search (index_rx ?n) (join_with '','' ?vs) = (if render cell = '''' then None else Some [('''', render cell)])"
    using index_rx_captures [OF plain, of ?n] n len v by simp
  show ?thesis using s m i index_rx_text search_rx_text [OF reg(2)] by (simp add: Let_def)
qed

text \<open>
  What the generator writes is what its check accepts: after a run without --check every file has the generated
  text, and a run with --check then reports nothing and exits with 0; --check itself never writes.
\<close>

theorem check_accepts_the_generated:
  assumes gen: "generate_main False W dumps dumps_indent2 SOURCETYPES d = (code, d')"
  shows "code = 0 \<and> generate_main True W dumps dumps_indent2 SOURCETYPES d' = (0, d') \<and>
         (\<exists>fs. generated_files dumps dumps_indent2 SOURCETYPES = Some fs \<and> (\<forall>(p, content) \<in> set fs. map_of (files d') p = Some content))"
proof -
  have keep: "snd (fold (refresh_file True W) fs (stale, e)) = e" for fs stale e
    by (induction fs arbitrary: stale) (auto simp: refresh_file_def split: prod.split)
  have written: "\<forall>(p, content) \<in> set fs. map_of (files (snd (fold (refresh_file False W) fs (stale, e)))) p = Some content"
    if "distinct (map fst fs)" for fs stale e using that
  proof (induction fs rule: rev_induct)
    case (snoc f fs)
    obtain stale' e' where e: "fold (refresh_file False W) fs (stale, e) = (stale', e')" by force
    have "\<forall>(p, content) \<in> set fs. map_of (files e') p = Some content \<and> p \<noteq> fst f"
    proof -
      have "fst f \<notin> set (map fst fs)" using snoc.prems by simp
      then have "\<forall>x \<in> set fs. fst x \<noteq> fst f" by (metis image_eqI set_map)
      moreover have "\<forall>(p, content) \<in> set fs. map_of (files e') p = Some content" using snoc e by simp
      ultimately show ?thesis by auto
    qed
    moreover have "map_of (files (snd (refresh_file False W f (stale', e')))) = (map_of (files e'))(fst f \<mapsto> snd f)"
      by (cases f) (auto simp: refresh_file_def update_conv' fun_eq_iff)
    ultimately show ?case using e by (cases f) auto
  qed simp
  have none: "fold (refresh_file True W) fs (stale, e) = (stale, e)" if "\<forall>(p, content) \<in> set fs. map_of (files e) p = Some content" for fs stale e
    using that by (induction fs) (auto simp: refresh_file_def)
  obtain fs where fs: "generated_files dumps dumps_indent2 SOURCETYPES = Some fs" "distinct (map fst fs)"
    using schema_consistent by (simp add: generated_files_def)
  obtain stale where f: "fold (refresh_file False W) fs ([], d) = (stale, d')" "code = 0"
    using gen fs(1) by (auto simp: generate_main_def split: prod.splits)
  then have all: "\<forall>(p, content) \<in> set fs. map_of (files d') p = Some content" using written [OF fs(2), of "[]" d] by simp
  with none [OF all, of "[]"] f(2) fs(1) show ?thesis by (auto simp: generate_main_def)
qed

section \<open>A row\<close>

definition cell_text :: "cell \<Rightarrow> string" where
  "cell_text v = (case v of CStr s \<Rightarrow> s | _ \<Rightarrow> '''')"

definition output_row :: row where
  "output_row = map (\<lambda>c. (c, CStr (if c = ''script_type'' then ''pubkeyhash'' else ''1''))) OUTPUT_COLUMNS"

lemma columns_extracted_once_witness:
  "rx_search (index_rx 8) (join_with '','' (map (\<lambda>p. cell_text (snd p)) output_row)) = Some [('''', ''pubkeyhash'')]"
proof -
  let ?st = "SOURCETYPES ! 3"
  have st: "?st \<in> set SOURCETYPES" "indexed ?st = Some [''block_height'', ''is_coinbase'', ''script_type'']"
    by (simp_all add: SOURCETYPES_def)
  have row: "map fst output_row = columns ?st" by (simp add: output_row_def SOURCETYPES_def o_def)
  have plain: "plain_row (map (\<lambda>p. cell_text (snd p)) output_row)" by code_simp
  have cell: "map_of output_row ''script_type'' = Some (CStr ''pubkeyhash'')" by code_simp
  have n: "column_index ?st ''script_type'' = 8" by code_simp
  show ?thesis using columns_extracted_once [OF st row plain cell] n by (auto simp: Let_def cell_text_def)
qed

lemma check_accepts_the_generated_witness:
  "fst (generate_main True (\<lambda>h rs. '''') (\<lambda>v. '''') (\<lambda>v. ''{}'') SOURCETYPES
     (snd (generate_main False (\<lambda>h rs. '''') (\<lambda>v. '''') (\<lambda>v. ''{}'') SOURCETYPES \<lparr>files = [], log = []\<rparr>))) = 0"
  using check_accepts_the_generated [OF prod.collapse [symmetric]] by simp


end
