(* ===== verification/Atomic_Write.thy ===== *)
theory Atomic_Write
  imports Csv_Files
begin

text \<open>
  btc_parser_app/common/atomic_write.py: the steps of \<open>atomic_replace\<close> on a file system that may lose power. A
  directory maps names to files; a write is sure to survive only once the file is synced, and a change of the
  directory only once the directory is. The other theories use the replacement as one effect, and this theory
  shows that it is one.
\<close>

section \<open>A file system that may lose power\<close>

type_synonym directory = "path \<Rightarrow> nat option"

text \<open>\<open>fs_dirs\<close> are the directories that may be found after a loss of power: the last one synced and all since.\<close>

record fs =
  fs_dir :: directory
  fs_dirs :: "directory list"
  fs_data :: "nat \<Rightarrow> string"
  fs_synced :: "nat \<Rightarrow> bool"
  fs_next :: nat

datatype fs_op =
    Mkstemp path
  | Write path string
  | Fsync path
  | Os_replace path path
  | Fsync_dir
  | Unlink path

definition set_dir :: "directory \<Rightarrow> fs \<Rightarrow> fs" where
  "set_dir d s = s\<lparr>fs_dir := d, fs_dirs := fs_dirs s @ [d]\<rparr>"

fun fs_step :: "fs_op \<Rightarrow> fs \<Rightarrow> fs" where
  "fs_step (Mkstemp p) s =
     set_dir ((fs_dir s)(p := Some (fs_next s)))
       (s\<lparr>fs_data := (fs_data s)(fs_next s := ''''), fs_synced := (fs_synced s)(fs_next s := False), fs_next := fs_next s + 1\<rparr>)"
| "fs_step (Write p t) s =
     (case fs_dir s p of None \<Rightarrow> s
      | Some i \<Rightarrow> s\<lparr>fs_data := (fs_data s)(i := fs_data s i @ t), fs_synced := (fs_synced s)(i := False)\<rparr>)"
| "fs_step (Fsync p) s = (case fs_dir s p of None \<Rightarrow> s | Some i \<Rightarrow> s\<lparr>fs_synced := (fs_synced s)(i := True)\<rparr>)"
| "fs_step (Os_replace p q) s = set_dir (((fs_dir s)(q := fs_dir s p))(p := None)) s"
| "fs_step Fsync_dir s = s\<lparr>fs_dirs := [fs_dir s]\<rparr>"
| "fs_step (Unlink p) s = set_dir ((fs_dir s)(p := None)) s"

definition fs_steps :: "fs_op list \<Rightarrow> fs \<Rightarrow> fs" where
  "fs_steps ops s = fold fs_step ops s"

text \<open>What may be found after a loss of power: one of the directories, and synced files as they were.\<close>

definition survives :: "fs \<Rightarrow> directory \<Rightarrow> (nat \<Rightarrow> string) \<Rightarrow> bool" where
  "survives s d data \<longleftrightarrow> d \<in> set (fs_dirs s) \<and> (\<forall>i. fs_synced s i \<longrightarrow> data i = fs_data s i)"

definition contents_at :: "directory \<Rightarrow> (nat \<Rightarrow> string) \<Rightarrow> path \<Rightarrow> string option" where
  "contents_at d data p = map_option data (d p)"

section \<open>The replacement\<close>

text \<open>
  The steps and the result, for a \<open>write\<close> that writes \<open>texts\<close> to the temporary file and then returns or raises.
\<close>

definition atomic_replace :: "path \<Rightarrow> path \<Rightarrow> string list \<Rightarrow> exn option \<Rightarrow> fs_op list \<times> (exn + unit)" where
  "atomic_replace p tmp texts raised =
     (case raised of
        None \<Rightarrow> ([Mkstemp tmp] @ map (Write tmp) texts @ [Fsync tmp, Os_replace tmp p, Fsync_dir], Inr ())
      | Some x \<Rightarrow> ([Mkstemp tmp] @ map (Write tmp) texts @ [Unlink tmp], Inl x))"

text \<open>Nothing is pending, and every file of the directory is synced.\<close>

definition settled_fs :: "fs \<Rightarrow> bool" where
  "settled_fs s \<longleftrightarrow> fs_dirs s = [fs_dir s] \<and> (\<forall>p i. fs_dir s p = Some i \<longrightarrow> fs_synced s i \<and> i < fs_next s)"

lemma fs_steps_Nil [simp]: "fs_steps [] s = s"
  by (simp add: fs_steps_def)

lemma fs_steps_Cons [simp]: "fs_steps (op # ops) s = fs_steps ops (fs_step op s)"
  by (simp add: fs_steps_def)

lemma fs_steps_append [simp]: "fs_steps (ops @ ops') s = fs_steps ops' (fs_steps ops s)"
  by (simp add: fs_steps_def)

lemma write_steps:
  "fs_dir s tmp = Some i \<Longrightarrow>
   fs_steps (map (Write tmp) texts) s =
     s\<lparr>fs_data := (fs_data s)(i := fs_data s i @ concat texts),
       fs_synced := (if texts = [] then fs_synced s else (fs_synced s)(i := False))\<rparr>"
  by (induction texts arbitrary: s) auto

text \<open>The temporary file is a new one, written but not synced; the rest is as before.\<close>

definition after_write :: "path \<Rightarrow> string \<Rightarrow> fs \<Rightarrow> fs" where
  "after_write tmp text s =
     s\<lparr>fs_dir := (fs_dir s)(tmp := Some (fs_next s)), fs_dirs := fs_dirs s @ [(fs_dir s)(tmp := Some (fs_next s))],
       fs_data := (fs_data s)(fs_next s := text), fs_synced := (fs_synced s)(fs_next s := False), fs_next := fs_next s + 1\<rparr>"

lemma steps_of_write: "fs_steps (Mkstemp tmp # map (Write tmp) texts) s = after_write tmp (concat texts) s"
  by (simp add: write_steps [where i = "fs_next s"] set_dir_def after_write_def)

lemma take_steps:
  "take k (Mkstemp tmp # map (Write tmp) texts @ rest) =
     (if k = 0 then [] else Mkstemp tmp # map (Write tmp) (take (k - 1) texts) @ take (k - 1 - length texts) rest)"
  by (cases k) (simp_all add: take_map)

text \<open>Up to the replacement only the temporary name can be new, and every other file is as before.\<close>

lemma settled_file: "settled_fs s \<Longrightarrow> fs_dir s q = Some i \<Longrightarrow> fs_synced s i \<and> i < fs_next s"
  by (cases q) (simp add: settled_fs_def)

lemma old_dirs:
  assumes s: "settled_fs s" and d: "d \<in> {fs_dir s, (fs_dir s)(tmp := Some (fs_next s)), (fs_dir s)(tmp := None)}"
    and data: "\<And>i. i < fs_next s \<Longrightarrow> fs_synced s i \<Longrightarrow> data i = fs_data s i" and q: "q \<noteq> tmp"
  shows "contents_at d data q = contents_at (fs_dir s) (fs_data s) q"
proof (cases "fs_dir s q")
  case (Some i)
  with settled_file [OF s this] d data q show ?thesis by (auto simp: contents_at_def)
qed (use d q in \<open>auto simp: contents_at_def\<close>)

lemma survives_write:
  assumes s: "settled_fs s" and surv: "survives (after_write tmp text s) d data" and q: "q \<noteq> tmp"
  shows "contents_at d data q = contents_at (fs_dir s) (fs_data s) q"
  using surv s by (intro old_dirs [OF s _ _ q]) (auto simp: survives_def after_write_def settled_fs_def)

lemma survives_raise:
  assumes s: "settled_fs s" and surv: "survives (fs_step (Unlink tmp) (after_write tmp text s)) d data" and q: "q \<noteq> tmp"
  shows "contents_at d data q = contents_at (fs_dir s) (fs_data s) q"
  using surv s by (intro old_dirs [OF s _ _ q]) (auto simp: survives_def after_write_def settled_fs_def set_dir_def)

text \<open>From the sync on, the new file survives, and the name leads to it or to the old one.\<close>

lemma survives_replace:
  assumes s: "settled_fs s" and surv: "survives (fs_steps (take j [Fsync tmp, Os_replace tmp p, Fsync_dir]) (after_write tmp text s)) d data"
    and p: "p \<noteq> tmp" and q: "q \<noteq> tmp"
  shows "contents_at d data q = contents_at (fs_dir s) (fs_data s) q \<or> q = p \<and> contents_at d data q = Some text"
    and "3 \<le> j \<Longrightarrow> contents_at d data p = Some text"
proof -
  let ?n = "fs_next s"
  let ?new = "((fs_dir s)(p := Some ?n))(tmp := None)"
  have synced: "data i = fs_data s i" if "i < ?n" "fs_synced s i" for i
    using surv that by (cases "j = 0"; cases "j = 1"; cases "j = 2")
      (auto simp: survives_def after_write_def set_dir_def take_Cons' split: if_splits)
  have "d \<in> {fs_dir s, (fs_dir s)(tmp := Some ?n), (fs_dir s)(tmp := None)} \<or> d = ?new \<and> data ?n = text"
    using surv s p by (cases "j = 0"; cases "j = 1"; cases "j = 2")
      (auto simp: survives_def after_write_def set_dir_def take_Cons' settled_fs_def split: if_splits)
  then show "contents_at d data q = contents_at (fs_dir s) (fs_data s) q \<or> q = p \<and> contents_at d data q = Some text"
  proof
    assume "d \<in> {fs_dir s, (fs_dir s)(tmp := Some ?n), (fs_dir s)(tmp := None)}"
    then show ?thesis using old_dirs [OF s _ synced q] by blast
  next
    assume "d = ?new \<and> data ?n = text"
    then show ?thesis using synced settled_file [OF s, of q] q by (cases "q = p"; cases "fs_dir s q") (auto simp: contents_at_def)
  qed
  assume "3 \<le> j"
  then have "take j [Fsync tmp, Os_replace tmp p, Fsync_dir] = [Fsync tmp, Os_replace tmp p, Fsync_dir]" by simp
  with surv p show "contents_at d data p = Some text"
    by (auto simp: survives_def after_write_def set_dir_def contents_at_def)
qed

text \<open>
  C13. Replacing a file is all or nothing: whenever the power fails, after any step and within the writing, the path
  holds its old contents or all of the new ones and every other file is untouched; when the call returned, it holds
  the new ones, and when the writing raised, nothing changed and the temporary file is gone.
\<close>

theorem replacement_is_all_or_nothing:
  assumes s: "settled_fs s" and tmp: "fs_dir s tmp = None" "p \<noteq> tmp"
    and run: "atomic_replace p tmp texts raised = (ops, result)"
    and crash: "survives (fs_steps (take k ops) s) d data" and q: "q \<noteq> tmp"
  shows "(contents_at d data q = contents_at (fs_dir s) (fs_data s) q \<or>
            q = p \<and> raised = None \<and> contents_at d data q = Some (concat texts)) \<and>
         (length ops \<le> k \<and> result = Inr () \<longrightarrow> contents_at d data p = Some (concat texts)) \<and>
         (result \<noteq> Inr () \<longrightarrow> fs_dir (fs_steps ops s) = fs_dir s)"
proof (cases raised)
  case None
  let ?rest = "[Fsync tmp, Os_replace tmp p, Fsync_dir]"
  from None run have ops: "ops = Mkstemp tmp # map (Write tmp) texts @ ?rest" "result = Inr ()" by (auto simp: atomic_replace_def)
  let ?j = "k - 1 - length texts"
  consider (start) "k = 0" | (writing) "0 < k" "k - 1 < length texts" | (written) "0 < k" "length texts \<le> k - 1" by linarith
  then show ?thesis
  proof cases
    case start
    then show ?thesis using crash s None ops old_dirs [OF s _ _ q, where d = d and data = data] by (auto simp: survives_def settled_fs_def)
  next
    case writing
    then have "fs_steps (take k ops) s = after_write tmp (concat (take (k - 1) texts)) s"
      unfolding ops(1) take_steps using steps_of_write [of tmp "take (k - 1) texts" s] by simp
    with crash survives_write [OF s _ q] writing ops show ?thesis by auto
  next
    case written
    then have "fs_steps (take k ops) s = fs_steps (take ?j ?rest) (after_write tmp (concat texts) s)"
      unfolding ops(1) take_steps using steps_of_write [of tmp texts s] by (simp del: fs_steps_Cons) (simp only: fs_steps_append append_Cons [symmetric])
    with crash have c: "survives (fs_steps (take ?j ?rest) (after_write tmp (concat texts) s)) d data" by simp
    have "length ops \<le> k \<Longrightarrow> 3 \<le> ?j" using ops(1) by simp
    with survives_replace [OF s c tmp(2) q] None ops(2) show ?thesis by blast
  qed
next
  case (Some x)
  from Some run have ops: "ops = Mkstemp tmp # map (Write tmp) texts @ [Unlink tmp]" "result = Inl x" by (auto simp: atomic_replace_def)
  let ?j = "k - 1 - length texts"
  have whole: "fs_steps ops s = fs_step (Unlink tmp) (after_write tmp (concat texts) s)"
    unfolding ops(1) using steps_of_write [of tmp texts s] by (metis append_Cons fs_steps_Cons fs_steps_Nil fs_steps_append)
  then have gone: "fs_dir (fs_steps ops s) = fs_dir s" using tmp(1) by (auto simp: after_write_def set_dir_def)
  consider (start) "k = 0" | (writing) "0 < k" "k - 1 \<le> length texts" | (unlinked) "length texts + 2 \<le> k" by linarith
  then have "contents_at d data q = contents_at (fs_dir s) (fs_data s) q"
  proof cases
    case start
    then show ?thesis using crash s old_dirs [OF s _ _ q, where d = d and data = data] by (auto simp: survives_def settled_fs_def)
  next
    case writing
    then have "fs_steps (take k ops) s = after_write tmp (concat (take (k - 1) texts)) s"
      unfolding ops(1) take_steps using steps_of_write [of tmp "take (k - 1) texts" s] by simp
    with crash survives_write [OF s _ q] show ?thesis by simp
  next
    case unlinked
    then have "take k ops = ops" using ops(1) by simp
    with crash whole survives_raise [OF s _ q] show ?thesis by simp
  qed
  with gone ops(2) show ?thesis by simp
qed

definition demo_fs :: fs where
  "demo_fs = \<lparr>fs_dir = [(''state'', ''current.csv'') \<mapsto> 0], fs_dirs = [[(''state'', ''current.csv'') \<mapsto> 0]],
     fs_data = (\<lambda>i. ''old''), fs_synced = (\<lambda>i. i = 0), fs_next = 1\<rparr>"

text \<open>The power fails after the rename and before the directory is synced, and the old directory comes back.\<close>

lemma replacement_is_all_or_nothing_witness:
  "contents_at (fs_dir demo_fs) (\<lambda>i. if i = 0 then ''old'' else ''new'') (''state'', ''current.csv'') \<in> {Some ''old'', Some ''new''}"
proof -
  let ?p = "(''state'', ''current.csv'')" and ?tmp = "(''state'', ''.current.csv.x.tmp'')" and ?data = "\<lambda>i :: nat. if i = 0 then ''old'' else ''new''"
  have s: "settled_fs demo_fs" by (auto simp: settled_fs_def demo_fs_def split: if_splits)
  have tmp: "fs_dir demo_fs ?tmp = None" "?p \<noteq> ?tmp" by (simp_all add: demo_fs_def)
  have run: "atomic_replace ?p ?tmp [''ne'', ''w''] None =
      ([Mkstemp ?tmp, Write ?tmp ''ne'', Write ?tmp ''w'', Fsync ?tmp, Os_replace ?tmp ?p, Fsync_dir], Inr ())"
    by (simp add: atomic_replace_def)
  have crash: "survives (fs_steps (take 5 [Mkstemp ?tmp, Write ?tmp ''ne'', Write ?tmp ''w'', Fsync ?tmp, Os_replace ?tmp ?p, Fsync_dir]) demo_fs)
      (fs_dir demo_fs) ?data"
    by (auto simp: survives_def demo_fs_def set_dir_def)
  have "contents_at (fs_dir demo_fs) (fs_data demo_fs) ?p = Some ''old''" by (simp add: contents_at_def demo_fs_def)
  with replacement_is_all_or_nothing [OF s tmp run crash tmp(2)] show ?thesis by auto
qed


end
