(* ===== verification/Command_Line.thy ===== *)
theory Command_Line
  imports Config
begin

text \<open>
  btc_parser_app/cli.py: the configuration is loaded, the command dispatched, and the exit code chosen. What
  argparse returns is the argument; the services are actions over one state of the process, their models are in
  the other theories.
\<close>

datatype command =
    Rpc_ingest
  | Stale_blocks_ingest
  | Mempool_watch
  | Mempool_watch_check string "string option"
  | Api_poll
  | Update_pools_dataset

record ('s, 'm) services =
  sv_configure_logging :: "logging_config \<Rightarrow> string option \<Rightarrow> ('s, unit) action"
  sv_rpc_ingest :: "app_config \<Rightarrow> ('s, unit) action"
  sv_stale_blocks :: "app_config \<Rightarrow> ('s, unit) action"
  sv_mempool_watch :: "app_config \<Rightarrow> ('s, unit) action"
  sv_check_single_tx :: "app_config \<Rightarrow> string \<Rightarrow> string option \<Rightarrow> ('s, 'm list) action"
  sv_run_poller :: "mempool_api_config \<Rightarrow> ('s, int) action"
  sv_refresh_pools :: "pools_config \<Rightarrow> ('s, unit) action"

text \<open>The clause \<open>except (ConfigError, ValueError, TypeError, yaml.YAMLError)\<close>.\<close>

definition config_failed :: "(exn \<Rightarrow> bool) \<Rightarrow> exn \<Rightarrow> bool" where
  "config_failed is_yaml_error x \<longleftrightarrow>
     (case x of ConfigError m \<Rightarrow> True | ValueError m \<Rightarrow> True | TypeError \<Rightarrow> True | _ \<Rightarrow> is_yaml_error x)"

fun check_failed :: "exn \<Rightarrow> bool" where
  "check_failed (RpcCliError m) = True"
| "check_failed (RpcError m) = True"
| "check_failed (OSError m) = True"
| "check_failed (ValueError m) = True"
| "check_failed (CsvError m) = True"
| "check_failed _ = False"

fun update_failed :: "exn \<Rightarrow> bool" where
  "update_failed (RateLimited m) = True"
| "update_failed (FetchError m) = True"
| "update_failed (ValueError m) = True"
| "update_failed _ = False"

fun command_name :: "command \<Rightarrow> string" where
  "command_name Rpc_ingest = ''rpc-ingest''"
| "command_name Stale_blocks_ingest = ''stale-blocks-ingest''"
| "command_name Mempool_watch = ''mempool-watch''"
| "command_name (Mempool_watch_check txid blockhash) = ''mempool-watch-check''"
| "command_name Api_poll = ''api-poll''"
| "command_name Update_pools_dataset = ''update-pools-dataset''"

text \<open>The commands after the diagnostic one, with the log file of the command.\<close>

fun run_command :: "('s, 'm) services \<Rightarrow> app_config \<Rightarrow> command \<Rightarrow> ('s, int) action" where
  "run_command sv c Rpc_ingest = thenA (sv_rpc_ingest sv c) (ret 0)"
| "run_command sv c Stale_blocks_ingest = thenA (sv_stale_blocks sv c) (ret 0)"
| "run_command sv c Mempool_watch = thenA (sv_mempool_watch sv c) (ret 0)"
| "run_command sv c Api_poll = sv_run_poller sv (ac_mempool_api c)"
| "run_command sv c Update_pools_dataset =
     catchA (thenA (sv_refresh_pools sv (ac_pools c)) (ret 0)) update_failed (\<lambda>_. ret 1)"
| "run_command sv c (Mempool_watch_check txid blockhash) = ret 2"

definition cli_main ::
    "(exn \<Rightarrow> bool) \<Rightarrow> ('s, 'm) services \<Rightarrow> (pyval \<Rightarrow> string) \<Rightarrow> pure_path \<Rightarrow> (exn + pyval) option \<Rightarrow> command \<Rightarrow> ('s, int) action" where
  "cli_main is_yaml_error sv show home file cmd =
     (case load_config show home file of
        Inl x \<Rightarrow> if config_failed is_yaml_error x then ret 2 else raise x
      | Inr c \<Rightarrow>
          (case cmd of
             Mempool_watch_check txid blockhash \<Rightarrow>
               thenA (sv_configure_logging sv (ac_logging c) None)
                 (catchA (thenA (sv_check_single_tx sv c txid blockhash) (ret 0)) check_failed (\<lambda>_. ret 1))
           | _ \<Rightarrow> thenA (sv_configure_logging sv (ac_logging c) (Some (command_name cmd))) (run_command sv c cmd)))"

section \<open>Exit codes\<close>

text \<open>A configuration that is refused starts nothing: no log file is opened and no service runs.\<close>

lemma refused_config_starts_nothing:
  assumes "load_config show home file = Inl x"
  shows "cli_main y sv show home file cmd s = (if config_failed y x then Inr 2 else Inl x, s)"
  using assms by (simp add: cli_main_def)

text \<open>Every other exit code is 0, 1 where a failure is caught, or the poller's.\<close>

lemma exit_codes:
  assumes "load_config show home file = Inr c" and "cli_main y sv show home file cmd s = (Inr code, s')" and "cmd \<noteq> Api_poll"
  shows "code = 0 \<or> code = 1 \<and> (cmd = Update_pools_dataset \<or> (\<exists>txid b. cmd = Mempool_watch_check txid b))"
  using assms by (cases cmd)
    (auto simp: cli_main_def thenA_def bindA_def catchA_def split: prod.splits sum.splits if_splits)

text \<open>
  A section that is a scalar raises an AttributeError, which the clause does not name: the file \<open>logging: INFO\<close> ends
  in a traceback instead of the message and the exit code 2.
\<close>

lemma scalar_section_escapes:
  "load_config show home (Some (Inr (VMap [(''logging'', VStr ''INFO'')]))) = Inl AttributeError \<and>
   \<not> config_failed (\<lambda>x. False) AttributeError"
  by (simp add: load_config_def load_logging_def check_def get_or_none_def config_failed_def bindE_def)

end
