(* ===== verification/Dashboard.thy ===== *)
theory Dashboard
  imports Export_Schema
begin

text \<open>
  splunk/dashboards/build_btc_mempool_explorer.py: the bands of the charts, the searches and visualizations as they
  are collected, the grid of a tab, the copies of visualizations that stand on several tabs, the checks of the whole,
  and the texts of the app. The searches and the tabs themselves, which are literal, are arguments; a failed assert,
  or a missing key, is None.
\<close>

section \<open>Bands\<close>

definition FEE_BANDS :: "(string \<times> int \<times> int option \<times> string) list" where
  "FEE_BANDS =
     [(''<1'', 0, Some 1, ''#557d00''),
      (''1-2'', 1, Some 2, ''#5d7d01''),
      (''2-3'', 2, Some 3, ''#637d02''),
      (''3-4'', 3, Some 4, ''#6d7d04''),
      (''4-6'', 4, Some 6, ''#757d05''),
      (''6-8'', 6, Some 8, ''#867d08''),
      (''8-10'', 8, Some 10, ''#8c7d09''),
      (''10-15'', 10, Some 15, ''#957d0b''),
      (''15-20'', 15, Some 20, ''#a67d0e''),
      (''20-30'', 20, Some 30, ''#b27d10''),
      (''30-50'', 30, Some 50, ''#bf7815''),
      (''50-100'', 50, Some 100, ''#bd5c28''),
      (''100-200'', 100, Some 200, ''#bb3d3c''),
      (''200+'', 200, None, ''#b30e55'')]"

definition AGE_BANDS :: "(string \<times> int option \<times> string) list" where
  "AGE_BANDS =
     [(''< 1 day'', Some 144, ''#1bd8f4''),
      (''1 day - 1 week'', Some 1008, ''#2fa6e0''),
      (''1 week - 1 month'', Some 4320, ''#4a68b9''),
      (''1 - 6 months'', Some 26280, ''#653b9c''),
      (''6 - 12 months'', Some 52560, ''#9339f4''),
      (''1 - 2 years'', Some 105120, ''#c03fb0''),
      (''2 - 5 years'', Some 262800, ''#e0607e''),
      (''5+ years'', None, ''#f7931a'')]"

text \<open>The arms \<open>field<bound, "label"\<close> of an SPL \<open>case\<close>, and the label of what no arm takes.\<close>

definition case_arms :: "string \<Rightarrow> (string \<times> int option) list \<Rightarrow> string list" where
  "case_arms field bands =
     List.map_filter (\<lambda>(label, hi). case hi of None \<Rightarrow> None
       | Some h \<Rightarrow> Some (field @ ''<'' @ decimal (nat h) @ '', '' @ [CHR 0x22] @ label @ [CHR 0x22])) bands"

definition fee_band_case :: string where
  "fee_band_case =
     ''case('' @ join_with '', '' (case_arms ''fr'' (map (\<lambda>(label, lo, hi, color). (label, hi)) FEE_BANDS)) @
     '', true(), '' @ [CHR 0x22] @ ''200+'' @ [CHR 0x22] @ '')''"

definition age_case :: string where
  "age_case =
     ''case('' @ join_with '', '' (case_arms ''age'' (map (\<lambda>(label, hi, color). (label, hi)) AGE_BANDS)) @
     '', true(), '' @ [CHR 0x22] @ fst (last AGE_BANDS) @ [CHR 0x22] @ '')''"

definition band_fields :: "string list \<Rightarrow> string" where
  "band_fields labels = join_with '' '' (map (\<lambda>l. [CHR 0x22] @ l @ [CHR 0x22]) labels)"

definition fee_range_context :: "(string \<times> pyval) list list" where
  "fee_range_context = map (\<lambda>(label, lo, hi, color).
     [(''value'', VStr color)] @ (if lo \<noteq> 0 then [(''from'', VInt lo)] else []) @
     (case hi of None \<Rightarrow> [] | Some h \<Rightarrow> [(''to'', VInt h)])) FEE_BANDS"

text \<open>What the \<open>case\<close> of a fee rate evaluates to: the label of the first arm that holds.\<close>

fun first_band :: "rat \<Rightarrow> (string \<times> int \<times> int option \<times> string) list \<Rightarrow> string option" where
  "first_band fr [] = None"
| "first_band fr ((label, lo, None, color) # bands) = first_band fr bands"
| "first_band fr ((label, lo, Some h, color) # bands) = (if fr < of_int h then Some label else first_band fr bands)"

definition fee_band :: "rat \<Rightarrow> string" where
  "fee_band fr = (case first_band fr FEE_BANDS of None \<Rightarrow> ''200+'' | Some l \<Rightarrow> l)"

section \<open>Searches and visualizations\<close>

datatype data_source =
    Search string string "(string \<times> pyval) list"
  | Chain string string string
  | Saved_search string string

record visualization =
  vz_type :: string
  vz_title :: "string option"
  vz_source :: "string option"
  vz_description :: "string option"
  vz_options :: "(string \<times> pyval) list"

record dashboard =
  db_sources :: "(string, data_source) pydict"
  db_viz :: "(string, visualization) pydict"
  db_saved :: "(string \<times> string \<times> string \<times> (string \<times> string) list) list"
  db_kv :: "(string, (string \<times> string) list) pydict"

text \<open>\<open>query.strip()\<close> is a parameter here, as the queries are; an empty title or description is left out.\<close>

definition add_source :: "string \<Rightarrow> data_source \<Rightarrow> dashboard \<Rightarrow> dashboard" where
  "add_source i d b = b\<lparr>db_sources := AList.update i d (db_sources b)\<rparr>"

definition nonempty :: "string option \<Rightarrow> string option" where
  "nonempty x = (if x = Some '''' then None else x)"

definition add_viz ::
    "string \<Rightarrow> string \<Rightarrow> string option \<Rightarrow> string option \<Rightarrow> string option \<Rightarrow> (string \<times> pyval) list \<Rightarrow> dashboard \<Rightarrow> dashboard" where
  "add_viz i vtype title source descr options b =
     b\<lparr>db_viz := AList.update i \<lparr>vz_type = vtype, vz_title = nonempty title, vz_source = nonempty source,
        vz_description = nonempty descr, vz_options = options\<rparr> (db_viz b)\<rparr>"

definition single_options :: "string \<Rightarrow> string option \<Rightarrow> bool \<Rightarrow> int option \<Rightarrow> string option \<Rightarrow> (string \<times> pyval) list" where
  "single_options field unit unit_before precision color =
     [(''majorValue'', VStr (''> primary | seriesByName('' @ [CHR 0x27] @ field @ [CHR 0x27] @ '') | lastPoint()'')),
      (''sparklineDisplay'', VStr ''off''), (''trendDisplay'', VStr ''off'')] @
     (case nonempty unit of None \<Rightarrow> []
      | Some u \<Rightarrow> [(''unit'', VStr u), (''unitPosition'', VStr (if unit_before then ''before'' else ''after''))]) @
     (case precision of None \<Rightarrow> [] | Some p \<Rightarrow> [(''numberPrecision'', VInt p)]) @
     (case nonempty color of None \<Rightarrow> [] | Some c \<Rightarrow> [(''majorColor'', VStr c)])"

definition single ::
    "string \<Rightarrow> string \<Rightarrow> string \<Rightarrow> string \<Rightarrow> string option \<Rightarrow> bool \<Rightarrow> int option \<Rightarrow> string option \<Rightarrow> string option \<Rightarrow> dashboard \<Rightarrow> dashboard" where
  "single i title source field unit unit_before precision color descr =
     add_viz i ''splunk.singlevalue'' (Some title) (Some source) descr (single_options field unit unit_before precision color)"

text \<open>\<open>has_token\<close> is the search of \<open>DASHBOARD_TOKEN\<close> in a query.\<close>

definition saved_search ::
    "(string \<Rightarrow> bool) \<Rightarrow> string \<Rightarrow> string \<Rightarrow> string \<Rightarrow> (string \<times> string) list \<Rightarrow> dashboard \<Rightarrow> dashboard option" where
  "saved_search has_token nm descr query settings b =
     (if has_token query then None else Some (b\<lparr>db_saved := db_saved b @ [(nm, descr, query, settings)]\<rparr>))"

definition UPDATE :: "(string \<times> string) list" where
  "UPDATE = [(''enableSched'', ''1''), (''cron_schedule'', ''15 * * * *''), (''realtime_schedule'', ''0''),
     (''dispatch.earliest_time'', ''-7d@d''), (''dispatch.latest_time'', ''now'')]"

definition REBUILD :: "(string \<times> string) list" where
  "REBUILD = [(''enableSched'', ''0''), (''dispatch.earliest_time'', ''0''), (''dispatch.latest_time'', ''now'')]"

definition incremental ::
    "(string \<Rightarrow> bool) \<Rightarrow> string \<Rightarrow> string \<Rightarrow> (string \<Rightarrow> bool \<Rightarrow> string) \<Rightarrow> (string \<times> string) list \<Rightarrow> dashboard \<Rightarrow> dashboard option" where
  "incremental has_token nm descr build kv_fields b =
     (case saved_search has_token (nm @ ''_update'') (descr @ '' - hourly merge of the last hour of indexed data'')
        (build ''`btc_rec_window`'' True) UPDATE (b\<lparr>db_kv := AList.update nm kv_fields (db_kv b)\<rparr>) of
        None \<Rightarrow> None
      | Some b' \<Rightarrow>
          saved_search has_token (nm @ ''_rebuild'') (descr @ '' - full rebuild (run by hand after install or a backfill; hours)'')
            (build '''' False) REBUILD b')"

definition newline :: string where
  "newline = [char_of (10 :: nat)]"

definition merge_line :: "string \<Rightarrow> bool \<Rightarrow> string" where
  "merge_line nm merge =
     (if merge then ''| append [| inputlookup '' @ nm @ '']'' @ newline @ ''| fields - _key'' @ newline else '''')"

section \<open>The grid of a tab\<close>

definition W :: int where
  "W = 1440"

datatype row_items =
    Names "string list"
  | Sized "(string \<times> int) list"

record block =
  bl_item :: string
  bl_x :: int
  bl_y :: int
  bl_w :: int
  bl_h :: int

record layout =
  ly_height :: int
  ly_structure :: "block list"

definition equal_widths :: "nat \<Rightarrow> int list" where
  "equal_widths n = (let ws = replicate n (W div int n) in ws[n - 1 := ws ! (n - 1) + (W - sum_list ws)])"

definition sized :: "row_items \<Rightarrow> (string \<times> int) list" where
  "sized items = (case items of Sized its \<Rightarrow> its | Names [] \<Rightarrow> [] | Names xs \<Rightarrow> zip xs (equal_widths (length xs)))"

fun row_blocks :: "int \<Rightarrow> int \<Rightarrow> int \<Rightarrow> (string \<times> int) list \<Rightarrow> block list" where
  "row_blocks x y h [] = []"
| "row_blocks x y h ((item, w) # items) =
     \<lparr>bl_item = item, bl_x = x, bl_y = y, bl_w = w, bl_h = h\<rparr> # row_blocks (x + w) y h items"

fun grid_from :: "int \<Rightarrow> block list \<Rightarrow> (int \<times> row_items) list \<Rightarrow> layout option" where
  "grid_from y blks [] = Some \<lparr>ly_height = y, ly_structure = blks\<rparr>"
| "grid_from y blks ((h, items) # rows) =
     (if sum_list (map snd (sized items)) \<noteq> W then None
      else grid_from (y + h) (blks @ row_blocks 0 y h (sized items)) rows)"

definition grid :: "(int \<times> row_items) list \<Rightarrow> layout option" where
  "grid rows = grid_from 0 [] rows"

section \<open>Copies\<close>

text \<open>One block of the loop over all tabs: the items seen and the visualizations go along.\<close>

fun clone_blocks ::
    "block list \<Rightarrow> string set \<Rightarrow> (string, visualization) pydict \<Rightarrow> (block list \<times> string set \<times> (string, visualization) pydict) option" where
  "clone_blocks [] seen viz = Some ([], seen, viz)"
| "clone_blocks (b # bs) seen viz =
     (let item = bl_item b; clone = item @ ''_2'' in
      if item \<notin> seen then
        map_option (\<lambda>(bs', s, v). (b # bs', s, v)) (clone_blocks bs (insert item seen) viz)
      else if map_of viz clone \<noteq> None then None
      else case map_of viz item of None \<Rightarrow> None
           | Some v \<Rightarrow> map_option (\<lambda>(bs', s, v'). (b\<lparr>bl_item := clone\<rparr> # bs', s, v'))
                         (clone_blocks bs (insert clone seen) (AList.update clone v viz)))"

section \<open>The checks and the texts\<close>

definition chain_extends :: "data_source \<Rightarrow> string option" where
  "chain_extends d = (case d of Chain nm base query \<Rightarrow> Some base | _ \<Rightarrow> None)"

definition saved_ref :: "data_source \<Rightarrow> string option" where
  "saved_ref d = (case d of Saved_search nm ref \<Rightarrow> Some ref | _ \<Rightarrow> None)"

text \<open>The asserts before the files are written, on the items of all tabs.\<close>

definition self_checks :: "string list \<Rightarrow> dashboard \<Rightarrow> bool" where
  "self_checks items b \<longleftrightarrow>
     set items = fst ` set (db_viz b) \<and>
     list_all (\<lambda>(i, v). case vz_source v of None \<Rightarrow> True | Some r \<Rightarrow> r \<in> fst ` set (db_sources b)) (db_viz b) \<and>
     list_all (\<lambda>(i, d). case chain_extends d of None \<Rightarrow> True | Some r \<Rightarrow> r \<in> fst ` set (db_sources b)) (db_sources b) \<and>
     set (List.map_filter (\<lambda>(i, v). vz_source v) (db_viz b)) \<union> set (List.map_filter (\<lambda>(i, d). chain_extends d) (db_sources b)) =
       fst ` set (db_sources b) \<and>
     set (List.map_filter (\<lambda>(i, d). saved_ref d) (db_sources b)) \<subseteq> fst ` set (db_saved b)"

definition HEADER :: string where
  "HEADER = ''# Generated by splunk/dashboards/build_btc_mempool_explorer.py - edit that script, not this file.'' @ newline"

definition conf_text :: "(string \<times> (string \<times> string) list) list \<Rightarrow> string" where
  "conf_text stanzas =
     HEADER @ concat (map (\<lambda>(stanza, settings).
       newline @ ''['' @ stanza @ '']'' @ newline @
       concat (map (\<lambda>(key, value). key @ '' = '' @ join_with ('' '' @ [CHR 0x5C] @ newline) (splitlines value) @ newline) settings)) stanzas)"

definition app_confs :: "dashboard \<Rightarrow> (string \<times> string) list" where
  "app_confs b =
     [(''savedsearches.conf'', conf_text (map (\<lambda>(nm, descr, q, settings).
         (nm, [(''description'', descr), (''search'', q)] @ settings)) (db_saved b))),
      (''macros.conf'', conf_text [(''btc_index'', [(''definition'', ''index=btc_parser'')]),
         (''btc_rec_window'', [(''definition'', ''_index_earliest=-1h@h _index_latest=@h'')])]),
      (''collections.conf'', conf_text (map (\<lambda>(nm, fs). (nm, map (\<lambda>(f, t). (''field.'' @ f, t)) fs)) (db_kv b))),
      (''transforms.conf'', conf_text (map (\<lambda>(nm, fs).
         (nm, [(''external_type'', ''kvstore''), (''collection'', nm), (''fields_list'', join_with '', '' (''_key'' # map fst fs))])) (db_kv b) @
         [(''sanctioned_addresses'', [(''filename'', ''sanctioned_addresses.csv'')])]))]"

text \<open>The sanctions list as a lookup: a comma at the end of a line is dropped.\<close>

definition lookup_text :: "string \<Rightarrow> string" where
  "lookup_text text =
     join_with newline (map (\<lambda>l. if l \<noteq> [] \<and> last l = CHR '','' then butlast l else l) (splitlines text)) @ newline"

section \<open>The bands meet\<close>

definition meets :: "string \<times> int \<times> int option \<times> string \<Rightarrow> string \<times> int \<times> int option \<times> string \<Rightarrow> bool" where
  "meets b b' \<longleftrightarrow> fst (snd (snd b)) = Some (fst (snd b'))"

lemma fee_band_range:
  assumes "0 \<le> fr"
  shows "\<exists>lo hi color. (fee_band fr, lo, hi, color) \<in> set FEE_BANDS \<and> of_int lo \<le> fr \<and> (case hi of None \<Rightarrow> True | Some h \<Rightarrow> fr < of_int h)"
proof -
  have step: "\<lbrakk>successively meets bands; bands \<noteq> []; of_int (fst (snd (hd bands))) \<le> fr;
      fst (snd (snd (last bands))) = None\<rbrakk> \<Longrightarrow>
    \<exists>lo hi color. ((case first_band fr bands of None \<Rightarrow> fst (last bands) | Some l \<Rightarrow> l), lo, hi, color) \<in> set bands \<and>
      of_int lo \<le> fr \<and> (case hi of None \<Rightarrow> True | Some h \<Rightarrow> fr < of_int h)" for bands
  proof (induction fr bands rule: first_band.induct)
    case (2 fr label lo color bands)
    then show ?case by (cases bands) (auto simp: meets_def)
  next
    case (3 fr label lo h color bands)
    show ?case
    proof (cases "fr < of_int h")
      case True
      with 3 show ?thesis by (intro exI [of _ lo] exI [of _ "Some h"] exI [of _ color]) simp
    next
      case False
      from 3(5) have ne: "bands \<noteq> []" by auto
      then obtain l' a' h' c' bands' where bands: "bands = (l', a', h', c') # bands'" by (cases bands) auto
      have "successively meets bands" "of_int (fst (snd (hd bands))) \<le> fr"
          "fst (snd (snd (last bands))) = None"
        using 3(2,5) False unfolding bands by (simp_all add: meets_def)
      with 3(1) [OF False] ne obtain lo' hi' color' where b:
        "((case first_band fr bands of None \<Rightarrow> fst (last bands) | Some l \<Rightarrow> l), lo', hi', color') \<in> set bands"
        "of_int lo' \<le> fr" "case hi' of None \<Rightarrow> True | Some h \<Rightarrow> fr < of_int h" by blast
      have "first_band fr ((label, lo, Some h, color) # bands) = first_band fr bands"
        "last ((label, lo, Some h, color) # bands) = last bands" using False ne by simp_all
      with b show ?thesis by (intro exI [of _ lo'] exI [of _ hi'] exI [of _ color']) (simp only: list.set, blast)
    qed
  qed simp
  have "successively meets FEE_BANDS" "FEE_BANDS \<noteq> []" "fst (snd (hd FEE_BANDS)) = 0"
      "fst (snd (snd (last FEE_BANDS))) = None" "fst (last FEE_BANDS) = ''200+''"
    by (simp_all add: FEE_BANDS_def meets_def)
  note bands = this
  from bands(5) have "fee_band fr = (case first_band fr FEE_BANDS of None \<Rightarrow> fst (last FEE_BANDS) | Some l \<Rightarrow> l)"
    by (simp add: fee_band_def split: option.split)
  moreover have "of_int (fst (snd (hd FEE_BANDS))) \<le> fr" using bands(3) assms by simp
  ultimately show ?thesis using step [OF bands(1,2) _ bands(4)] by simp
qed

section \<open>The grid\<close>

definition covers :: "int \<Rightarrow> int \<Rightarrow> block \<Rightarrow> bool" where
  "covers px py b \<longleftrightarrow> bl_x b \<le> px \<and> px < bl_x b + bl_w b \<and> bl_y b \<le> py \<and> py < bl_y b + bl_h b"

definition row_ok :: "int \<times> row_items \<Rightarrow> bool" where
  "row_ok r \<longleftrightarrow> 0 < fst r \<and>
     (case snd r of
        Names xs \<Rightarrow> xs \<noteq> [] \<and> length xs \<le> 1440
      | Sized its \<Rightarrow> list_all (\<lambda>p. 0 < snd p) its \<and> sum_list (map snd its) = W)"

definition row_names :: "int \<times> row_items \<Rightarrow> string list" where
  "row_names r = (case snd r of Names xs \<Rightarrow> xs | Sized its \<Rightarrow> map fst its)"

lemma equal_widths_ok:
  assumes "0 < n" "n \<le> 1440"
  shows "length (equal_widths n) = n \<and> sum_list (equal_widths n) = W \<and> list_all (\<lambda>w. 0 < w) (equal_widths n)"
proof -
  obtain m where n: "n = Suc m" using assms(1) by (cases n) auto
  let ?q = "W div int n"
  have rep: "replicate n ?q = replicate m ?q @ [?q]" unfolding n by (simp add: replicate_append_same)
  have ws: "equal_widths n = replicate m ?q @ [?q + (W - int n * ?q)]"
    unfolding equal_widths_def Let_def rep by (simp add: n sum_list_replicate list_update_append nth_append algebra_simps)
  have "1 \<le> ?q" using assms by (simp add: W_def pos_imp_zdiv_pos_iff int_one_le_iff_zero_less)
  moreover have "int n * ?q \<le> W" using mult_div_mod_eq [of "int n" W] pos_mod_sign [of "int n" W] n by linarith
  ultimately show ?thesis unfolding ws using n by (auto simp: sum_list_replicate algebra_simps list_all_iff)
qed

lemma sized_ok:
  assumes "row_ok r"
  shows "map fst (sized (snd r)) = row_names r \<and> sum_list (map snd (sized (snd r))) = W \<and> list_all (\<lambda>p. 0 < snd p) (sized (snd r))"
proof (cases "snd r")
  case (Names xs)
  with assms have "0 < length xs" "length xs \<le> 1440" by (auto simp: row_ok_def)
  note w = equal_widths_ok [OF this]
  from Names assms have "sized (snd r) = zip xs (equal_widths (length xs))"
    by (cases xs) (auto simp: sized_def row_ok_def)
  with w Names show ?thesis by (auto simp: row_names_def list_all_iff dest: set_zip_rightD)
next
  case (Sized its)
  with assms show ?thesis by (simp add: sized_def row_ok_def row_names_def)
qed

lemma row_covers:
  assumes "list_all (\<lambda>p. 0 < snd p) its" "0 < h"
  shows "length (filter (covers px py) (row_blocks x y h its)) =
    (if x \<le> px \<and> px < x + sum_list (map snd its) \<and> y \<le> py \<and> py < y + h then 1 else 0)"
  using assms
proof (induction its arbitrary: x)
  case (Cons p its)
  have "0 \<le> sum_list (map snd its)" using Cons.prems by (intro sum_list_nonneg) (auto simp: list_all_iff)
  obtain item w where p: "p = (item, w)" by force
  then have w: "0 < w" "list_all (\<lambda>p. 0 < snd p) its" using Cons.prems by simp_all
  have "length (filter (covers px py) (row_blocks x y h (p # its))) =
      (if x \<le> px \<and> px < x + w \<and> y \<le> py \<and> py < y + h then 1 else 0) + length (filter (covers px py) (row_blocks (x + w) y h its))"
    by (simp add: p covers_def)
  then show ?case unfolding Cons.IH [OF w(2) Cons.prems(2)] using w \<open>0 \<le> sum_list (map snd its)\<close> p by auto
qed simp

lemma row_items: "map bl_item (row_blocks x y h its) = map fst its"
  by (induction its arbitrary: x) auto

lemma grid_from_tiles:
  assumes "list_all row_ok rows"
    and "\<And>px py. length (filter (covers px py) blks) = (if 0 \<le> px \<and> px < W \<and> 0 \<le> py \<and> py < y then 1 else 0)"
    and "0 \<le> y"
  shows "\<exists>l. grid_from y blks rows = Some l \<and> map bl_item (ly_structure l) = map bl_item blks @ concat (map row_names rows) \<and>
    ly_height l = y + sum_list (map fst rows) \<and>
    (\<forall>px py. length (filter (covers px py) (ly_structure l)) = (if 0 \<le> px \<and> px < W \<and> 0 \<le> py \<and> py < ly_height l then 1 else 0))"
  using assms
proof (induction rows arbitrary: y blks)
  case (Cons r rows)
  obtain h items where r: "r = (h, items)" by force
  with Cons.prems(1) have h: "0 < h" and ok: "row_ok (h, items)" by (simp_all add: row_ok_def)
  note s = sized_ok [OF ok, simplified]
  let ?st = "blks @ row_blocks 0 y h (sized items)"
  have "length (filter (covers px py) ?st) = (if 0 \<le> px \<and> px < W \<and> 0 \<le> py \<and> py < y + h then 1 else 0)" for px py
    using Cons.prems(2,3) row_covers [of "sized items" h px py 0 y] s h by auto
  with Cons.IH [of ?st "y + h"] Cons.prems(1,3) h obtain l where "grid_from (y + h) ?st rows = Some l"
      "map bl_item (ly_structure l) = map bl_item ?st @ concat (map row_names rows)" "ly_height l = y + h + sum_list (map fst rows)"
      "\<forall>px py. length (filter (covers px py) (ly_structure l)) = (if 0 \<le> px \<and> px < W \<and> 0 \<le> py \<and> py < ly_height l then 1 else 0)" by auto
  with s r show ?case by (auto simp: row_items)
qed simp

text \<open>
  C37. The grid tiles its tab: rows of names, which share the width evenly, and rows whose widths add up to it are
  laid out without a failed check, every point of the tab is covered by exactly one block, and the blocks are
  the items in order.
\<close>

theorem grid_tiles:
  assumes "list_all row_ok rows"
  shows "\<exists>l. grid rows = Some l \<and> map bl_item (ly_structure l) = concat (map row_names rows) \<and>
    ly_height l = sum_list (map fst rows) \<and>
    (\<forall>px py. length (filter (covers px py) (ly_structure l)) = (if 0 \<le> px \<and> px < W \<and> 0 \<le> py \<and> py < ly_height l then 1 else 0))"
  using grid_from_tiles [OF assms, of "[]" 0] by (simp add: grid_def)

lemma grid_tiles_witness:
  "\<exists>l. grid [(120, Names [''a'', ''b'', ''c'', ''d'', ''e'', ''f'', ''g'']), (320, Sized [(''h'', 480), (''i'', 960)])] = Some l \<and>
     length (filter (covers 1439 119) (ly_structure l)) = 1 \<and> length (filter (covers 480 120) (ly_structure l)) = 1"
proof -
  have "list_all row_ok [(120, Names [''a'', ''b'', ''c'', ''d'', ''e'', ''f'', ''g'']), (320, Sized [(''h'', 480), (''i'', 960)])]"
    by (simp add: row_ok_def W_def)
  from grid_tiles [OF this] show ?thesis by (auto simp: W_def)
qed

section \<open>The copies\<close>

text \<open>After the loop no item stands twice, and every copy shows what its original shows.\<close>

lemma clones_distinct:
  assumes "clone_blocks bs seen viz = Some (bs', seen', viz')"
    and "set (map bl_item bs) \<subseteq> dom (map_of viz)" "seen \<subseteq> dom (map_of viz)"
  shows "distinct (map bl_item bs') \<and> set (map bl_item bs') \<inter> seen = {} \<and>
    map (\<lambda>b. map_of viz' (bl_item b)) bs' = map (\<lambda>b. map_of viz (bl_item b)) bs \<and> map_of viz \<subseteq>\<^sub>m map_of viz'"
  using assms
proof (induction bs seen viz arbitrary: bs' rule: clone_blocks.induct)
  case (1 seen viz)
  then show ?case by auto
next
  case (2 b bs seen viz)
  let ?item = "bl_item b" and ?clone = "bl_item b @ ''_2''"
  show ?case
  proof (cases "?item \<in> seen")
    case False
    with 2(3) obtain cs where cs: "clone_blocks bs (insert ?item seen) viz = Some (cs, seen', viz')" "bs' = b # cs"
      by (auto simp: Let_def)
    from 2(1) [OF refl refl False cs(1)] 2(4,5) False cs(2) show ?thesis
      by (auto simp: map_le_def dom_def)
  next
    case True
    with 2(3) obtain v cs where v: "map_of viz ?clone = None" "map_of viz ?item = Some v"
        "clone_blocks bs (insert ?clone seen) (AList.update ?clone v viz) = Some (cs, seen', viz')" "bs' = b\<lparr>bl_item := ?clone\<rparr> # cs"
      by (auto simp: Let_def split: if_splits option.splits)
    have le: "map_of viz \<subseteq>\<^sub>m map_of (AList.update ?clone v viz)" using v(1) by (auto simp: map_le_def update_conv' dom_def)
    have dom: "dom (map_of (AList.update ?clone v viz)) = insert ?clone (dom (map_of viz))" by (auto simp: update_conv')
    have d: "set (map bl_item bs) \<subseteq> dom (map_of (AList.update ?clone v viz))" "insert ?clone seen \<subseteq> dom (map_of (AList.update ?clone v viz))"
      unfolding dom using 2(4,5) by auto
    have ih: "distinct (map bl_item cs) \<and> set (map bl_item cs) \<inter> insert ?clone seen = {} \<and>
        map (\<lambda>b. map_of viz' (bl_item b)) cs = map (\<lambda>b. map_of (AList.update ?clone v viz) (bl_item b)) bs \<and>
        map_of (AList.update ?clone v viz) \<subseteq>\<^sub>m map_of viz'"
      using 2(2) [OF refl refl _ _ v(2,3) d] True v(1) by (simp add: fun_upd_def)
    have new: "?clone \<notin> seen" using v(1) 2(5) by auto
    have "map_of (AList.update ?clone v viz) (bl_item b') = map_of viz (bl_item b')" if "b' \<in> set bs" for b'
      using that 2(4) v(1) by (auto simp: update_conv' dom_def)
    moreover have "map_of viz' ?clone = Some v" using ih by (auto simp: map_le_def update_conv' dom_def)
    moreover have "map_of viz \<subseteq>\<^sub>m map_of viz'" using le ih map_le_trans by blast
    ultimately show ?thesis using ih new v(2,4) by auto
  qed
qed

end
