(* ===== verification/Spec2Isabelle.thy ===== *)
theory Spec2Isabelle
  imports Prelude Csv_Files Part_Writer Part_Crash Reorg_State Numbers Mining_Pools Block_Parser
    Export_Schema Catchup Ingest Ingest_Safety Ingest_Progress Ingest_Reorg Sanctions_List Zmq_Sequence
    Mempool_State Mempool_Watch Mempool_Life Mempool_Complete Block_Header Stale_Blocks Config Rpc_Client
    Price_Backfill Api_Client Api_Poller Field_Config
    Atomic_Write Command_Line Dashboard
begin

text \<open>
  btc_parser_app exports what a Bitcoin node knows as append-only CSV parts, for Splunk to consume. Its
  services are rpc-ingest (blocks, transactions, inputs and outputs, following reorganisations),
  mempool-watch (life-cycle events of mempool transactions that touch listed addresses),
  stale-blocks-ingest (headers of blocks off the main chain), api-poll and a manual backfill of prices.
  Paths below are relative to src/btc_parser_app.

  \<^bold>\<open>How the model is built.\<close> Stateful code is an action: a function from a state to a result or exception and
  the new state (theory Prelude, \<open>bindA\<close>, \<open>catchA\<close>, \<open>forA\<close>); a raise, an except clause and an early return
  are branches of it, and an exception keeps what was done before it. The disk is a map from paths to
  bytes with a log of the effects on it, so a crash between two effects is a prefix of the log.
  Everything outside the source (the node, other servers, polars, clocks, the operating system) is a field
  of an environment record, mostly an oracle of the number of the question, so that a theorem holds for
  every behaviour of it. Doubles are rationals rounded to 53 bits (theory Numbers); Decimals are exact.

  \<^bold>\<open>The theories, in the order they build on each other.\<close>
  \<^item> Prelude: exceptions, actions with their invariant rules (\<open>keeps\<close>, \<open>triple\<close>), dictionaries, cells and rows.
  \<^item> Atomic_Write (common/atomic_write.py): a replacement on a file system that may lose power.
  \<^item> Csv_Files (common/csv_writer.py): part names, the directory scan, rotation, appending and reading back.
    Part_Writer (rpc/part_writer.py): the sequencer with its counter file, batched and atomic mode and the
    handoff by rename; Part_Crash: restarts between any two of its effects.
  \<^item> Reorg_State (rpc/reorg_state.py): the block index with staging and versions, canonical flags, pointer
    files and the reorg audit log.
  \<^item> Numbers, Mining_Pools (rpc/mining_pools.py), Block_Parser (rpc/block_parser.py), Export_Schema
    (export_schema.py): from a decoded block to its rows. Field_Config (../splunk/build_field_config.py): the
    generated Splunk and Cribl texts, and what their regular expressions capture from a row.
  \<^item> Catchup (rpc/catchup.py), Ingest (rpc/ingest.py): the worker pool's generator and the whole ingest
    process over one state. Ingest_Safety, Ingest_Progress and Ingest_Reorg prove its order of effects, that
    a pass catches up, and its reorg recovery.
  \<^item> Sanctions_List, Zmq_Sequence, Mempool_State, Mempool_Watch (rpc/sanctions_list.py, zmq_sequence.py,
    mempool_watch_state.py, mempool_watch.py): the watcher, its inputs and its state file. Mempool_Life proves
    the life cycle of its events and its crash behaviour, Mempool_Complete that it misses nothing.
  \<^item> Block_Header (common/block_header.py), Stale_Blocks (rpc/stale_blocks.py, stale_blocks_state.py,
    stale_blocks_github.py): header parsing and validation on bytes, the registry and both passes.
  \<^item> Config (config.py): config.yaml as its parsed value turned into settings. Rpc_Client (rpc/client.py):
    one call over bitcoin-cli or HTTP, with its retries. Price_Backfill (api/price_gap_backfill.py).
  \<^item> Api_Client (api/rate_limiter.py, client.py, mining_pools_dataset.py): the token bucket in doubles, the client
    and the refresh of the pools file. Api_Poller (api/poller.py, mempool_endpoints.py): the endpoint threads and
    the main thread as steps over shared state; a list of events says whose turn it is.
  \<^item> Command_Line (cli.py): dispatch and exit codes. Dashboard (../splunk/dashboards): the bands, the grid of a tab,
    the copies and checks, and the texts of the app.

  \<^bold>\<open>How the parts interact.\<close> Ingest calls Catchup for decoded blocks, Block_Parser for rows, Part_Writer to
  write them and Reorg_State to record them: rows are drained before the index is flushed, and the index
  before the pointer. Part_Writer and Stale_Blocks write through Csv_Files. The watcher and the stale
  block service see the node through calls that Rpc_Client models; in their theories these calls are oracles
  that answer or raise \<open>RpcCliError\<close> or \<open>RpcError\<close>, which is what Rpc_Client shows a call to do. The poller's
  threads share one bucket, a stop event and a rate limited event; every access to them is a step of its own.

  \<^bold>\<open>What the groups of lemmas show.\<close> Files and parts: what is written is read back in order, exported parts
  are not written twice, and a restart resumes. Index and flags: staging is revocable, a flush survives a
  restart. Parser: rows have the schema's columns, block totals equal what the detail rows add up to, fees
  and rates are exact or within one rounding. Ingest: a block is indexed only after its rows are on disk,
  is never exported again at its version, and a reorg is undone to the fork exactly or not at all. Watcher:
  the events of a transaction follow one automaton, a crash repeats at most one event, a reconcile leaves
  nothing untracked. Stale blocks: an exported header hashes to its block, and the status exported for a
  block only rises. Client, backfill, configuration: calls end within their budget, both transports agree,
  a checkpoint never runs ahead of the rows, accepted settings are in range. Poller: all threads together keep
  the request budget, a stop ends every thread after at most one more request, the exit code tells why it
  ended. Field configuration: every column of a row is extracted exactly once.

  \<^bold>\<open>Bounds and fuel.\<close> Service loops that run until they are stopped (\<open>run_cycles\<close>, \<open>run_watch\<close>,
  \<open>run_stale_blocks\<close>) take the number of passes, and their theorems hold for every number. Loops that end by
  themselves are structural recursions, or take the number of steps the code computes: \<open>run_backfill\<close> is
  proved never to run out of it. Retry loops recurse on the attempts left. Waiting for a token takes the number
  of looks at the bucket, and three are proved to be enough.

  \<^bold>\<open>Assumptions.\<close> They are hypotheses with names: \<open>csv_law\<close> (polars reads back what it wrote), the shape of
  decoded blocks that Bitcoin Core documents, and a steady node where progress is claimed.

  \<^bold>\<open>Not modelled.\<close> Log lines, exception texts, how long a sleep takes, the threads inside the worker pools,
  signal handlers, logging set-up and argument parsing. In the theories that use it a replaced file is one effect.
  Of the dashboard builder, the literal searches and tabs are left out; its functions take them as arguments.
\<close>

end
